(* ===== verification/Prelude.thy ===== *)
theory Prelude
  imports Main "HOL-Library.Word" "HOL-Library.Code_Target_Nat"
begin

text \<open>
  Shared vocabulary of the development: the machine-integer types of the Go sources, the
  type of Go's \<open>(value, error)\<close> results, the collection of simplification rules for the Go library
  functions, and the generic facts on results and words that the components share.

  \<^item> \<open>u8\<close>, \<open>u16\<close>, \<open>u32\<close>, \<open>u64\<close> are Go's unsigned integers at their width; their
    arithmetic wraps around as Go's does.
  \<^item> \<open>'e + 'a\<close> is a Go result: \<open>Inl e\<close> is a non-nil error, \<open>Inr x\<close> the value with a nil error.
  \<^item> \<open>'e option\<close> is a Go \<open>error\<close> that carries no value: \<open>None\<close> is \<open>nil\<close>.
\<close>

type_synonym u8 = "8 word"
type_synonym u16 = "16 word"
type_synonym u32 = "32 word"
type_synonym u64 = "64 word"

named_theorems go_std "string, number and scanning functions of the Go standard library"

section \<open>Results\<close>

definition bind_res :: "'e + 'a \<Rightarrow> ('a \<Rightarrow> 'e + 'b) \<Rightarrow> 'e + 'b" where
  "bind_res r f = (case r of Inl e \<Rightarrow> Inl e | Inr x \<Rightarrow> f x)"

lemma bind_res_simps [simp]:
  "bind_res (Inl e) f = Inl e"
  "bind_res (Inr x) f = f x"
  by (simp_all add: bind_res_def)

lemma bind_res_Inr_iff:
  "bind_res r f = Inr y \<longleftrightarrow> (\<exists>x. r = Inr x \<and> f x = Inr y)"
  by (cases r) simp_all

section \<open>Words\<close>

text \<open>The models convert words to \<open>nat\<close> first, as \<open>int(x)\<close> of an unsigned \<open>x\<close> does; keep that form.\<close>

declare of_nat_unat [simp del]

lemma word_of_nat_unat [simp]: "(of_nat (unat w) :: 'a::len word) = w"
  by (simp add: of_nat_unat)

lemma unat_less_2p32: "unat (x :: u32) < 4294967296"
  by (rule order_less_le_trans [OF unsigned_less]) simp

lemma unat_less_2p64: "unat (x :: u64) < 18446744073709551616"
  by (rule order_less_le_trans [OF unsigned_less]) simp

lemma unat_less_2p16: "unat (x :: u16) < 65536"
  by (rule order_less_le_trans [OF unsigned_less]) simp

lemma unat_of_nat_u32: "n < 4294967296 \<Longrightarrow> unat (of_nat n :: u32) = n"
  by (simp add: unat_of_nat take_bit_nat_eq_self)

lemma unat_of_nat_u64: "n < 18446744073709551616 \<Longrightarrow> unat (of_nat n :: u64) = n"
  by (simp add: unat_of_nat take_bit_nat_eq_self)

lemma unat_of_nat_u16: "n < 65536 \<Longrightarrow> unat (of_nat n :: u16) = n"
  by (simp add: unat_of_nat take_bit_nat_eq_self)

lemma unat_sub_le: "(b :: 'a::len word) \<le> a \<Longrightarrow> unat (a - b) = unat a - unat b"
  by (rule unat_sub)

lemma sint_small_u64: "unat (w :: u64) < 2 ^ 63 \<Longrightarrow> sint w = int (unat w)"
  by (simp add: sint_uint signed_take_bit_int_eq_self uint_nat)

end
