(* ===== verification/Api_Types.thy ===== *)
theory Api_Types
  imports Prelude
begin

text \<open>
  The Kubernetes API objects the controllers exchange with the API server, as far as the modelled
  code reads or writes them, and the API errors it tells apart. The API server itself is not part
  of the repository: every call to it is an argument of the definitions that make it (a field of
  a client record over an unconstrained world type \<open>'w\<close>), and a theorem that needs a property of the
  server states it as a hypothesis.
\<close>

type_synonym str_map = "string \<rightharpoonup> string"

text \<open>\<open>apierrors.IsNotFound\<close>, \<open>apierrors.IsConflict\<close>, anything else.\<close>

datatype api_error = NotFound | ConflictErr | OtherErr string

text \<open>
  \<open>FieldsV1.Raw\<close> after \<open>json.Unmarshal\<close>: \<open>None\<close> where the bytes are no JSON. Only objects and
  \<open>null\<close> are told apart from other JSON values.
\<close>

datatype json = JObj "(string \<times> json) list" | JNull | JOther

record managed_fields_entry =
  mf_Manager :: string
  mf_FieldsV1 :: "json option"

datatype ns_phase = NsActive | NsTerminating

record namespace =
  ns_Name :: string
  ns_ResourceVersion :: nat
  ns_Labels :: str_map
  ns_Annotations :: str_map
  ns_ManagedFields :: "managed_fields_entry list"
  ns_Phase :: ns_phase

text \<open>\<open>corev1apply.NamespaceApplyConfiguration\<close>: the fields the controllers set in an apply patch.\<close>

record ns_apply =
  na_Name :: string
  na_ResourceVersion :: "nat option"
  na_Labels :: str_map
  na_Annotations :: str_map

text \<open>\<open>securityinternalv1.RangeAllocation\<close>.\<close>

record range_allocation =
  ra_Name :: string
  ra_ResourceVersion :: nat
  ra_Range :: string
  ra_Data :: "u8 list"

text \<open>Names of \<open>vendor/github.com/openshift/api/security/v1/consts.go\<close>.\<close>

definition UIDRangeAnnotation :: string where
  "UIDRangeAnnotation = ''openshift.io/sa.scc.uid-range''"

definition SupplementalGroupsAnnotation :: string where
  "SupplementalGroupsAnnotation = ''openshift.io/sa.scc.supplemental-groups''"

definition MCSAnnotation :: string where
  "MCSAnnotation = ''openshift.io/sa.scc.mcs''"

definition MinimallySufficientPodSecurityStandard :: string where
  "MinimallySufficientPodSecurityStandard =
     ''security.openshift.io/MinimallySufficientPodSecurityStandard''"

lemma annotation_names_distinct [simp]:
  "UIDRangeAnnotation \<noteq> SupplementalGroupsAnnotation" "UIDRangeAnnotation \<noteq> MCSAnnotation"
  "SupplementalGroupsAnnotation \<noteq> MCSAnnotation"
  "SupplementalGroupsAnnotation \<noteq> UIDRangeAnnotation" "MCSAnnotation \<noteq> UIDRangeAnnotation"
  "MCSAnnotation \<noteq> SupplementalGroupsAnnotation"
  by (simp_all add: UIDRangeAnnotation_def SupplementalGroupsAnnotation_def MCSAnnotation_def)

text \<open>Go's \<open>m[k]\<close> on a \<open>map[string]string\<close>: the zero value when the key is absent.\<close>

definition str_at :: "str_map \<Rightarrow> string \<Rightarrow> string" where
  "str_at m k = (case m k of Some v \<Rightarrow> v | None \<Rightarrow> [])"

end
