(* ===== verification/Go_Std.thy ===== *)
theory Go_Std
  imports Prelude
begin

text \<open>
  The functions of the Go standard library that the modelled sources call, on byte strings
  (\<open>string\<close> is a list of 8-bit characters, as Go's \<open>string\<close> is a sequence of bytes):
  the single-separator forms of \<open>strings.Split\<close>, \<open>strings.SplitN\<close> and \<open>strings.Join\<close>,
  \<open>strings.HasPrefix\<close>, \<open>strings.HasSuffix\<close>, \<open>strconv.Itoa\<close>, \<open>strconv.Atoi\<close>, and \<open>fmt.Sscanf\<close>
  for formats made of \<open>%d\<close> verbs with \<open>*uint32\<close> operands and literal bytes. White space is
  ASCII white space; the multi-byte Unicode spaces that \<open>fmt\<close> skips as well are not modelled.
\<close>

section \<open>Package strings\<close>

definition HasPrefix :: "string \<Rightarrow> string \<Rightarrow> bool" where
  "HasPrefix s p \<longleftrightarrow> take (length p) s = p"

definition HasSuffix :: "string \<Rightarrow> string \<Rightarrow> bool" where
  "HasSuffix s p \<longleftrightarrow> length p \<le> length s \<and> drop (length s - length p) s = p"

fun Split :: "char \<Rightarrow> string \<Rightarrow> string list" where
  "Split c [] = [[]]"
| "Split c (x # xs) =
     (if x = c then [] # Split c xs
      else (case Split c xs of [] \<Rightarrow> [[x]] | y # ys \<Rightarrow> (x # y) # ys))"

fun SplitN2 :: "char \<Rightarrow> string \<Rightarrow> string list" where
  "SplitN2 c [] = [[]]"
| "SplitN2 c (x # xs) =
     (if x = c then [[], xs]
      else (case SplitN2 c xs of [] \<Rightarrow> [[x]] | y # ys \<Rightarrow> (x # y) # ys))"

fun Join :: "char \<Rightarrow> string list \<Rightarrow> string" where
  "Join c [] = []"
| "Join c [x] = x"
| "Join c (x # y # ys) = x @ c # Join c (y # ys)"

lemma Split_not_Nil [simp]: "Split c s \<noteq> []"
  by (induction s) (auto split: list.split)

lemma Split_no_sep [go_std]: "c \<notin> set s \<Longrightarrow> Split c s = [s]"
  by (induction s) auto

lemma Split_append_sep [go_std]: "c \<notin> set s \<Longrightarrow> Split c (s @ c # t) = s # Split c t"
  by (induction s) auto

lemma Split_parts_no_sep: "p \<in> set (Split c s) \<Longrightarrow> c \<notin> set p"
  by (induction s arbitrary: p) (auto split: list.splits if_splits)

lemma Join_Cons_hd: "Join c ((x # p) # ps) = x # Join c (p # ps)"
  by (cases ps) simp_all

lemma Join_Nil_hd: "ps \<noteq> [] \<Longrightarrow> Join c ([] # ps) = c # Join c ps"
  by (cases ps) simp_all

lemma Join_Split: "Join c (Split c s) = s"
proof (induction s)
  case (Cons x xs)
  then show ?case
    by (cases "Split c xs") (auto simp: Join_Cons_hd Join_Nil_hd)
qed simp

lemma Split_Join:
  "ps \<noteq> [] \<Longrightarrow> \<forall>p \<in> set ps. c \<notin> set p \<Longrightarrow> Split c (Join c ps) = ps"
  by (induction c ps rule: Join.induct) (auto simp: Split_no_sep Split_append_sep)

lemma SplitN2_no_sep [go_std]: "c \<notin> set s \<Longrightarrow> SplitN2 c s = [s]"
  by (induction s) auto

lemma SplitN2_append_sep [go_std]: "c \<notin> set s \<Longrightarrow> SplitN2 c (s @ c # t) = [s, t]"
  by (induction s) auto

lemma HasSuffix_append [simp]: "HasSuffix (s @ p) p"
  by (simp add: HasSuffix_def)

section \<open>Decimal numerals: strconv.Itoa and strconv.Atoi\<close>

definition is_digit :: "char \<Rightarrow> bool" where
  "is_digit c \<longleftrightarrow> 48 \<le> (of_char c :: nat) \<and> (of_char c :: nat) \<le> 57"

definition digit_val :: "char \<Rightarrow> nat" where
  "digit_val c = of_char c - 48"

definition digit_char :: "nat \<Rightarrow> char" where
  "digit_char d = char_of (48 + d)"

fun itoa_nat :: "nat \<Rightarrow> string" where
  "itoa_nat n = (if n < 10 then [digit_char n] else itoa_nat (n div 10) @ [digit_char (n mod 10)])"

declare itoa_nat.simps [simp del]

definition Itoa :: "int \<Rightarrow> string" where
  "Itoa i = (if i < 0 then CHR ''-'' # itoa_nat (nat (- i)) else itoa_nat (nat i))"

definition digits_val :: "string \<Rightarrow> nat" where
  "digits_val ds = foldl (\<lambda>a c. 10 * a + digit_val c) 0 ds"

datatype num_error = ErrSyntax | ErrRange

text \<open>
  \<open>strconv.Atoi\<close> on a platform with 64-bit \<open>int\<close>: an optional sign, at least one decimal
  digit, nothing else, and the value within \<open>int64\<close>.
\<close>

definition Atoi :: "string \<Rightarrow> num_error + int" where
  "Atoi s =
     (let neg = (s \<noteq> [] \<and> hd s = CHR ''-'');
          ds = (if s \<noteq> [] \<and> (hd s = CHR ''-'' \<or> hd s = CHR ''+'') then tl s else s);
          v = int (digits_val ds)
      in if ds = [] \<or> \<not> list_all is_digit ds then Inl ErrSyntax
         else if neg then (if v \<le> 2 ^ 63 then Inr (- v) else Inl ErrRange)
         else (if v < 2 ^ 63 then Inr v else Inl ErrRange))"

lemma of_char_digit_char [simp]: "d < 10 \<Longrightarrow> (of_char (digit_char d) :: nat) = 48 + d"
  by (simp add: digit_char_def)

lemma is_digit_digit_char [simp]: "d < 10 \<Longrightarrow> is_digit (digit_char d)"
  by (simp add: is_digit_def)

lemma digit_val_digit_char [simp]: "d < 10 \<Longrightarrow> digit_val (digit_char d) = d"
  by (simp add: digit_val_def)

lemma itoa_nat_not_Nil [simp]: "itoa_nat n \<noteq> []"
  by (subst itoa_nat.simps) simp

lemma itoa_nat_digits: "list_all is_digit (itoa_nat n)"
proof (induction n rule: itoa_nat.induct)
  case (1 n)
  then show ?case by (subst itoa_nat.simps) simp
qed

lemma digits_val_itoa_nat [simp]: "digits_val (itoa_nat n) = n"
proof (induction n rule: itoa_nat.induct)
  case (1 n)
  then show ?case by (subst itoa_nat.simps) (auto simp: digits_val_def)
qed

lemma itoa_nat_inj: "itoa_nat m = itoa_nat n \<Longrightarrow> m = n"
  by (metis digits_val_itoa_nat)

lemma hd_itoa_nat_digit: "is_digit (hd (itoa_nat n))"
  using itoa_nat_digits [of n] by (cases "itoa_nat n") auto

lemma digit_not_sign: "is_digit c \<Longrightarrow> c \<noteq> CHR ''-'' \<and> c \<noteq> CHR ''+''"
  by (auto simp: is_digit_def)

lemma Atoi_itoa_nat: "n < 2 ^ 63 \<Longrightarrow> Atoi (itoa_nat n) = Inr (int n)"
  using hd_itoa_nat_digit [of n] digit_not_sign [of "hd (itoa_nat n)"] itoa_nat_digits [of n]
  by (simp add: Atoi_def Let_def)

lemma itoa_nat_no_nondigit: "\<not> is_digit c \<Longrightarrow> c \<notin> set (itoa_nat n)"
  using itoa_nat_digits [of n] by (auto simp: list_all_iff)

section \<open>fmt.Sscanf with decimal verbs\<close>

datatype fmt_item = FLit char | FPctD

datatype scan_error =
    UnexpectedEOF
  | UnexpectedNewline
  | ExpectedInteger
  | IntegerOverflow
  | InputMismatch

definition is_blank :: "char \<Rightarrow> bool" where
  "is_blank c \<longleftrightarrow> (of_char c :: nat) \<in> {9, 11, 12, 13, 32}"

fun SkipSpace :: "string \<Rightarrow> scan_error + string" where
  "SkipSpace [] = Inr []"
| "SkipSpace (c # cs) =
     (if (of_char c :: nat) = 10 then Inl UnexpectedNewline
      else if is_blank c then SkipSpace cs
      else Inr (c # cs))"

definition scanUint :: "nat \<Rightarrow> string \<Rightarrow> scan_error + (nat \<times> string)" where
  "scanUint bits s =
     bind_res (SkipSpace s) (\<lambda>s'.
       if s' = [] then Inl UnexpectedEOF
       else if \<not> is_digit (hd s') then Inl ExpectedInteger
       else let tok = takeWhile is_digit s'; rest = dropWhile is_digit s'; v = digits_val tok
            in if 2 ^ bits \<le> v then Inl IntegerOverflow else Inr (v, rest))"

text \<open>\<open>doScanf\<close>: the values read, in order, or the error that stopped the scan. A format that
  is exhausted leaves the rest of the input unread without an error.\<close>

fun Sscanf :: "nat \<Rightarrow> fmt_item list \<Rightarrow> string \<Rightarrow> scan_error + nat list" where
  "Sscanf bits [] s = Inr []"
| "Sscanf bits (FLit c # fs) s =
     (case s of [] \<Rightarrow> Inl UnexpectedEOF
      | x # xs \<Rightarrow> if x = c then Sscanf bits fs xs else Inl InputMismatch)"
| "Sscanf bits (FPctD # fs) s =
     bind_res (scanUint bits s) (\<lambda>(v, rest).
       bind_res (Sscanf bits fs rest) (\<lambda>vs. Inr (v # vs)))"

lemma digit_not_blank: "is_digit c \<Longrightarrow> \<not> is_blank c \<and> (of_char c :: nat) \<noteq> 10"
  by (auto simp: is_digit_def is_blank_def)

lemma SkipSpace_digit: "s \<noteq> [] \<Longrightarrow> is_digit (hd s) \<Longrightarrow> SkipSpace s = Inr s"
  using digit_not_blank by (cases s) auto

lemma takeWhile_itoa:
  assumes "rest = [] \<or> \<not> is_digit (hd rest)"
  shows "takeWhile is_digit (itoa_nat n @ rest) = itoa_nat n"
    and "dropWhile is_digit (itoa_nat n @ rest) = rest"
proof -
  have d: "x \<in> set (itoa_nat n) \<Longrightarrow> is_digit x" for x
    using itoa_nat_digits [of n] by (simp add: list_all_iff)
  have "takeWhile is_digit rest = []" and "dropWhile is_digit rest = rest"
    using assms by (cases rest; simp)+
  with d show "takeWhile is_digit (itoa_nat n @ rest) = itoa_nat n"
    and "dropWhile is_digit (itoa_nat n @ rest) = rest"
    by (simp_all add: takeWhile_append2 dropWhile_append2)
qed

lemma scanUint_itoa:
  assumes "n < 2 ^ bits" and "rest = [] \<or> \<not> is_digit (hd rest)"
  shows "scanUint bits (itoa_nat n @ rest) = Inr (n, rest)"
  using assms hd_itoa_nat_digit [of n] takeWhile_itoa [of rest n, OF assms(2)]
  by (simp add: scanUint_def SkipSpace_digit)

lemma scanUint_bound: "scanUint bits s = Inr (v, rest) \<Longrightarrow> v < 2 ^ bits"
  by (auto simp: scanUint_def bind_res_Inr_iff Let_def split: if_splits)

lemma not_digit_sep [simp]:
  "\<not> is_digit (CHR ''/'')" "\<not> is_digit (CHR ''-'')" "\<not> is_digit (CHR '','')" "\<not> is_digit (CHR '':'')"
  "\<not> is_digit (CHR ''c'')"
  by (simp_all add: is_digit_def)

end
