(* ===== verification/Uid.thy ===== *)
theory Uid
  imports Go_Std
begin

text \<open>
  UID blocks and ranges: \<open>vendor/github.com/openshift/library-go/pkg/security/uid/uid.go\<close>.
  A \<open>Block\<close> is an inclusive interval of 32-bit UIDs, a \<open>Range\<close> a block cut into pieces of
  equal size. All arithmetic is Go's \<open>uint32\<close> arithmetic and wraps around. The theory shows
  the print/parse round trips, that \<open>BlockAt\<close> and \<open>Offset\<close> are inverse on the offsets below
  \<open>Size\<close>, that distinct offsets give disjoint blocks, and, for the offsets and blocks where the
  32-bit arithmetic wraps or the bound is not checked, what the code does instead.
\<close>

section \<open>Data\<close>

record block =
  blk_Start :: u32
  blk_End :: u32

record uid_range =
  rng_block :: block
  rng_size :: u32

datatype uid_error =
    ScanFailed scan_error
  | ErrBlockSlashBadFormat
  | ErrBlockDashBadFormat
  | ErrRangeBadFormat
  | ErrStartAfterEnd u32 u32
  | ErrZeroBlockSize
  | ErrBlockSizeTooLarge

section \<open>Blocks\<close>

definition Block_Size :: "block \<Rightarrow> u32" where
  "Block_Size b = blk_End b - blk_Start b + 1"

definition Block_String :: "block \<Rightarrow> string" where
  "Block_String b = itoa_nat (unat (blk_Start b)) @ ''/'' @ itoa_nat (unat (Block_Size b))"

definition Block_RangeString :: "block \<Rightarrow> string" where
  "Block_RangeString b = itoa_nat (unat (blk_Start b)) @ ''-'' @ itoa_nat (unat (blk_End b))"

definition ParseBlock :: "string \<Rightarrow> uid_error + block" where
  "ParseBlock s =
     (if CHR ''/'' \<in> set s then
        (case Sscanf 32 [FPctD, FLit CHR ''/'', FPctD] s of
           Inl e \<Rightarrow> Inl (ScanFailed e)
         | Inr [start, sz] \<Rightarrow>
             Inr \<lparr>blk_Start = of_nat start, blk_End = of_nat start + of_nat sz - 1\<rparr>
         | Inr _ \<Rightarrow> Inl ErrBlockSlashBadFormat)
      else
        (case Sscanf 32 [FPctD, FLit CHR ''-'', FPctD] s of
           Inl e \<Rightarrow> Inl (ScanFailed e)
         | Inr [start, end] \<Rightarrow> Inr \<lparr>blk_Start = of_nat start, blk_End = of_nat end\<rparr>
         | Inr _ \<Rightarrow> Inl ErrBlockDashBadFormat))"

section \<open>Ranges\<close>

definition NewRange :: "u32 \<Rightarrow> u32 \<Rightarrow> u32 \<Rightarrow> uid_error + uid_range" where
  "NewRange start end sz =
     (if end < start then Inl (ErrStartAfterEnd start end)
      else if sz = 0 then Inl ErrZeroBlockSize
      else if end - start < sz then Inl ErrBlockSizeTooLarge
      else Inr \<lparr>rng_block = \<lparr>blk_Start = start, blk_End = end\<rparr>, rng_size = sz\<rparr>)"

definition ParseRange :: "string \<Rightarrow> uid_error + uid_range" where
  "ParseRange s =
     (case Sscanf 32 [FPctD, FLit CHR ''-'', FPctD, FLit CHR ''/'', FPctD] s of
        Inl e \<Rightarrow> Inl (ScanFailed e)
      | Inr [start, end, blk] \<Rightarrow> NewRange (of_nat start) (of_nat end) (of_nat blk)
      | Inr _ \<Rightarrow> Inl ErrRangeBadFormat)"

definition Range_Size :: "uid_range \<Rightarrow> u32" where
  "Range_Size r = Block_Size (rng_block r) div rng_size r"

definition Range_String :: "uid_range \<Rightarrow> string" where
  "Range_String r = Block_RangeString (rng_block r) @ ''/'' @ itoa_nat (unat (rng_size r))"

text \<open>Go's \<open>(Block, bool)\<close> result; \<open>None\<close> is \<open>(Block{}, false)\<close>.\<close>

definition BlockAt :: "uid_range \<Rightarrow> u32 \<Rightarrow> block option" where
  "BlockAt r offset =
     (if offset > Range_Size r then None
      else let start = blk_Start (rng_block r) + offset * rng_size r
           in Some \<lparr>blk_Start = start, blk_End = start + rng_size r - 1\<rparr>)"

text \<open>Go's \<open>(bool, uint32)\<close> result; \<open>None\<close> is \<open>(false, 0)\<close>.\<close>

definition Range_Offset :: "uid_range \<Rightarrow> block \<Rightarrow> u32 option" where
  "Range_Offset r b =
     (if blk_Start b < blk_Start (rng_block r) then None
      else if blk_End b > blk_End (rng_block r) then None
      else if blk_End b - blk_Start b + 1 \<noteq> rng_size r then None
      else if (blk_Start b - blk_Start (rng_block r)) mod rng_size r \<noteq> 0 then None
      else Some ((blk_Start b - blk_Start (rng_block r)) div rng_size r))"

definition Range_Contains :: "uid_range \<Rightarrow> block \<Rightarrow> bool" where
  "Range_Contains r b \<longleftrightarrow> Range_Offset r b \<noteq> None"

section \<open>Well-formed ranges\<close>

text \<open>
  \<open>valid_range\<close> is what \<open>NewRange\<close> establishes. \<open>sized_range\<close> excludes in addition the whole
  32-bit space, the one range whose \<open>Block.Size()\<close> wraps to 0.
\<close>

definition valid_range :: "uid_range \<Rightarrow> bool" where
  "valid_range r \<longleftrightarrow>
     blk_Start (rng_block r) \<le> blk_End (rng_block r) \<and> rng_size r \<noteq> 0 \<and>
     rng_size r \<le> blk_End (rng_block r) - blk_Start (rng_block r)"

definition sized_range :: "uid_range \<Rightarrow> bool" where
  "sized_range r \<longleftrightarrow> valid_range r \<and>
     \<not> (blk_Start (rng_block r) = 0 \<and> blk_End (rng_block r) = - 1)"

lemma NewRange_valid: "NewRange a e n = Inr r \<Longrightarrow> valid_range r"
  by (auto simp: NewRange_def valid_range_def not_less split: if_splits)

lemma NewRange_Inr_iff:
  "NewRange a e n = Inr r \<longleftrightarrow>
     valid_range r \<and> r = \<lparr>rng_block = \<lparr>blk_Start = a, blk_End = e\<rparr>, rng_size = n\<rparr>"
  by (auto simp: NewRange_def valid_range_def not_less split: if_splits)

text \<open>The range read as natural numbers: first UID, last UID, block length, number of blocks.\<close>

abbreviation lo :: "uid_range \<Rightarrow> nat" where "lo r \<equiv> unat (blk_Start (rng_block r))"
abbreviation hi :: "uid_range \<Rightarrow> nat" where "hi r \<equiv> unat (blk_End (rng_block r))"
abbreviation len :: "uid_range \<Rightarrow> nat" where "len r \<equiv> unat (rng_size r)"
abbreviation blocks :: "uid_range \<Rightarrow> nat" where "blocks r \<equiv> unat (Range_Size r)"

lemma valid_range_nat:
  "valid_range r \<longleftrightarrow> lo r \<le> hi r \<and> 0 < len r \<and> len r \<le> hi r - lo r"
  by (auto simp: valid_range_def word_le_nat_alt unat_sub_le unat_gt_0)

lemma sized_range_nat:
  "sized_range r \<longleftrightarrow> valid_range r \<and> hi r - lo r < 4294967295"
proof -
  have "blk_Start (rng_block r) = 0 \<longleftrightarrow> lo r = 0" by (simp add: unat_eq_zero)
  moreover have "blk_End (rng_block r) = - 1 \<longleftrightarrow> hi r = 4294967295"
    by (simp add: word_unat_eq_iff unsigned_minus_1_eq_mask mask_eq_exp_minus_1)
  ultimately show ?thesis
    using unat_less_2p32 [of "blk_End (rng_block r)"] by (auto simp: sized_range_def)
qed

lemma blocks_eq:
  assumes "sized_range r"
  shows "blocks r = (hi r - lo r + 1) div len r"
proof -
  have le: "blk_Start (rng_block r) \<le> blk_End (rng_block r)"
    using assms by (simp add: sized_range_def valid_range_def)
  have "unat (Block_Size (rng_block r)) = hi r - lo r + 1"
    using assms unat_sub_le [OF le] unfolding Block_Size_def sized_range_nat
    by (simp add: unat_word_ariths)
  then show ?thesis by (simp add: Range_Size_def unat_div_distrib)
qed

lemma blocks_pos: "sized_range r \<Longrightarrow> 0 < blocks r"
  by (auto simp: blocks_eq sized_range_nat valid_range_nat div_greater_zero_iff)

text \<open>Every offset below \<open>Size\<close> denotes UIDs inside the range, so nothing wraps there.\<close>

lemma offset_in_range:
  assumes "sized_range r" and "unat off < blocks r"
  shows "lo r + unat off * len r + len r \<le> hi r + 1"
proof -
  have "(unat off + 1) * len r \<le> blocks r * len r"
    using assms(2) by (intro mult_right_mono) simp_all
  also have "\<dots> \<le> hi r - lo r + 1"
    by (simp add: blocks_eq [OF assms(1)] div_times_less_eq_dividend)
  finally have "unat off * len r + len r \<le> hi r - lo r + 1" by (simp add: algebra_simps)
  moreover have "lo r \<le> hi r" using assms(1) by (simp add: sized_range_nat valid_range_nat)
  ultimately show ?thesis by linarith
qed

lemma BlockAt_nat:
  assumes "sized_range r" and "unat off < blocks r"
  obtains b where "BlockAt r off = Some b"
    and "unat (blk_Start b) = lo r + unat off * len r"
    and "unat (blk_End b) = lo r + unat off * len r + len r - 1"
proof -
  let ?s = "blk_Start (rng_block r) + off * rng_size r"
  have bnd: "lo r + unat off * len r + len r \<le> hi r + 1"
    by (rule offset_in_range [OF assms])
  have hi: "hi r < 4294967296" by (rule unat_less_2p32)
  have pos: "0 < len r" using assms(1) by (simp add: sized_range_nat valid_range_nat)
  have "unat off * len r < 4294967296" using bnd hi pos by linarith
  then have m: "unat (off * rng_size r) = unat off * len r"
    by (simp add: unat_word_ariths)
  have s: "unat ?s = lo r + unat off * len r"
    using bnd hi pos by (simp add: unat_word_ariths(1) m)
  have one: "unat (rng_size r - 1) = len r - 1"
    using pos unat_sub_le [of 1 "rng_size r"] by (simp add: word_le_nat_alt)
  have "unat (?s + (rng_size r - 1)) = (unat ?s + unat (rng_size r - 1)) mod 4294967296"
    by (simp add: unat_word_ariths(1))
  also have "\<dots> = lo r + unat off * len r + (len r - 1)"
    unfolding s one using bnd hi pos by simp
  finally have e: "unat (?s + rng_size r - 1) = lo r + unat off * len r + len r - 1"
    using pos by (simp add: add_diff_eq)
  have "\<not> off > Range_Size r" using assms(2) by (simp add: word_less_nat_alt)
  then have "BlockAt r off = Some \<lparr>blk_Start = ?s, blk_End = ?s + rng_size r - 1\<rparr>"
    by (simp add: BlockAt_def Let_def)
  with s e that show thesis by (metis block.select_convs)
qed

text \<open>\<open>Offset\<close> read as natural numbers.\<close>

lemma Range_Offset_nat:
  "Range_Offset r b = Some off \<longleftrightarrow>
     lo r \<le> unat (blk_Start b) \<and> unat (blk_End b) \<le> hi r \<and> Block_Size b = rng_size r \<and>
     (unat (blk_Start b) - lo r) mod len r = 0 \<and> unat off = (unat (blk_Start b) - lo r) div len r"
proof (cases "blk_Start (rng_block r) \<le> blk_Start b")
  case True
  then have d: "unat (blk_Start b - blk_Start (rng_block r)) = unat (blk_Start b) - lo r"
    by (rule unat_sub_le)
  have "(blk_Start b - blk_Start (rng_block r)) mod rng_size r = 0 \<longleftrightarrow>
      (unat (blk_Start b) - lo r) mod len r = 0"
    by (metis d unat_eq_zero unat_mod_distrib)
  moreover have "(blk_Start b - blk_Start (rng_block r)) div rng_size r = off \<longleftrightarrow>
      unat off = (unat (blk_Start b) - lo r) div len r"
    by (metis d unat_div_distrib word_unat_eq_iff)
  ultimately show ?thesis
    using True by (auto simp: Range_Offset_def Block_Size_def word_le_nat_alt word_less_nat_alt)
next
  case False
  then show ?thesis by (auto simp: Range_Offset_def word_le_nat_alt word_less_nat_alt)
qed

lemma Block_Size_BlockAt: "BlockAt r off = Some b \<Longrightarrow> Block_Size b = rng_size r"
  by (auto simp: BlockAt_def Block_Size_def Let_def split: if_splits)

lemma Offset_BlockAt:
  assumes "sized_range r" and "unat off < blocks r"
  shows "\<exists>b. BlockAt r off = Some b \<and> Range_Offset r b = Some off"
proof -
  obtain b where b: "BlockAt r off = Some b"
    and s: "unat (blk_Start b) = lo r + unat off * len r"
    and e: "unat (blk_End b) = lo r + unat off * len r + len r - 1"
    by (rule BlockAt_nat [OF assms])
  have "0 < len r" using assms(1) by (simp add: sized_range_nat valid_range_nat)
  then have "Range_Offset r b = Some off"
    using s e offset_in_range [OF assms] Block_Size_BlockAt [OF b]
    by (simp add: Range_Offset_nat)
  with b show ?thesis by blast
qed

text \<open>A block that does not wrap and that \<open>Offset\<close> accepts is the block at its offset.\<close>

lemma Offset_nowrap:
  assumes r: "sized_range r" and o: "Range_Offset r b = Some off"
    and nw: "blk_Start b \<le> blk_End b"
  shows "unat off < blocks r \<and> BlockAt r off = Some b"
proof -
  let ?d = "unat (blk_Start b) - lo r"
  from o have s: "lo r \<le> unat (blk_Start b)" and e: "unat (blk_End b) \<le> hi r"
    and sz: "Block_Size b = rng_size r" and m: "?d mod len r = 0"
    and off: "unat off = ?d div len r"
    by (simp_all add: Range_Offset_nat)
  have pos: "0 < len r" using r by (simp add: sized_range_nat valid_range_nat)
  have "blk_End b - blk_Start b = rng_size r - 1" using sz by (simp add: Block_Size_def algebra_simps)
  then have "unat (blk_End b) - unat (blk_Start b) = len r - 1"
    using unat_sub_le [OF nw] unat_sub_le [of 1 "rng_size r"] pos by (simp add: word_le_nat_alt)
  with nw pos have eq: "unat (blk_End b) + 1 = unat (blk_Start b) + len r"
    by (simp add: word_le_nat_alt)
  from m have dd: "?d = unat off * len r" using off by (metis div_mod_decomp add.right_neutral)
  with s e eq have "(unat off + 1) * len r \<le> hi r - lo r + 1" by (simp add: algebra_simps)
  then have "(unat off + 1) \<le> (hi r - lo r + 1) div len r"
    using pos by (simp add: less_eq_div_iff_mult_less_eq)
  then have lt: "unat off < blocks r" using blocks_eq [OF r] by simp
  obtain b' where b': "BlockAt r off = Some b'"
    and "unat (blk_Start b') = lo r + unat off * len r"
    and "unat (blk_End b') = lo r + unat off * len r + len r - 1"
    by (rule BlockAt_nat [OF r lt])
  with dd s eq have "unat (blk_Start b') = unat (blk_Start b)" "unat (blk_End b') = unat (blk_End b)"
    by simp_all
  then have "b' = b" by (simp add: word_unat_eq_iff)
  with lt b' show ?thesis by simp
qed

text \<open>
  A block whose end wraps past \<open>2\<^sup>3\<^sup>2\<close> is accepted as well when it is aligned: its offset is then
  at least the number of blocks of the range.
\<close>

lemma Offset_wrap_beyond:
  assumes r: "sized_range r" and o: "Range_Offset r b = Some off"
    and w: "blk_End b < blk_Start b"
  shows "blocks r \<le> unat off"
proof (rule ccontr)
  assume "\<not> blocks r \<le> unat off"
  then have lt: "unat off < blocks r" by simp
  then obtain b' where b': "BlockAt r off = Some b'"
    and s: "unat (blk_Start b') = lo r + unat off * len r"
    and e: "unat (blk_End b') = lo r + unat off * len r + len r - 1"
    by (rule BlockAt_nat [OF r])
  from o have o': "lo r \<le> unat (blk_Start b)" "(unat (blk_Start b) - lo r) mod len r = 0"
    "unat off = (unat (blk_Start b) - lo r) div len r" "Block_Size b = rng_size r"
    by (simp_all add: Range_Offset_nat)
  then have "unat (blk_Start b) - lo r = unat off * len r"
    by (metis div_mod_decomp add.right_neutral)
  with o'(1) s have st: "blk_Start b = blk_Start b'" by (simp add: word_unat_eq_iff)
  moreover have "Block_Size b' = rng_size r" by (rule Block_Size_BlockAt [OF b'])
  ultimately have "blk_End b = blk_End b'" using o'(4)
    unfolding Block_Size_def by (metis add_right_cancel diff_add_cancel)
  moreover have "0 < len r" using r by (simp add: sized_range_nat valid_range_nat)
  ultimately show False using st w s e by (simp add: word_less_nat_alt)
qed

lemma BlockAt_inj:
  assumes "sized_range r" "unat o1 < blocks r" "unat o2 < blocks r"
    and "BlockAt r o1 = BlockAt r o2"
  shows "o1 = o2"
  using Offset_BlockAt [OF assms(1,2)] Offset_BlockAt [OF assms(1,3)] assms(4) by auto


text \<open>The guard of \<open>BlockAt\<close> lets the offset \<open>Size\<close> itself pass, one more than there are blocks.\<close>

lemma BlockAt_at_size: "BlockAt r (Range_Size r) \<noteq> None"
  by (simp add: BlockAt_def Let_def)


section \<open>Printing and parsing\<close>

lemma Sscanf_two:
  assumes "m < 2 ^ 32" "n < 2 ^ 32" "\<not> is_digit c"
  shows "Sscanf 32 [FPctD, FLit c, FPctD] (itoa_nat m @ c # itoa_nat n) = Inr [m, n]"
  using assms scanUint_itoa [of m 32 "c # itoa_nat n"] scanUint_itoa [of n 32 "[]"] by simp

lemma Sscanf_three:
  assumes "l < 2 ^ 32" "m < 2 ^ 32" "n < 2 ^ 32" "\<not> is_digit c" "\<not> is_digit d"
  shows "Sscanf 32 [FPctD, FLit c, FPctD, FLit d, FPctD]
      (itoa_nat l @ c # itoa_nat m @ d # itoa_nat n) = Inr [l, m, n]"
  using assms scanUint_itoa [of l 32 "c # itoa_nat m @ d # itoa_nat n"]
    scanUint_itoa [of m 32 "d # itoa_nat n"] scanUint_itoa [of n 32 "[]"] by simp

lemma ParseBlock_String: "ParseBlock (Block_String b) = Inr b"
proof -
  have "Sscanf 32 [FPctD, FLit CHR ''/'', FPctD] (Block_String b)
      = Inr [unat (blk_Start b), unat (Block_Size b)]"
    using Sscanf_two [of "unat (blk_Start b)" "unat (Block_Size b)" "CHR ''/''"]
    by (simp add: Block_String_def unat_less_2p32)
  moreover have "CHR ''/'' \<in> set (Block_String b)" by (simp add: Block_String_def)
  ultimately show ?thesis by (simp add: ParseBlock_def Block_Size_def)
qed

lemma ParseBlock_RangeString: "ParseBlock (Block_RangeString b) = Inr b"
proof -
  have "Sscanf 32 [FPctD, FLit CHR ''-'', FPctD] (Block_RangeString b)
      = Inr [unat (blk_Start b), unat (blk_End b)]"
    using Sscanf_two [of "unat (blk_Start b)" "unat (blk_End b)" "CHR ''-''"]
    by (simp add: Block_RangeString_def unat_less_2p32)
  moreover have "CHR ''/'' \<notin> set (Block_RangeString b)"
    by (simp add: Block_RangeString_def itoa_nat_no_nondigit)
  ultimately show ?thesis by (simp add: ParseBlock_def)
qed

lemma ParseRange_String: "valid_range r \<Longrightarrow> ParseRange (Range_String r) = Inr r"
  using Sscanf_three [of "lo r" "hi r" "len r" "CHR ''-''" "CHR ''/''"]
  by (simp add: ParseRange_def Range_String_def Block_RangeString_def unat_less_2p32
      NewRange_Inr_iff)

lemma Range_String_inj:
  "valid_range r \<Longrightarrow> valid_range r' \<Longrightarrow> Range_String r = Range_String r' \<Longrightarrow> r = r'"
  by (metis ParseRange_String sum.inject(2))

lemma ParseRange_valid: "ParseRange s = Inr r \<Longrightarrow> valid_range r"
  by (auto simp: ParseRange_def intro: NewRange_valid split: sum.splits list.splits)

end
