(* ===== verification/Bitmap.thy ===== *)
theory Bitmap
  imports Go_Std
begin

text \<open>
  The allocation bitmap of Kubernetes:
  \<open>vendor/k8s.io/kubernetes/pkg/registry/core/service/allocator/bitmap.go\<close> and \<open>utils.go\<close>. The
  \<open>big.Int\<close> that holds one bit per offset is a natural number with its bit operations; a negative
  offset, on which \<open>big.Int.Bit\<close> panics, is an error value. \<open>rand.Intn\<close> is an argument: the drawn
  starting point. The locale \<open>bit_allocator\<close> is the contract of \<open>allocator.Interface\<close> as a client
  sees it (a set of taken offsets below a bound); the bitmap is its interpretation.
\<close>

section \<open>big.Int as bit set: Bit, SetBit, Bytes, SetBytes\<close>

definition SetBit :: "nat \<Rightarrow> nat \<Rightarrow> bool \<Rightarrow> nat" where
  "SetBit x i b = (if b then set_bit i x else unset_bit i x)"

text \<open>\<open>Bytes\<close> is the big-endian representation without leading zero bytes, \<open>SetBytes\<close> reads it.\<close>

fun big_Bytes :: "nat \<Rightarrow> u8 list" where
  "big_Bytes n = (if n = 0 then [] else big_Bytes (n div 256) @ [of_nat (n mod 256)])"

declare big_Bytes.simps [simp del]

definition big_SetBytes :: "u8 list \<Rightarrow> nat" where
  "big_SetBytes bs = foldl (\<lambda>a b. 256 * a + unat b) 0 bs"

lemma big_SetBytes_Bytes [simp]: "big_SetBytes (big_Bytes n) = n"
proof (induction n rule: big_Bytes.induct)
  case (1 n)
  have "unat (of_nat (n mod 256) :: u8) = n mod 256"
    by (simp add: unat_of_nat take_bit_nat_eq_self)
  with 1 show ?case by (subst big_Bytes.simps) (simp add: big_SetBytes_def)
qed

lemma big_Bytes_inj: "big_Bytes m = big_Bytes n \<Longrightarrow> m = n"
  by (metis big_SetBytes_Bytes)

text \<open>The offsets whose bit is set.\<close>

definition bits :: "nat \<Rightarrow> nat set" where
  "bits x = {i. bit x i}"

lemma bits_0 [simp]: "bits 0 = {}"
  by (simp add: bits_def)

lemma bits_SetBit [simp]:
  "bits (SetBit x i b) = (if b then insert i (bits x) else bits x - {i})"
  by (auto simp: bits_def SetBit_def bit_set_bit_iff bit_unset_bit_iff possible_bit_def)

lemma bit_iff_bits: "bit x i \<longleftrightarrow> i \<in> bits x"
  by (simp add: bits_def)

lemma bits_finite [simp]: "finite (bits x)"
proof (rule finite_subset)
  show "bits x \<subseteq> {..<x}"
    by (auto simp: bits_def bit_iff_odd)
      (metis div_less even_zero gr0I less_exp order.strict_trans2 not_less)
qed simp

lemma bits_eq_iff: "bits x = bits y \<longleftrightarrow> x = y"
  by (auto simp: bits_def set_eq_iff intro: bit_eqI)

section \<open>The bitmap\<close>

record bitmap =
  bm_max :: int
  bm_rangeSpec :: string
  bm_count :: int
  bm_allocated :: nat

datatype bitmap_error =
    OffsetOutOfRange int int
  | RangeMismatch
  | PanicNegativeBitIndex
  | PanicIntn

definition NewAllocationMap :: "int \<Rightarrow> string \<Rightarrow> bitmap" where
  "NewAllocationMap mx rangeSpec =
     \<lparr>bm_max = mx, bm_rangeSpec = rangeSpec, bm_count = 0, bm_allocated = 0\<rparr>"

definition bm_Allocate :: "bitmap \<Rightarrow> int \<Rightarrow> (bitmap_error + bool) \<times> bitmap" where
  "bm_Allocate m offset =
     (if offset < 0 \<or> offset \<ge> bm_max m then (Inl (OffsetOutOfRange offset (bm_max m)), m)
      else if bit (bm_allocated m) (nat offset) then (Inr False, m)
      else (Inr True, m\<lparr>bm_allocated := SetBit (bm_allocated m) (nat offset) True,
                        bm_count := bm_count m + 1\<rparr>))"

text \<open>
  \<open>randomScanStrategyWithOffset.AllocateBit\<close> with the offset 0 that \<open>NewAllocationMap\<close> passes: one
  pass over the whole range from the drawn \<open>start\<close>. When that pass finds no clear bit the code
  calls \<open>rand.Intn(0)\<close>, which panics; \<open>AllocateBit_no_panic\<close> shows that a bitmap whose count is
  right never gets there.
\<close>

fun scan_from :: "nat \<Rightarrow> nat \<Rightarrow> nat \<Rightarrow> nat \<Rightarrow> nat \<Rightarrow> nat option" where
  "scan_from allocated mx start i 0 = None"
| "scan_from allocated mx start i (Suc left) =
     (let at = (start + i) mod mx
      in if \<not> bit allocated at then Some at else scan_from allocated mx start (Suc i) left)"

definition AllocateBit :: "nat \<Rightarrow> int \<Rightarrow> int \<Rightarrow> nat \<Rightarrow> bitmap_error + nat option" where
  "AllocateBit allocated mx cnt start =
     (if cnt \<ge> mx then Inr None
      else case scan_from allocated (nat mx) start 0 (nat mx) of
             Some at \<Rightarrow> Inr (Some at)
           | None \<Rightarrow> Inl PanicIntn)"

definition bm_AllocateNext :: "bitmap \<Rightarrow> nat \<Rightarrow> (bitmap_error + nat option) \<times> bitmap" where
  "bm_AllocateNext m start =
     (case AllocateBit (bm_allocated m) (bm_max m) (bm_count m) start of
        Inl e \<Rightarrow> (Inl e, m)
      | Inr None \<Rightarrow> (Inr None, m)
      | Inr (Some next) \<Rightarrow>
          (Inr (Some next), m\<lparr>bm_count := bm_count m + 1,
                              bm_allocated := SetBit (bm_allocated m) next True\<rparr>))"

definition bm_Release :: "bitmap \<Rightarrow> int \<Rightarrow> (bitmap_error + unit) \<times> bitmap" where
  "bm_Release m offset =
     (if offset < 0 then (Inl PanicNegativeBitIndex, m)
      else if \<not> bit (bm_allocated m) (nat offset) then (Inr (), m)
      else (Inr (), m\<lparr>bm_allocated := SetBit (bm_allocated m) (nat offset) False,
                      bm_count := bm_count m - 1\<rparr>))"

definition bm_Has :: "bitmap \<Rightarrow> int \<Rightarrow> bitmap_error + bool" where
  "bm_Has m offset =
     (if offset < 0 then Inl PanicNegativeBitIndex else Inr (bit (bm_allocated m) (nat offset)))"

definition bm_Free :: "bitmap \<Rightarrow> int" where
  "bm_Free m = bm_max m - bm_count m"

definition bm_Snapshot :: "bitmap \<Rightarrow> string \<times> u8 list" where
  "bm_Snapshot m = (bm_rangeSpec m, big_Bytes (bm_allocated m))"

text \<open>\<open>countBits\<close> of \<open>utils.go\<close>: the number of bits set.\<close>

fun countBits :: "nat \<Rightarrow> int" where
  "countBits n = (if n = 0 then 0 else int (n mod 2) + countBits (n div 2))"

declare countBits.simps [simp del]

definition bm_Restore :: "bitmap \<Rightarrow> string \<Rightarrow> u8 list \<Rightarrow> (bitmap_error + unit) \<times> bitmap" where
  "bm_Restore m rangeSpec data =
     (if bm_rangeSpec m \<noteq> rangeSpec then (Inl RangeMismatch, m)
      else (Inr (), m\<lparr>bm_allocated := big_SetBytes data,
                      bm_count := countBits (big_SetBytes data)\<rparr>))"

section \<open>Invariant\<close>

text \<open>
  The count is the number of bits set, and only offsets of the range are taken. \<open>bm_Allocate\<close> and
  \<open>bm_AllocateNext\<close> keep it, \<open>bm_Release\<close> keeps it, \<open>bm_Restore\<close> establishes the first half.
\<close>

definition bm_inv :: "bitmap \<Rightarrow> bool" where
  "bm_inv m \<longleftrightarrow> 0 \<le> bm_max m \<and> bits (bm_allocated m) \<subseteq> {..<nat (bm_max m)} \<and>
     bm_count m = int (card (bits (bm_allocated m)))"

lemma bm_inv_New: "0 \<le> mx \<Longrightarrow> bm_inv (NewAllocationMap mx spec)"
  by (simp add: bm_inv_def NewAllocationMap_def)

lemma bm_inv_Allocate: "bm_inv m \<Longrightarrow> bm_inv (snd (bm_Allocate m off))"
  by (auto simp: bm_inv_def bm_Allocate_def bit_iff_bits)

lemma bm_Allocate_result:
  assumes "bm_Allocate m off = (r, m')"
  shows "r = (if off < 0 \<or> bm_max m \<le> off then Inl (OffsetOutOfRange off (bm_max m))
              else Inr (nat off \<notin> bits (bm_allocated m)))"
    and "bits (bm_allocated m') =
      (if r = Inr True then insert (nat off) (bits (bm_allocated m)) else bits (bm_allocated m))"
    and "bm_max m' = bm_max m" and "bm_rangeSpec m' = bm_rangeSpec m"
  using assms by (auto simp: bm_Allocate_def bit_iff_bits split: if_splits)

lemma scan_from_Some:
  "scan_from a mx start i n = Some j \<Longrightarrow> 0 < mx \<Longrightarrow> j < mx \<and> j \<notin> bits a"
  by (induction n arbitrary: i) (auto simp: Let_def bit_iff_bits split: if_splits)

lemma scan_from_None:
  "scan_from a mx start i n = None \<Longrightarrow> k < n \<Longrightarrow> (start + i + k) mod mx \<in> bits a"
proof (induction n arbitrary: i k)
  case (Suc n)
  then have here: "(start + i) mod mx \<in> bits a" and rest: "scan_from a mx start (Suc i) n = None"
    by (auto simp: Let_def bit_iff_bits split: if_splits)
  show ?case
  proof (cases k)
    case (Suc k')
    then show ?thesis using Suc.IH [OF rest, of k'] Suc.prems(2) by simp
  qed (simp add: here)
qed simp

lemma scan_full:
  assumes "scan_from a mx start 0 mx = None" and "j < mx"
  shows "j \<in> bits a"
proof -
  let ?k = "(j + (mx - start mod mx)) mod mx"
  have k: "?k < mx" using assms(2) by simp
  have le: "start mod mx \<le> mx" using assms(2) by simp
  have "(start + ?k) mod mx = (start mod mx + (j + (mx - start mod mx))) mod mx"
    by (metis mod_add_eq mod_add_left_eq mod_add_right_eq)
  also have "\<dots> = (j + mx) mod mx" using le by (simp add: algebra_simps)
  also have "\<dots> = j" using assms(2) by simp
  finally show ?thesis using scan_from_None [OF assms(1) k] by simp
qed

lemma AllocateBit_no_panic:
  assumes "bm_inv m"
  shows "AllocateBit (bm_allocated m) (bm_max m) (bm_count m) start \<noteq> Inl e"
proof
  assume "AllocateBit (bm_allocated m) (bm_max m) (bm_count m) start = Inl e"
  then have lt: "bm_count m < bm_max m"
    and none: "scan_from (bm_allocated m) (nat (bm_max m)) start 0 (nat (bm_max m)) = None"
    by (auto simp: AllocateBit_def split: if_splits option.splits)
  from scan_full [OF none] have "{..<nat (bm_max m)} \<subseteq> bits (bm_allocated m)" by auto
  from card_mono [OF bits_finite this] have "nat (bm_max m) \<le> card (bits (bm_allocated m))"
    by simp
  with lt assms show False by (simp add: bm_inv_def)
qed

text \<open>\<open>AllocateNext\<close> on a sound bitmap: a free offset when there is one, and "full" otherwise.\<close>

lemma bm_AllocateNext_result:
  assumes inv: "bm_inv m" and res: "bm_AllocateNext m start = (r, m')"
  shows "(\<exists>j. r = Inr (Some j) \<and> int j < bm_max m \<and> j \<notin> bits (bm_allocated m) \<and>
            bits (bm_allocated m') = insert j (bits (bm_allocated m)) \<and> bm_inv m') \<or>
         (r = Inr None \<and> m' = m \<and> bits (bm_allocated m) = {..<nat (bm_max m)})"
proof (cases "bm_count m \<ge> bm_max m")
  case True
  have sub: "bits (bm_allocated m) \<subseteq> {..<nat (bm_max m)}" using inv by (simp add: bm_inv_def)
  from card_mono [OF _ sub] have "card (bits (bm_allocated m)) \<le> nat (bm_max m)" by simp
  with inv True have "card (bits (bm_allocated m)) = card {..<nat (bm_max m)}"
    by (simp add: bm_inv_def)
  then have "bits (bm_allocated m) = {..<nat (bm_max m)}"
    by (intro card_subset_eq [OF _ sub]) simp_all
  with True res show ?thesis by (simp add: bm_AllocateNext_def AllocateBit_def)
next
  case False
  then have pos: "0 < nat (bm_max m)" using inv by (simp add: bm_inv_def)
  obtain j where j: "scan_from (bm_allocated m) (nat (bm_max m)) start 0 (nat (bm_max m)) = Some j"
    using AllocateBit_no_panic [OF inv, of start PanicIntn] False
    by (auto simp: AllocateBit_def split: option.splits)
  from scan_from_Some [OF j pos] have "j < nat (bm_max m)" "j \<notin> bits (bm_allocated m)" by auto
  with False j res inv show ?thesis
    by (auto simp: bm_AllocateNext_def AllocateBit_def bm_inv_def)
qed

lemma card_remove_bit: "i \<in> bits x \<Longrightarrow> int (card (bits x - {i})) = int (card (bits x)) - 1"
  using card_Suc_Diff1 [of "bits x" i] by simp

lemma bm_inv_Release: "bm_inv m \<Longrightarrow> bm_inv (snd (bm_Release m off))"
  by (auto simp: bm_inv_def bm_Release_def bit_iff_bits card_remove_bit simp del: card_Diff_insert)

lemma bits_double:
  "bits n = (if odd n then {0} else {}) \<union> Suc ` bits (n div 2)"
proof (rule set_eqI)
  fix i
  show "i \<in> bits n \<longleftrightarrow> i \<in> (if odd n then {0} else {}) \<union> Suc ` bits (n div 2)"
    by (cases i) (auto simp: bits_def bit_0 bit_Suc)
qed

lemma countBits_card: "countBits n = int (card (bits n))"
proof (induction n rule: countBits.induct)
  case (1 n)
  show ?case
  proof (cases "n = 0")
    case True
    then show ?thesis by (simp add: countBits.simps)
  next
    case False
    have c: "card (Suc ` bits (n div 2)) = card (bits (n div 2))" by (simp add: card_image)
    have "card (bits n) = n mod 2 + card (bits (n div 2))"
      by (subst bits_double) (simp add: c card_insert_if image_iff odd_iff_mod_2_eq_one)
    with False 1 show ?thesis by (subst countBits.simps) simp
  qed
qed

section \<open>The allocator interface\<close>

text \<open>
  What a client of \<open>allocator.Interface\<close> relies on: the offsets taken form a set below a bound,
  \<open>Allocate\<close> takes exactly the requested free offset, \<open>Release\<close> gives exactly the requested one back.
\<close>

locale bit_allocator =
  fixes invar :: "'a \<Rightarrow> bool"
    and taken :: "'a \<Rightarrow> nat set"
    and bound :: "'a \<Rightarrow> nat"
    and allocate :: "'a \<Rightarrow> int \<Rightarrow> ('e + bool) \<times> 'a"
    and release :: "'a \<Rightarrow> int \<Rightarrow> ('e + unit) \<times> 'a"
    and has :: "'a \<Rightarrow> int \<Rightarrow> 'e + bool"
  assumes taken_bound: "invar a \<Longrightarrow> taken a \<subseteq> {..<bound a}"
    and allocate_in: "invar a \<Longrightarrow> n < bound a \<Longrightarrow> allocate a (int n) = (r, a') \<Longrightarrow>
      r = Inr (n \<notin> taken a) \<and> taken a' = insert n (taken a) \<and> bound a' = bound a \<and> invar a'"
    and allocate_out: "invar a \<Longrightarrow> bound a \<le> n \<Longrightarrow> \<exists>e. allocate a (int n) = (Inl e, a)"
    and release_nat: "invar a \<Longrightarrow> release a (int n) = (u, a') \<Longrightarrow>
      u = Inr () \<and> taken a' = taken a - {n} \<and> bound a' = bound a \<and> invar a'"
    and has_nat: "invar a \<Longrightarrow> has a (int n) = Inr (n \<in> taken a)"
begin

text \<open>Taking a list of offsets one after the other, ignoring the ones already taken.\<close>

fun allocate_all :: "'a \<Rightarrow> nat list \<Rightarrow> 'a" where
  "allocate_all a [] = a"
| "allocate_all a (n # ns) = allocate_all (snd (allocate a (int n))) ns"

lemma allocate_all_taken:
  "invar a \<Longrightarrow> set ns \<subseteq> {..<bound a} \<Longrightarrow>
   taken (allocate_all a ns) = taken a \<union> set ns \<and> invar (allocate_all a ns) \<and>
   bound (allocate_all a ns) = bound a"
proof (induction ns arbitrary: a)
  case (Cons n ns)
  obtain r a' where "allocate a (int n) = (r, a')" by fastforce
  with allocate_in [of a n r a'] Cons show ?case by auto
qed simp

text \<open>An offset that was released can be allocated again, and only then.\<close>

lemma release_allocate:
  assumes "invar a" "n < bound a"
  shows "fst (allocate (snd (release a (int n))) (int n)) = Inr True"
proof -
  obtain r a' where a': "release a (int n) = (r, a')" by fastforce
  obtain r2 a2 where "allocate a' (int n) = (r2, a2)" by fastforce
  with release_nat [OF assms(1) a'] assms a' allocate_in [of a' n r2 a2] show ?thesis by auto
qed

lemma allocate_twice:
  assumes "invar a" "n < bound a"
  shows "fst (allocate (snd (allocate a (int n))) (int n)) = Inr False"
proof -
  obtain r a' where a': "allocate a (int n) = (r, a')" by fastforce
  obtain r2 a2 where "allocate a' (int n) = (r2, a2)" by fastforce
  with allocate_in [OF assms a'] assms(2) a' allocate_in [of a' n r2 a2] show ?thesis by auto
qed

end

abbreviation bm_taken :: "bitmap \<Rightarrow> nat set" where
  "bm_taken m \<equiv> bits (bm_allocated m)"

abbreviation bm_bound :: "bitmap \<Rightarrow> nat" where
  "bm_bound m \<equiv> nat (bm_max m)"

interpretation bma: bit_allocator bm_inv bm_taken bm_bound bm_Allocate bm_Release bm_Has
proof
  show "bm_inv a \<Longrightarrow> bm_taken a \<subseteq> {..<bm_bound a}" for a by (simp add: bm_inv_def)
next
  fix a n r a' assume "bm_inv a" "n < bm_bound a" "bm_Allocate a (int n) = (r, a')"
  then show "r = Inr (n \<notin> bm_taken a) \<and> bm_taken a' = insert n (bm_taken a) \<and>
      bm_bound a' = bm_bound a \<and> bm_inv a'"
    using bm_Allocate_result [of a "int n" r a'] bm_inv_Allocate [of a "int n"] by auto
next
  show "bm_inv a \<Longrightarrow> bm_bound a \<le> n \<Longrightarrow> \<exists>e. bm_Allocate a (int n) = (Inl e, a)" for a n
    by (simp add: bm_Allocate_def)
next
  fix a n r a' assume "bm_inv a" "bm_Release a (int n) = (r, a')"
  then show "r = Inr () \<and> bm_taken a' = bm_taken a - {n} \<and> bm_bound a' = bm_bound a \<and> bm_inv a'"
    using bm_inv_Release [of a "int n"] by (auto simp: bm_Release_def bit_iff_bits split: if_splits)
next
  show "bm_inv a \<Longrightarrow> bm_Has a (int n) = Inr (n \<in> bm_taken a)" for a n
    by (simp add: bm_Has_def bit_iff_bits)
qed

end
