(* ===== verification/Uid_Allocator.thy ===== *)
theory Uid_Allocator
  imports Uid Bitmap
begin

text \<open>
  The UID block allocator: \<open>src/pkg/security/uidallocator/allocator.go\<close>. It glues a UID range
  (theory \<open>Uid\<close>) to an allocation bitmap (theory \<open>Bitmap\<close>, through its interface \<open>bit_allocator\<close>).
  The abstract view of an allocator is the set of blocks it has handed out (\<open>pool\<close>); the lemmas
  show that every operation acts on that set as its comment promises, for every block that is a
  proper interval, and what happens for the blocks whose end wraps around.
\<close>

section \<open>Data and operations\<close>

record allocator =
  al_r :: uid_range
  al_alloc :: bitmap

datatype alloc_error =
    ErrFull
  | ErrNotInRange
  | ErrAllocated
  | ErrMismatchedRange
  | BitmapErr bitmap_error

definition New :: "uid_range \<Rightarrow> (int \<Rightarrow> string \<Rightarrow> 'e + bitmap) \<Rightarrow> 'e + allocator" where
  "New r factory =
     bind_res (factory (int (unat (Range_Size r))) (Range_String r)) (\<lambda>alloc.
       Inr \<lparr>al_r = r, al_alloc = alloc\<rparr>)"

definition NewInMemory :: "uid_range \<Rightarrow> 'e + allocator" where
  "NewInMemory r = New r (\<lambda>mx rangeSpec. Inr (NewAllocationMap mx rangeSpec))"

definition Free :: "allocator \<Rightarrow> int" where
  "Free a = bm_Free (al_alloc a)"

definition contains :: "allocator \<Rightarrow> block \<Rightarrow> u32 option" where
  "contains a b = Range_Offset (al_r a) b"

text \<open>The returned \<open>error\<close> (\<open>None\<close> for \<open>nil\<close>) and the updated allocator.\<close>

definition Allocate :: "allocator \<Rightarrow> block \<Rightarrow> alloc_error option \<times> allocator" where
  "Allocate a b =
     (case contains a b of
        None \<Rightarrow> (Some ErrNotInRange, a)
      | Some offset \<Rightarrow>
          (case bm_Allocate (al_alloc a) (int (unat offset)) of
             (Inl e, m) \<Rightarrow> (Some (BitmapErr e), a\<lparr>al_alloc := m\<rparr>)
           | (Inr False, m) \<Rightarrow> (Some ErrAllocated, a\<lparr>al_alloc := m\<rparr>)
           | (Inr True, m) \<Rightarrow> (None, a\<lparr>al_alloc := m\<rparr>)))"

definition AllocateNext :: "allocator \<Rightarrow> nat \<Rightarrow> (alloc_error + block) \<times> allocator" where
  "AllocateNext a start =
     (case bm_AllocateNext (al_alloc a) start of
        (Inl e, m) \<Rightarrow> (Inl (BitmapErr e), a\<lparr>al_alloc := m\<rparr>)
      | (Inr None, m) \<Rightarrow> (Inl ErrFull, a\<lparr>al_alloc := m\<rparr>)
      | (Inr (Some offset), m) \<Rightarrow>
          (case BlockAt (al_r a) (of_nat offset) of
             None \<Rightarrow> (Inl ErrNotInRange, a\<lparr>al_alloc := m\<rparr>)
           | Some b \<Rightarrow> (Inr b, a\<lparr>al_alloc := m\<rparr>)))"

definition Release :: "allocator \<Rightarrow> block \<Rightarrow> alloc_error option \<times> allocator" where
  "Release a b =
     (case contains a b of
        None \<Rightarrow> (None, a)
      | Some offset \<Rightarrow>
          (case bm_Release (al_alloc a) (int (unat offset)) of
             (Inl e, m) \<Rightarrow> (Some (BitmapErr e), a\<lparr>al_alloc := m\<rparr>)
           | (Inr _, m) \<Rightarrow> (None, a\<lparr>al_alloc := m\<rparr>)))"

definition Has :: "allocator \<Rightarrow> block \<Rightarrow> alloc_error + bool" where
  "Has a b =
     (case contains a b of
        None \<Rightarrow> Inr False
      | Some offset \<Rightarrow>
          (case bm_Has (al_alloc a) (int (unat offset)) of
             Inl e \<Rightarrow> Inl (BitmapErr e)
           | Inr h \<Rightarrow> Inr h))"

text \<open>The two fields of \<open>api.RangeAllocation\<close> that \<open>Snapshot\<close> writes.\<close>

definition Snapshot :: "allocator \<Rightarrow> string \<times> u8 list" where
  "Snapshot a = bm_Snapshot (al_alloc a)"

definition Restore :: "allocator \<Rightarrow> uid_range \<Rightarrow> u8 list \<Rightarrow> alloc_error option \<times> allocator" where
  "Restore a into data =
     (if Range_String into \<noteq> Range_String (al_r a) then (Some ErrMismatchedRange, a)
      else (case bm_Restore (al_alloc a) (Range_String into) data of
              (Inl e, m) \<Rightarrow> (Some (BitmapErr e), a\<lparr>al_alloc := m\<rparr>)
            | (Inr _, m) \<Rightarrow> (None, a\<lparr>al_alloc := m\<rparr>)))"

section \<open>Invariant and abstract view\<close>

definition alloc_ok :: "allocator \<Rightarrow> bool" where
  "alloc_ok a \<longleftrightarrow> sized_range (al_r a) \<and> bm_inv (al_alloc a) \<and>
     bm_max (al_alloc a) = int (blocks (al_r a)) \<and> bm_rangeSpec (al_alloc a) = Range_String (al_r a)"

definition in_range :: "uid_range \<Rightarrow> block set" where
  "in_range r = {b. \<exists>n < blocks r. BlockAt r (of_nat n) = Some b}"

definition pool :: "allocator \<Rightarrow> block set" where
  "pool a = {b. \<exists>n \<in> bm_taken (al_alloc a). BlockAt (al_r a) (of_nat n) = Some b}"

abbreviation wraps :: "block \<Rightarrow> bool" where
  "wraps b \<equiv> blk_End b < blk_Start b"

lemma unat_of_nat_blocks: "n < blocks r \<Longrightarrow> unat (of_nat n :: u32) = n"
  using unat_less_2p32 [of "Range_Size r"] by (intro unat_of_nat_u32) simp

lemma NewInMemory_ok:
  assumes "sized_range r"
  obtains a where "(NewInMemory r :: 'e + allocator) = Inr a" "alloc_ok a" "pool a = {}" "al_r a = r"
proof
  show "(NewInMemory r :: 'e + allocator) = Inr \<lparr>al_r = r,
      al_alloc = NewAllocationMap (int (blocks r)) (Range_String r)\<rparr>"
    by (simp add: NewInMemory_def New_def)
qed (use assms bm_inv_New in \<open>auto simp: alloc_ok_def pool_def NewAllocationMap_def\<close>)

lemma alloc_ok_bound: "alloc_ok a \<Longrightarrow> bm_bound (al_alloc a) = blocks (al_r a)"
  by (simp add: alloc_ok_def)

lemma alloc_ok_taken: "alloc_ok a \<Longrightarrow> n \<in> bm_taken (al_alloc a) \<Longrightarrow> n < blocks (al_r a)"
  using bma.taken_bound [of "al_alloc a"] by (auto simp: alloc_ok_def)

lemma in_range_Offset:
  assumes "sized_range r" "\<not> wraps b"
  shows "b \<in> in_range r \<longleftrightarrow> Range_Offset r b \<noteq> None"
proof
  assume "b \<in> in_range r"
  then obtain n where "n < blocks r" "BlockAt r (of_nat n) = Some b" by (auto simp: in_range_def)
  with Offset_BlockAt [OF assms(1), of "of_nat n"] show "Range_Offset r b \<noteq> None"
    by (auto simp: unat_of_nat_blocks)
next
  assume "Range_Offset r b \<noteq> None"
  then obtain off where "Range_Offset r b = Some off" by blast
  with Offset_nowrap [OF assms(1) this] assms(2)
  have "unat off < blocks r" "BlockAt r off = Some b" by (auto simp: not_less)
  then show "b \<in> in_range r" by (auto simp: in_range_def intro!: exI [of _ "unat off"])
qed

lemma in_range_not_wraps: "sized_range r \<Longrightarrow> b \<in> in_range r \<Longrightarrow> \<not> wraps b"
proof
  assume r: "sized_range r" and "b \<in> in_range r" "wraps b"
  then obtain n where n: "n < blocks r" "BlockAt r (of_nat n) = Some b" by (auto simp: in_range_def)
  then have "Range_Offset r b = Some (of_nat n)"
    using Offset_BlockAt [OF r, of "of_nat n"] by (auto simp: unat_of_nat_blocks)
  from Offset_wrap_beyond [OF r this \<open>wraps b\<close>] n show False by (simp add: unat_of_nat_blocks)
qed

lemma pool_iff:
  assumes "alloc_ok a" "Range_Offset (al_r a) b = Some off" "\<not> wraps b"
  shows "b \<in> pool a \<longleftrightarrow> unat off \<in> bm_taken (al_alloc a)"
proof
  have r: "sized_range (al_r a)" using assms(1) by (simp add: alloc_ok_def)
  have off: "unat off < blocks (al_r a)" "BlockAt (al_r a) off = Some b"
    using Offset_nowrap [OF r assms(2)] assms(3) by (auto simp: not_less)
  show "b \<in> pool a" if "unat off \<in> bm_taken (al_alloc a)"
    using that off by (auto simp: pool_def intro!: bexI [of _ "unat off"])
  assume "b \<in> pool a"
  then obtain n where n: "n \<in> bm_taken (al_alloc a)" "BlockAt (al_r a) (of_nat n) = Some b"
    by (auto simp: pool_def)
  have "n < blocks (al_r a)" by (rule alloc_ok_taken [OF assms(1) n(1)])
  with BlockAt_inj [OF r _ off(1), of "of_nat n"] n off(2) have "off = of_nat n"
    by (simp add: unat_of_nat_blocks)
  with n(1) \<open>n < blocks (al_r a)\<close> show "unat off \<in> bm_taken (al_alloc a)"
    by (simp add: unat_of_nat_blocks)
qed

lemma pool_insert:
  assumes "alloc_ok a" "BlockAt (al_r a) (of_nat n) = Some b"
    and "bm_taken m = insert n (bm_taken (al_alloc a))"
  shows "pool (a\<lparr>al_alloc := m\<rparr>) = insert b (pool a)"
  using assms by (auto simp: pool_def)

lemma pool_subset: "alloc_ok a \<Longrightarrow> pool a \<subseteq> in_range (al_r a)"
  using alloc_ok_taken by (fastforce simp: pool_def in_range_def)

lemma alloc_ok_update:
  "alloc_ok a \<Longrightarrow> bm_inv m \<Longrightarrow> bm_max m = bm_max (al_alloc a) \<Longrightarrow>
   bm_rangeSpec m = bm_rangeSpec (al_alloc a) \<Longrightarrow> alloc_ok (a\<lparr>al_alloc := m\<rparr>)"
  by (simp add: alloc_ok_def)

section \<open>Correctness\<close>

text \<open>\<open>Allocate\<close> on a block that does not wrap reserves exactly the requested block: it fails with
  \<open>ErrNotInRange\<close> when the block is not one of the aligned blocks of the range, with
  \<open>ErrAllocated\<close> when it is reserved already, and otherwise adds it to the reserved blocks; in
  every case the allocator stays well-formed.\<close>

lemma Allocate_spec:
  assumes "alloc_ok a" and "\<not> wraps b" and "Allocate a b = (e, a')"
  shows "alloc_ok a' \<and>
    (e, pool a') =
      (if b \<notin> in_range (al_r a) then (Some ErrNotInRange, pool a)
       else if b \<in> pool a then (Some ErrAllocated, pool a)
       else (None, insert b (pool a)))"
proof (cases "Range_Offset (al_r a) b")
  case None
  have r: "sized_range (al_r a)" using assms(1) by (simp add: alloc_ok_def)
  have "b \<notin> in_range (al_r a)" using None in_range_Offset [OF r assms(2)] by simp
  with None assms show ?thesis by (simp add: Allocate_def contains_def)
next
  case (Some off)
  have r: "sized_range (al_r a)" using assms(1) by (simp add: alloc_ok_def)
  have inv: "bm_inv (al_alloc a)" using assms(1) by (simp add: alloc_ok_def)
  have inr: "b \<in> in_range (al_r a)" using Some in_range_Offset [OF r assms(2)] by simp
  have off: "unat off < blocks (al_r a)" "BlockAt (al_r a) off = Some b"
    using Offset_nowrap [OF r Some] assms(2) by (auto simp: not_less)
  obtain res m where m: "bm_Allocate (al_alloc a) (int (unat off)) = (res, m)" by fastforce
  have res: "res = Inr (unat off \<notin> bm_taken (al_alloc a))" "bm_inv m"
    "bm_taken m = insert (unat off) (bm_taken (al_alloc a))"
    using bma.allocate_in [OF inv _ m] off(1) alloc_ok_bound [OF assms(1)] by auto
  have a': "a' = a\<lparr>al_alloc := m\<rparr>" and e: "e = (if b \<in> pool a then Some ErrAllocated else None)"
    using assms(3) Some m res(1) pool_iff [OF assms(1) Some assms(2)]
    by (auto simp: Allocate_def contains_def split: bool.splits)
  have ok: "alloc_ok a'"
    unfolding a' using assms(1) res(2) bm_Allocate_result [OF m] by (intro alloc_ok_update) auto
  have "pool a' = insert b (pool a)"
    unfolding a' by (rule pool_insert [OF assms(1) _ res(3)]) (simp add: off)
  with ok e inr show ?thesis by auto
qed

text \<open>\<open>AllocateNext\<close>, wherever its random scan starts, either reserves one block of the range that
  was not reserved before and returns it, or returns \<open>ErrFull\<close>, and the latter exactly when every
  block of the range is reserved.\<close>

lemma AllocateNext_spec:
  assumes "alloc_ok a" and "AllocateNext a start = (res, a')"
  shows "alloc_ok a' \<and>
    (if pool a = in_range (al_r a) then res = Inl ErrFull \<and> a' = a
     else \<exists>b. res = Inr b \<and> b \<in> in_range (al_r a) - pool a \<and> pool a' = insert b (pool a))"
proof -
  let ?r = "al_r a"
  have r: "sized_range ?r" and inv: "bm_inv (al_alloc a)" using assms(1) by (auto simp: alloc_ok_def)
  obtain x m where m: "bm_AllocateNext (al_alloc a) start = (x, m)" by fastforce
  have frame: "bm_max m = bm_max (al_alloc a)" "bm_rangeSpec m = bm_rangeSpec (al_alloc a)"
    using m by (auto simp: bm_AllocateNext_def split: sum.splits option.splits)
  from bm_AllocateNext_result [OF inv m] show ?thesis
  proof (elim disjE exE conjE)
    fix j
    assume j: "x = Inr (Some j)" "int j < bm_max (al_alloc a)" "j \<notin> bm_taken (al_alloc a)"
      "bm_taken m = insert j (bm_taken (al_alloc a))" "bm_inv m"
    then have lt: "j < blocks ?r" using assms(1) by (simp add: alloc_ok_def)
    with Offset_BlockAt [OF r, of "of_nat j"] obtain b
      where b: "BlockAt ?r (of_nat j) = Some b" "Range_Offset ?r b = Some (of_nat j)"
      by (auto simp: unat_of_nat_blocks)
    have inr: "b \<in> in_range ?r" using lt b by (auto simp: in_range_def)
    have new: "b \<notin> pool a"
      using pool_iff [OF assms(1) b(2) in_range_not_wraps [OF r inr]] j(3) lt
      by (simp add: unat_of_nat_blocks)
    have "res = Inr b" "a' = a\<lparr>al_alloc := m\<rparr>"
      using assms(2) m j(1) b(1) by (simp_all add: AllocateNext_def)
    with inr new j pool_insert [OF assms(1) b(1) j(4)] alloc_ok_update [OF assms(1) j(5) frame]
    show ?thesis by auto
  next
    assume full: "x = Inr None" "m = al_alloc a" "bm_taken (al_alloc a) = {..<bm_bound (al_alloc a)}"
    then have "pool a = in_range ?r"
      using alloc_ok_bound [OF assms(1)] by (auto simp: pool_def in_range_def)
    with full assms m show ?thesis by (simp add: AllocateNext_def)
  qed
qed

lemma pool_remove:
  assumes ok: "alloc_ok a" and ok': "alloc_ok (a\<lparr>al_alloc := m\<rparr>)"
    and off: "Range_Offset (al_r a) b = Some off" and nw: "\<not> wraps b"
    and m: "bm_taken m = bm_taken (al_alloc a) - {unat off}"
  shows "pool (a\<lparr>al_alloc := m\<rparr>) = pool a - {b}"
proof (rule set_eqI)
  fix b'
  have r: "sized_range (al_r a)" using ok by (simp add: alloc_ok_def)
  show "b' \<in> pool (a\<lparr>al_alloc := m\<rparr>) \<longleftrightarrow> b' \<in> pool a - {b}"
  proof (cases "b' \<in> in_range (al_r a)")
    case True
    then obtain off' where o': "Range_Offset (al_r a) b' = Some off'" "\<not> wraps b'"
      using in_range_not_wraps [OF r True] in_range_Offset [OF r] by blast
    have "b' \<in> pool (a\<lparr>al_alloc := m\<rparr>) \<longleftrightarrow> unat off' \<in> bm_taken m"
      using pool_iff [OF ok', of b' off'] o' by simp
    moreover have "b' \<in> pool a \<longleftrightarrow> unat off' \<in> bm_taken (al_alloc a)"
      by (rule pool_iff [OF ok o'])
    moreover have "BlockAt (al_r a) off = Some b" "BlockAt (al_r a) off' = Some b'"
      using Offset_nowrap [OF r off] Offset_nowrap [OF r o'(1)] o'(2) nw by (simp_all add: not_less)
    then have "unat off' = unat off \<longleftrightarrow> b' = b"
      using off o'(1) by (metis option.inject word_unat_eq_iff)
    ultimately show ?thesis using m by simp
  next
    case False
    then show ?thesis using pool_subset [OF ok'] pool_subset [OF ok] by auto
  qed
qed

text \<open>\<open>Release\<close> of a block that does not wrap never fails and gives exactly that block back:
  the reserved blocks are the previous ones without it, which is a no-op for a block that was not
  reserved or is not in the range; and \<open>Has\<close> answers whether a block is reserved.\<close>

lemma Release_Has_spec:
  assumes "alloc_ok a" and "\<not> wraps b"
  shows "(\<exists>a'. Release a b = (None, a') \<and> alloc_ok a' \<and> pool a' = pool a - {b}) \<and>
    Has a b = Inr (b \<in> pool a)"
proof (cases "Range_Offset (al_r a) b")
  case None
  have r: "sized_range (al_r a)" using assms(1) by (auto simp: alloc_ok_def)
  have "b \<notin> pool a" using None in_range_Offset [OF r assms(2)] pool_subset [OF assms(1)] by auto
  with None assms(1) show ?thesis by (simp add: Release_def Has_def contains_def)
next
  case (Some off)
  have inv: "bm_inv (al_alloc a)" using assms(1) by (auto simp: alloc_ok_def)
  obtain u m where m: "bm_Release (al_alloc a) (int (unat off)) = (u, m)" by fastforce
  have u: "u = Inr ()" "bm_taken m = bm_taken (al_alloc a) - {unat off}" "bm_inv m"
    using bma.release_nat [OF inv m] by auto
  have ok: "alloc_ok (a\<lparr>al_alloc := m\<rparr>)"
    using assms(1) u(3) m by (intro alloc_ok_update) (auto simp: bm_Release_def split: if_splits)
  from pool_remove [OF assms(1) ok Some assms(2) u(2)] ok show ?thesis
    using Some m u(1) pool_iff [OF assms(1) Some assms(2)] bma.has_nat [OF inv]
    by (simp add: Release_def Has_def contains_def)
qed

text \<open>A snapshot restores: restoring the data of a snapshot into any allocator over the same range
  succeeds and gives an allocator with exactly the reserved blocks and the free count of the one
  that was saved, whatever the target held before.\<close>

lemma Snapshot_Restore:
  assumes "alloc_ok a" and "alloc_ok t" and "al_r t = al_r a"
  shows "\<exists>t'. Restore t (al_r a) (snd (Snapshot a)) = (None, t') \<and> alloc_ok t' \<and>
    pool t' = pool a \<and> Free t' = Free a \<and> Snapshot t' = Snapshot a"
proof -
  let ?m = "(al_alloc t)\<lparr>bm_allocated := bm_allocated (al_alloc a),
      bm_count := countBits (bm_allocated (al_alloc a))\<rparr>"
  have "Restore t (al_r a) (snd (Snapshot a)) = (None, t\<lparr>al_alloc := ?m\<rparr>)"
    using assms by (simp add: Restore_def Snapshot_def bm_Snapshot_def bm_Restore_def alloc_ok_def)
  moreover have "bm_inv ?m"
    using assms by (auto simp: alloc_ok_def bm_inv_def countBits_card)
  ultimately show ?thesis
    using assms by (auto simp: alloc_ok_def pool_def Free_def bm_Free_def Snapshot_def
        bm_Snapshot_def bm_inv_def countBits_card)
qed

text \<open>A block that ends past \<open>2\<^sup>3\<^sup>2\<close> and whose wrapped end is below the end of the range passes the
  range check, because the check compares the wrapped end: \<open>Allocate\<close> then answers with the
  bitmap's own error and neither with \<open>ErrNotInRange\<close> nor with \<open>ErrAllocated\<close>.\<close>

lemma Allocate_wrap:
  assumes "alloc_ok a" and "wraps b" and "Range_Offset (al_r a) b = Some off"
  shows "Allocate a b =
    (Some (BitmapErr (OffsetOutOfRange (int (unat off)) (int (blocks (al_r a))))), a)"
proof -
  have r: "sized_range (al_r a)" using assms(1) by (simp add: alloc_ok_def)
  have "blocks (al_r a) \<le> unat off" by (rule Offset_wrap_beyond [OF r assms(3,2)])
  with assms show ?thesis
    by (simp add: Allocate_def contains_def bm_Allocate_def alloc_ok_def)
qed

text \<open>The only blocks for which \<open>Allocate\<close> answers anything but the three documented ways are those.\<close>

lemma Allocate_errors:
  assumes "alloc_ok a" and "\<not> (wraps b \<and> Range_Offset (al_r a) b \<noteq> None)"
  obtains e a' where "Allocate a b = (e, a')" "alloc_ok a'" "al_r a' = al_r a"
    "e = None \<or> e = Some ErrNotInRange \<or> e = Some ErrAllocated"
proof (cases "wraps b")
  case True
  then have "Allocate a b = (Some ErrNotInRange, a)"
    using assms(2) by (simp add: Allocate_def contains_def)
  then show thesis using that assms(1) by blast
next
  case False
  obtain e a' where A: "Allocate a b = (e, a')" by fastforce
  moreover have "al_r a' = al_r a"
    using A by (auto simp: Allocate_def split: option.splits prod.splits sum.splits bool.splits)
  ultimately show thesis
    using that Allocate_spec [OF assms(1) False A] by (auto split: if_splits)
qed

section \<open>Refinement: an allocator is a set of blocks\<close>

definition nth_block :: "uid_range \<Rightarrow> nat \<Rightarrow> block" where
  "nth_block r n = the (BlockAt r (of_nat n))"

lemma BlockAt_nth_block: "sized_range r \<Longrightarrow> n < blocks r \<Longrightarrow> BlockAt r (of_nat n) = Some (nth_block r n)"
  using Offset_BlockAt [of r "of_nat n"] by (auto simp: nth_block_def unat_of_nat_blocks)

lemma in_range_nth_block: "b \<in> in_range r \<Longrightarrow> \<exists>n < blocks r. b = nth_block r n"
  by (force simp: in_range_def nth_block_def)

lemma nth_block_inj: "sized_range r \<Longrightarrow> inj_on (nth_block r) {..<blocks r}"
proof (rule inj_onI)
  fix m n assume r: "sized_range r" and mn: "m \<in> {..<blocks r}" "n \<in> {..<blocks r}"
    and "nth_block r m = nth_block r n"
  then have "BlockAt r (of_nat m) = BlockAt r (of_nat n)" by (simp add: BlockAt_nth_block)
  then have "(of_nat m :: u32) = of_nat n"
    using mn by (intro BlockAt_inj [OF r]) (simp_all add: unat_of_nat_blocks)
  then show "m = n" using mn by (metis lessThan_iff unat_of_nat_blocks)
qed

lemma card_in_range:
  assumes "sized_range r"
  shows "finite (in_range r)" "card (in_range r) = blocks r"
proof -
  have "in_range r = nth_block r ` {..<blocks r}"
    using BlockAt_nth_block [OF assms] by (auto simp: in_range_def)
  then show "finite (in_range r)" "card (in_range r) = blocks r"
    using nth_block_inj [OF assms] by (simp_all add: card_image)
qed

lemma card_pool:
  assumes "alloc_ok a"
  shows "card (pool a) = card (bm_taken (al_alloc a))"
proof -
  have r: "sized_range (al_r a)" using assms by (simp add: alloc_ok_def)
  have lt: "bm_taken (al_alloc a) \<subseteq> {..<blocks (al_r a)}" using alloc_ok_taken [OF assms] by auto
  then have "pool a = nth_block (al_r a) ` bm_taken (al_alloc a)"
    using BlockAt_nth_block [OF r] by (fastforce simp: pool_def)
  then show ?thesis using inj_on_subset [OF nth_block_inj [OF r] lt] by (simp add: card_image)
qed

lemma Free_pool:
  assumes "alloc_ok a"
  shows "Free a = int (card (in_range (al_r a) - pool a))"
proof -
  have fin: "finite (in_range (al_r a))" "card (in_range (al_r a)) = blocks (al_r a)"
    using card_in_range [of "al_r a"] assms by (auto simp: alloc_ok_def)
  have sub: "pool a \<subseteq> in_range (al_r a)" by (rule pool_subset [OF assms])
  have "Free a = int (blocks (al_r a)) - int (card (pool a))"
    using assms card_pool [OF assms] by (simp add: Free_def bm_Free_def alloc_ok_def bm_inv_def)
  also have "\<dots> = int (card (in_range (al_r a) - pool a))"
    using fin card_Diff_subset [OF finite_subset [OF sub fin(1)] sub] card_mono [OF fin(1) sub] by simp
  finally show ?thesis .
qed

datatype al_op = OAllocate block | OAllocateNext nat | ORelease block | OHas block | OFree

datatype al_out =
    ErrOut "alloc_error option"
  | BlockOut "alloc_error + block"
  | BoolOut "alloc_error + bool"
  | IntOut int

fun al_step :: "allocator \<Rightarrow> al_op \<Rightarrow> al_out \<times> allocator" where
  "al_step a (OAllocate b) = (case Allocate a b of (e, a') \<Rightarrow> (ErrOut e, a'))"
| "al_step a (OAllocateNext start) = (case AllocateNext a start of (r, a') \<Rightarrow> (BlockOut r, a'))"
| "al_step a (ORelease b) = (case Release a b of (e, a') \<Rightarrow> (ErrOut e, a'))"
| "al_step a (OHas b) = (BoolOut (Has a b), a)"
| "al_step a OFree = (IntOut (Free a), a)"

fun al_run :: "allocator \<Rightarrow> al_op list \<Rightarrow> al_out list \<times> allocator" where
  "al_run a [] = ([], a)"
| "al_run a (op # ops) =
     (case al_step a op of (out, a1) \<Rightarrow> (case al_run a1 ops of (outs, a2) \<Rightarrow> (out # outs, a2)))"

text \<open>The abstract allocator over a set \<open>U\<close> of blocks: its state is the set \<open>S\<close> of reserved ones.\<close>

inductive pool_step :: "block set \<Rightarrow> block set \<Rightarrow> al_op \<Rightarrow> al_out \<Rightarrow> block set \<Rightarrow> bool"
  for U where
  not_in_range: "b \<notin> U \<Longrightarrow> pool_step U S (OAllocate b) (ErrOut (Some ErrNotInRange)) S"
| already: "b \<in> U \<Longrightarrow> b \<in> S \<Longrightarrow> pool_step U S (OAllocate b) (ErrOut (Some ErrAllocated)) S"
| fresh: "b \<in> U \<Longrightarrow> b \<notin> S \<Longrightarrow> pool_step U S (OAllocate b) (ErrOut None) (insert b S)"
| any_free: "b \<in> U \<Longrightarrow> b \<notin> S \<Longrightarrow> pool_step U S (OAllocateNext start) (BlockOut (Inr b)) (insert b S)"
| full: "S = U \<Longrightarrow> pool_step U S (OAllocateNext start) (BlockOut (Inl ErrFull)) S"
| release: "pool_step U S (ORelease b) (ErrOut None) (S - {b})"
| has: "pool_step U S (OHas b) (BoolOut (Inr (b \<in> S))) S"
| free: "pool_step U S OFree (IntOut (int (card (U - S)))) S"

inductive pool_run :: "block set \<Rightarrow> block set \<Rightarrow> al_op list \<Rightarrow> al_out list \<Rightarrow> block set \<Rightarrow> bool"
  for U where
  run_Nil: "pool_run U S [] [] S"
| run_Cons: "pool_step U S op out S1 \<Longrightarrow> pool_run U S1 ops outs S2 \<Longrightarrow>
    pool_run U S (op # ops) (out # outs) S2"

fun op_proper :: "al_op \<Rightarrow> bool" where
  "op_proper (OAllocate b) \<longleftrightarrow> \<not> wraps b"
| "op_proper (ORelease b) \<longleftrightarrow> \<not> wraps b"
| "op_proper (OHas b) \<longleftrightarrow> \<not> wraps b"
| "op_proper _ \<longleftrightarrow> True"

lemma al_step_al_r: "al_step a op = (out, a') \<Longrightarrow> al_r a' = al_r a"
  by (cases op) (auto simp: Allocate_def AllocateNext_def Release_def
      split: option.splits prod.splits sum.splits bool.splits)

lemma al_step_refines:
  assumes "alloc_ok a" "op_proper op" "al_step a op = (out, a')"
  shows "alloc_ok a' \<and> pool_step (in_range (al_r a)) (pool a) op out (pool a')"
proof (cases op)
  case (OAllocate b)
  then obtain e where A: "Allocate a b = (e, a')" "out = ErrOut e"
    using assms(3) by (auto split: prod.splits)
  with OAllocate Allocate_spec [OF assms(1) _ A(1)] assms(2) show ?thesis
    by (auto split: if_splits intro: pool_step.intros)
next
  case (OAllocateNext start)
  then obtain r where A: "AllocateNext a start = (r, a')" "out = BlockOut r"
    using assms(3) by (auto split: prod.splits)
  with OAllocateNext AllocateNext_spec [OF assms(1) A(1)] show ?thesis
    by (cases "pool a = in_range (al_r a)") (auto intro: pool_step.intros)
next
  case (ORelease b)
  then obtain a1 where "Release a b = (None, a1)" "alloc_ok a1" "pool a1 = pool a - {b}"
    using Release_Has_spec [OF assms(1), of b] assms(2) by auto
  with ORelease assms(3) show ?thesis by (auto intro: pool_step.intros)
next
  case (OHas b)
  then have "Has a b = Inr (b \<in> pool a)" using Release_Has_spec [OF assms(1), of b] assms(2) by simp
  with OHas assms(1,3) show ?thesis by (auto simp del: split_paired_All intro: has)
next
  case OFree
  with Free_pool [OF assms(1)] assms show ?thesis
    using free [of "in_range (al_r a)" "pool a"] by auto
qed

lemma al_run_refines:
  "alloc_ok a \<Longrightarrow> \<forall>op \<in> set ops. op_proper op \<Longrightarrow> al_run a ops = (outs, a') \<Longrightarrow>
   alloc_ok a' \<and> pool_run (in_range (al_r a)) (pool a) ops outs (pool a')"
proof (induction ops arbitrary: a outs)
  case (Cons op ops)
  obtain out a1 where s: "al_step a op = (out, a1)" by fastforce
  obtain outs1 where r: "al_run a1 ops = (outs1, a')" "outs = out # outs1"
    using Cons.prems(3) s by (auto split: prod.splits)
  have "alloc_ok a1 \<and> pool_step (in_range (al_r a)) (pool a) op out (pool a1)"
    using al_step_refines [OF Cons.prems(1) _ s] Cons.prems(2) by simp
  with Cons.IH [OF _ _ r(1)] Cons.prems(2) al_step_al_r [OF s] r(2) show ?case
    by (auto intro: run_Cons)
qed (auto intro: run_Nil)


definition small_range :: uid_range where
  "small_range = \<lparr>rng_block = \<lparr>blk_Start = 1000, blk_End = 1029\<rparr>, rng_size = 10\<rparr>"

definition small_allocator :: allocator where
  "small_allocator = \<lparr>al_r = small_range, al_alloc = NewAllocationMap 3 (Range_String small_range)\<rparr>"

lemma small_range_sized: "sized_range small_range"
  by (simp add: small_range_def sized_range_def valid_range_def)

lemma small_allocator_new: "(NewInMemory small_range :: unit + allocator) = Inr small_allocator"
proof -
  have "int (unat (Range_Size small_range)) = 3" by code_simp
  then show ?thesis by (simp add: NewInMemory_def New_def small_allocator_def)
qed

abbreviation small_ops :: "al_op list" where
  "small_ops \<equiv> [OAllocate \<lparr>blk_Start = 1010, blk_End = 1019\<rparr>, OAllocate \<lparr>blk_Start = 1010, blk_End = 1019\<rparr>,
     OAllocateNext 1, OFree, ORelease \<lparr>blk_Start = 1010, blk_End = 1019\<rparr>, OFree]"


lemma Snapshot_Restore_witness:
  "\<exists>t'. Restore small_allocator (al_r small_allocator)
      (snd (Snapshot (snd (Allocate small_allocator \<lparr>blk_Start = 1010, blk_End = 1019\<rparr>)))) = (None, t') \<and>
    Free t' = 2"
proof -
  let ?a = "snd (Allocate small_allocator \<lparr>blk_Start = 1010, blk_End = 1019\<rparr>)"
  have ok: "alloc_ok small_allocator"
    using NewInMemory_ok [OF small_range_sized, where 'e = unit] small_allocator_new
    by (metis sum.inject(2))
  have "alloc_ok ?a"
    using Allocate_spec [OF ok, of "\<lparr>blk_Start = 1010, blk_End = 1019\<rparr>"] by (simp add: prod_eq_iff)
  moreover have "al_r small_allocator = al_r ?a" "Free ?a = 2" by code_simp+
  ultimately show ?thesis using Snapshot_Restore [OF _ ok, of ?a] by auto
qed

end
