(* ===== verification/Mcs_Label.thy ===== *)
theory Mcs_Label
  imports Complex_Main "HOL-Library.Multiset" Go_Std
begin

text \<open>
  SELinux MCS labels: \<open>src/pkg/security/mcs/label.go\<close>. A label is a prefix and a descending list of
  category numbers; the labels with \<open>k\<close> categories are numbered by the co-lexicographic rank of
  their category set (the combinatorial number system). The theory shows that the 64-bit
  \<open>binomial\<close> computes binomial coefficients where its products fit, that unranking
  (\<open>categoriesForOffset\<close>) and ranking (\<open>Categories.Offset\<close>) are inverse bijections below \<open>n\<close> choose
  \<open>k\<close>, the print/parse round trips, and what the code does outside those bounds.
\<close>

section \<open>Data\<close>

definition maxCategories :: int where
  "maxCategories = 1024"

record label =
  lbl_Prefix :: string
  lbl_Categories :: "u16 list"

record mcs_range =
  mr_prefix :: string
  mr_n :: u64
  mr_k :: u64

datatype mcs_error =
    CategoriesMustStartWithC string
  | NotANumber num_error
  | DuplicateCategories string
  | MaxNotPositive
  | LengthNotPositive
  | BadRangeFormat
  | TooManyLabels
  | TooManyCategories

section \<open>Ranking and unranking\<close>

text \<open>
  The loop \<open>for d := 1; d <= k; d++\<close> of \<open>binomial\<close>. The conjunct \<open>k < - 1\<close> holds at the only call
  (there \<open>k < n\<close>) and says that \<open>d\<close> does not wrap around.
\<close>

function binomial_loop :: "u64 \<Rightarrow> u64 \<Rightarrow> u64 \<Rightarrow> u64 \<Rightarrow> u64" where
  "binomial_loop d k n r =
     (if d \<le> k \<and> k < - 1 then binomial_loop (d + 1) k (n - 1) ((r * n) div d) else r)"
  by pat_completeness auto
termination
proof (relation "measure (\<lambda>(d, k, n, r). unat k + 1 - unat d)")
  fix d k n r :: u64
  assume "d \<le> k \<and> k < - 1"
  then have "d \<noteq> - 1" by auto
  then have "unat (d + 1) = unat d + 1"
    by (metis add.commute add_eq_0_iff2 plus_1_eq_Suc unatSuc Suc_eq_plus1)
  moreover from \<open>d \<le> k \<and> k < - 1\<close> have "unat d \<le> unat k" by (simp add: word_le_nat_alt)
  ultimately
  show "((d + 1, k, n - 1, (r * n) div d), d, k, n, r) \<in> measure (\<lambda>(d, k, n, r). unat k + 1 - unat d)"
    by simp
qed simp

declare binomial_loop.simps [simp del]

definition binomial_go :: "u64 \<Rightarrow> u64 \<Rightarrow> u64" where
  "binomial_go n k = (if n < k then 0 else if k = n then 1 else binomial_loop 1 k n 1)"

text \<open>
  The inner loop of \<open>categoriesForOffset\<close>: lower \<open>n\<close> until the binomial coefficient is at most the
  offset. There \<open>j = k - i\<close> is at least 1, so the coefficient of \<open>n = 0\<close> is 0 and the conjunct
  \<open>n \<noteq> 0\<close> never decides (\<open>descend_guard\<close>).
\<close>

function descend :: "u64 \<Rightarrow> u64 \<Rightarrow> u64 \<Rightarrow> u64" where
  "descend n j offset =
     (if binomial_go n j > offset \<and> n \<noteq> 0 then descend (n - 1) j offset else n)"
  by pat_completeness auto
termination
  by (relation "measure (\<lambda>(n, j, offset). unat n)") (auto simp: unat_minus_one unat_gt_0)

declare descend.simps [simp del]

lemma descend_guard: "j \<noteq> 0 \<Longrightarrow> \<not> binomial_go 0 j > offset"
  by (simp add: binomial_go_def word_gt_0)

text \<open>The outer loop; the first argument counts the iterations left, so \<open>k - i\<close> is its value.\<close>

fun categories_loop :: "nat \<Rightarrow> u64 \<Rightarrow> u64 \<Rightarrow> u16 list" where
  "categories_loop 0 n offset = []"
| "categories_loop (Suc i) n offset =
     (let j = of_nat (Suc i); n' = descend n j offset
      in of_nat (unat n') # categories_loop i n' (offset - binomial_go n' j))"

definition sort_Categories :: "u16 list \<Rightarrow> u16 list" where
  "sort_Categories cs = rev (sort cs)"

definition categoriesForOffset :: "u64 \<Rightarrow> u64 \<Rightarrow> u64 \<Rightarrow> u16 list" where
  "categoriesForOffset offset n k = sort_Categories (categories_loop (unat k) n offset)"

text \<open>\<open>Categories.Offset\<close>: the sum of \<open>binomial(categories[i], k - i)\<close>.\<close>

fun Categories_Offset :: "u16 list \<Rightarrow> u64" where
  "Categories_Offset [] = 0"
| "Categories_Offset (c # cs) =
     binomial_go (of_nat (unat c)) (of_nat (length (c # cs))) + Categories_Offset cs"

section \<open>Labels\<close>

definition NewLabel :: "string \<Rightarrow> u64 \<Rightarrow> u64 \<Rightarrow> label" where
  "NewLabel prefix offset k =
     \<lparr>lbl_Prefix = (if prefix \<noteq> [] \<and> \<not> (HasSuffix prefix '':'' \<or> HasSuffix prefix '','')
                    then prefix @ '':'' else prefix),
      lbl_Categories = categoriesForOffset offset (of_int maxCategories) k\<rparr>"

fun parse_categories :: "string \<Rightarrow> string list \<Rightarrow> mcs_error + u16 list" where
  "parse_categories segment [] = Inr []"
| "parse_categories segment (s # ss) =
     (if \<not> HasPrefix s ''c'' then Inl (CategoriesMustStartWithC segment)
      else case Atoi (tl s) of
             Inl e \<Rightarrow> Inl (NotANumber e)
           | Inr i \<Rightarrow> bind_res (parse_categories segment ss) (\<lambda>cs. Inr (word_of_int i # cs)))"

text \<open>The duplicate check compares each category with the one before it in the sorted list.\<close>

fun has_adjacent_dup :: "int \<Rightarrow> u16 list \<Rightarrow> bool" where
  "has_adjacent_dup lst [] = False"
| "has_adjacent_dup lst (c # cs) = (int (unat c) = lst \<or> has_adjacent_dup (int (unat c)) cs)"

definition ParseLabel :: "string \<Rightarrow> mcs_error + label" where
  "ParseLabel s =
     (if s = [] then Inr \<lparr>lbl_Prefix = [], lbl_Categories = []\<rparr>
      else
        let parts = Split CHR '':'' s;
            segment = last parts;
            joined = Join CHR '':'' (butlast parts);
            prefixString = (if joined \<noteq> [] then joined @ '':'' else joined)
        in bind_res (parse_categories segment (Split CHR '','' segment)) (\<lambda>cats.
             let sorted_cats = sort_Categories cats
             in if has_adjacent_dup (-1) sorted_cats then Inl (DuplicateCategories s)
                else Inr \<lparr>lbl_Prefix = prefixString, lbl_Categories = sorted_cats\<rparr>))"

definition category_strings :: "u16 list \<Rightarrow> string list" where
  "category_strings cs = map (\<lambda>c. CHR ''c'' # itoa_nat (unat c)) cs"

definition Label_String :: "label \<Rightarrow> string" where
  "Label_String l = lbl_Prefix l @ Join CHR '','' (category_strings (lbl_Categories l))"

section \<open>Ranges of labels\<close>

definition NewMcsRange :: "string \<Rightarrow> u64 \<Rightarrow> u64 \<Rightarrow> mcs_error + mcs_range" where
  "NewMcsRange prefix n k =
     (if n = 0 then Inl MaxNotPositive
      else if k = 0 then Inl LengthNotPositive
      else Inr \<lparr>mr_prefix = prefix, mr_n = n, mr_k = k\<rparr>)"

definition ParseMcsRange :: "string \<Rightarrow> mcs_error + mcs_range" where
  "ParseMcsRange s =
     (case SplitN2 CHR ''/'' s of
        [prefix, rest] \<Rightarrow>
          (let sz = SplitN2 CHR '','' rest
           in case Atoi (hd sz) of
                Inl _ \<Rightarrow> Inl BadRangeFormat
              | Inr k \<Rightarrow>
                  (case (if length sz > 1 then Atoi (sz ! 1) else Inr maxCategories) of
                     Inl _ \<Rightarrow> Inl BadRangeFormat
                   | Inr n \<Rightarrow>
                       if k > 5 then Inl TooManyLabels
                       else if n > maxCategories then Inl TooManyCategories
                       else NewMcsRange prefix (word_of_int n) (word_of_int k)))
      | _ \<Rightarrow> Inl BadRangeFormat)"

definition McsRange_Size :: "mcs_range \<Rightarrow> u64" where
  "McsRange_Size r = binomial_go (mr_n r) (mr_k r)"

definition McsRange_String :: "mcs_range \<Rightarrow> string" where
  "McsRange_String r =
     (if mr_n r = of_int maxCategories then mr_prefix r @ ''/'' @ itoa_nat (unat (mr_k r))
      else mr_prefix r @ ''/'' @ itoa_nat (unat (mr_k r)) @ '','' @ itoa_nat (unat (mr_n r)))"

definition LabelAt :: "mcs_range \<Rightarrow> u64 \<Rightarrow> label \<times> bool" where
  "LabelAt r offset = (NewLabel (mr_prefix r) offset (mr_k r), True)"

definition McsRange_Contains :: "mcs_range \<Rightarrow> label \<Rightarrow> bool" where
  "McsRange_Contains r l \<longleftrightarrow>
     (if lbl_Prefix l \<noteq> mr_prefix r then False
      else if int (length (lbl_Categories l)) \<noteq> sint (mr_k r) then False
      else list_all (\<lambda>i. \<not> i \<ge> of_nat (unat (mr_n r))) (lbl_Categories l))"

definition McsRange_Offset :: "mcs_range \<Rightarrow> label \<Rightarrow> bool \<times> u64" where
  "McsRange_Offset r l =
     (if \<not> McsRange_Contains r l then (False, 0) else (True, Categories_Offset (lbl_Categories l)))"

section \<open>The binomial coefficient in 64 bits\<close>

lemma choose_step: "(n choose d) * (n - d) = Suc d * (n choose Suc d)"
  by (metis binomial_absorption binomial_absorb_comp mult.commute)

lemma choose_step_le: "Suc d \<le> k \<Longrightarrow> 0 < n \<Longrightarrow> (n choose d) * (n - d) \<le> n ^ k"
proof -
  assume "Suc d \<le> k" "0 < n"
  have "Suc d * (n choose Suc d) \<le> fact (Suc d) * (n choose Suc d)"
    by (intro mult_right_mono fact_ge_self) simp
  then have "(n choose d) * (n - d) \<le> (n choose Suc d) * fact (Suc d)"
    by (simp only: choose_step mult.commute)
  also have "\<dots> \<le> n ^ Suc d" by (rule binomial_fact_pow)
  also have "\<dots> \<le> n ^ k" using \<open>Suc d \<le> k\<close> \<open>0 < n\<close> by (intro power_increasing) simp_all
  finally show ?thesis .
qed

lemma binomial_loop_choose:
  assumes "1 \<le> unat d" "unat d \<le> Suc (unat k)" "unat k < N" "N < 2 ^ 64" "N ^ unat k < 2 ^ 64"
    and "unat n = N - (unat d - 1)" "unat r = N choose (unat d - 1)"
  shows "unat (binomial_loop d k n r) = N choose unat k"
  using assms
proof (induction d k n r rule: binomial_loop.induct)
  case (1 d k n r)
  have k1: "k < - 1"
    using "1.prems"(3,4) by (simp add: word_less_nat_alt unsigned_minus_1_eq_mask mask_eq_exp_minus_1)
  show ?case
  proof (cases "d \<le> k")
    case False
    then have "unat d = Suc (unat k)" using "1.prems"(2) by (simp add: word_le_nat_alt)
    with False "1.prems"(7) show ?thesis by (simp add: binomial_loop.simps [of d k n r])
  next
    case True
    then have dk: "unat d \<le> unat k" by (simp add: word_le_nat_alt)
    have d1: "unat (d + 1) = Suc (unat d)"
      using dk unat_less_2p64 [of k] "1.prems"(3,4) by (simp add: unat_word_ariths)
    have n1: "unat (n - 1) = N - unat d"
      using dk "1.prems"(1,3,6) unat_sub_le [of 1 n] by (simp add: word_le_nat_alt)
    let ?p = "(N choose (unat d - 1)) * (N - (unat d - 1))"
    have "?p \<le> N ^ unat k"
      using dk "1.prems"(1,3) by (intro choose_step_le) simp_all
    then have p: "unat (r * n) = ?p" using "1.prems"(5,6,7) by (simp add: unat_word_ariths)
    have "?p = unat d * (N choose unat d)"
      using choose_step [of N "unat d - 1"] "1.prems"(1) by simp
    then have rd: "unat ((r * n) div d) = N choose unat d"
      using "1.prems"(1) by (simp add: unat_div_distrib p)
    have "unat (binomial_loop (d + 1) k (n - 1) ((r * n) div d)) = N choose unat k"
      using True k1 dk "1.prems" by (intro "1.IH") (simp_all add: d1 n1 rd)
    with True k1 show ?thesis by (simp add: binomial_loop.simps [of d k n r])
  qed
qed

text \<open>The precondition that the products of the loop fit in 64 bits, and the result.\<close>

lemma binomial_go_choose:
  assumes "unat n ^ unat k < 2 ^ 64"
  shows "unat (binomial_go n k) = unat n choose unat k"
proof -
  consider "n < k" | "k = n" | "k < n" by force
  then show ?thesis
  proof cases
    case 3
    then have "unat (binomial_loop 1 k n 1) = unat n choose unat k"
      using assms unat_less_2p64 [of n] by (intro binomial_loop_choose) (simp_all add: word_less_nat_alt)
    with 3 show ?thesis by (auto simp: binomial_go_def)
  qed (simp_all add: binomial_go_def word_less_nat_alt binomial_eq_0)
qed

text \<open>All calls with at most 1024 categories and at most 5 labels are exact.\<close>

lemma pow_1024_5: "n \<le> 1024 \<Longrightarrow> k \<le> 5 \<Longrightarrow> (n::nat) ^ k < 2 ^ 64"
proof -
  assume "n \<le> 1024" "k \<le> 5"
  then have "n ^ k \<le> 1024 ^ k" by (simp add: power_mono)
  also have "\<dots> \<le> 1024 ^ 5" using \<open>k \<le> 5\<close> by (intro power_increasing) simp_all
  finally show ?thesis by simp
qed

lemma binomial_go_small:
  "unat n \<le> 1024 \<Longrightarrow> unat k \<le> 5 \<Longrightarrow> unat (binomial_go n k) = unat n choose unat k"
  by (intro binomial_go_choose pow_1024_5)

section \<open>The combinatorial number system\<close>

text \<open>The rank of a descending list of naturals, without machine arithmetic.\<close>

fun rank :: "nat list \<Rightarrow> nat" where
  "rank [] = 0"
| "rank (c # cs) = (c choose Suc (length cs)) + rank cs"

abbreviation descending :: "'a::linorder list \<Rightarrow> bool" where
  "descending \<equiv> sorted_wrt (>)"

lemma rank_less_choose:
  "descending cs \<Longrightarrow> \<forall>c \<in> set cs. c < n \<Longrightarrow> rank cs < n choose length cs"
proof (induction cs arbitrary: n)
  case (Cons c cs)
  then have "rank cs < c choose length cs" by auto
  then have "rank (c # cs) < Suc c choose Suc (length cs)" by simp
  also have "\<dots> \<le> n choose Suc (length cs)" using Cons.prems by (intro binomial_right_mono) auto
  finally show ?case by simp
qed simp

lemma rank_hd_le: "c choose Suc (length cs) \<le> rank (c # cs)"
  by simp

lemma rank_hd_less:
  "descending (c # cs) \<Longrightarrow> rank (c # cs) < Suc c choose Suc (length cs)"
  using rank_less_choose [of "c # cs" "Suc c"] by (simp del: binomial_Suc_Suc) force

lemma rank_inj:
  "descending cs \<Longrightarrow> descending ds \<Longrightarrow> length cs = length ds \<Longrightarrow> rank cs = rank ds \<Longrightarrow> cs = ds"
proof (induction cs arbitrary: ds)
  case (Cons c cs)
  then obtain d ds' where ds: "ds = d # ds'" by (cases ds) auto
  have le: "c \<le> d" if "descending (c # cs)" "descending (d # ds')" "length cs = length ds'"
      "rank (c # cs) = rank (d # ds')" for c d :: nat and cs ds'
  proof (rule ccontr)
    assume "\<not> c \<le> d"
    then have "Suc d choose Suc (length cs) \<le> c choose Suc (length cs)"
      by (intro binomial_right_mono) simp
    with rank_hd_less [OF that(2)] rank_hd_le [of c cs] that(3,4) show False by simp
  qed
  have "c = d"
    using le [of c cs d ds'] le [of d ds' c cs] Cons.prems ds by auto
  with Cons ds show ?case by auto
qed simp

section \<open>Unranking and ranking are inverse\<close>

lemma descend_spec:
  assumes "unat n \<le> 1024" "1 \<le> unat j" "unat j \<le> 5" "unat off < unat n choose unat j"
  shows "unat (descend n j off) < unat n \<and> unat (descend n j off) choose unat j \<le> unat off \<and>
    unat off < Suc (unat (descend n j off)) choose unat j"
  using assms
proof (induction n j off rule: descend.induct)
  case (1 n j off)
  have b: "unat (binomial_go n j) = unat n choose unat j"
    using "1.prems" by (intro binomial_go_small)
  have gt: "binomial_go n j > off" using b "1.prems"(4) by (simp add: word_less_nat_alt)
  have n0: "n \<noteq> 0" using "1.prems"(2,4) by (auto simp: binomial_eq_0)
  have n1: "unat (n - 1) = unat n - 1" using n0 by (rule unat_minus_one)
  have pos: "0 < unat n" using n0 by (simp add: unat_gt_0)
  have step: "descend n j off = descend (n - 1) j off"
    using gt n0 by (simp add: descend.simps [of n j off])
  show ?case
  proof (cases "unat off < unat (n - 1) choose unat j")
    case True
    with "1.IH" gt n0 "1.prems" n1 have "unat (descend (n - 1) j off) < unat n - 1"
      "unat (descend (n - 1) j off) choose unat j \<le> unat off"
      "unat off < Suc (unat (descend (n - 1) j off)) choose unat j"
      by simp_all
    then show ?thesis by (simp add: step)
  next
    case False
    have "unat (binomial_go (n - 1) j) = unat (n - 1) choose unat j"
      using "1.prems" n1 by (intro binomial_go_small) simp_all
    with False have "descend (n - 1) j off = n - 1"
      by (simp add: descend.simps [of "n - 1" j off] word_less_nat_alt)
    with False "1.prems"(4) n1 pos show ?thesis by (simp add: step)
  qed
qed

lemma categories_loop_spec:
  assumes "i \<le> 5" "unat n \<le> 1024" "unat off < unat n choose i"
  shows "length (categories_loop i n off) = i \<and> descending (map unat (categories_loop i n off)) \<and>
    (\<forall>c \<in> set (categories_loop i n off). unat c < unat n) \<and>
    rank (map unat (categories_loop i n off)) = unat off"
  using assms
proof (induction i n off rule: categories_loop.induct)
  case (1 n off)
  then show ?case by simp
next
  case (2 i n off)
  let ?j = "of_nat (Suc i) :: u64"
  have j: "unat ?j = Suc i" using "2.prems"(1) by (intro unat_of_nat_u64) simp
  define m where "m = descend n ?j off"
  have m: "unat m < unat n" "unat m choose Suc i \<le> unat off" "unat off < Suc (unat m) choose Suc i"
    using descend_spec [of n ?j off] "2.prems" by (auto simp: m_def j simp del: of_nat_Suc)
  have b: "unat (binomial_go m ?j) = unat m choose Suc i"
    using m(1) "2.prems" j by (subst binomial_go_small) (simp_all del: of_nat_Suc)
  have rest: "unat (off - binomial_go m ?j) = unat off - (unat m choose Suc i)"
    using m(2) b unat_sub_le [of "binomial_go m ?j" off] by (simp add: word_le_nat_alt)
  have "unat (off - binomial_go m ?j) < unat m choose i" unfolding rest using m(2,3) by simp
  with "2.IH" [OF refl, of m] "2.prems" m(1)
  have IH: "length (categories_loop i m (off - binomial_go m ?j)) = i"
    "descending (map unat (categories_loop i m (off - binomial_go m ?j)))"
    "\<forall>c \<in> set (categories_loop i m (off - binomial_go m ?j)). unat c < unat m"
    "rank (map unat (categories_loop i m (off - binomial_go m ?j))) = unat (off - binomial_go m ?j)"
    by (auto simp: m_def)
  have h: "unat (of_nat (unat m) :: u16) = unat m"
    using m(1) "2.prems"(2) by (intro unat_of_nat_u16) simp
  have "categories_loop (Suc i) n off = of_nat (unat m) # categories_loop i m (off - binomial_go m ?j)"
    by (simp add: Let_def m_def)
  then show ?case using IH m h rest
    by (auto simp del: categories_loop.simps of_nat_Suc intro: less_trans)
qed

lemma descending_unat: "descending (map unat cs) \<longleftrightarrow> descending (cs :: 'a::len word list)"
  by (simp add: sorted_wrt_map word_less_nat_alt)

lemma sort_Categories_descending: "descending cs \<Longrightarrow> sort_Categories cs = cs"
proof -
  assume "descending cs"
  then have "sorted (rev cs)"
    by (auto simp: sorted_wrt_rev intro: sorted_wrt_mono_rel [of _ "(>)"])
  then have "sort cs = rev cs" by (intro properties_for_sort) simp_all
  then show ?thesis by (simp add: sort_Categories_def)
qed

lemma Categories_Offset_rank:
  assumes "descending cs" "length cs \<le> 5" "\<forall>c \<in> set cs. unat c < 1024"
  shows "unat (Categories_Offset cs) = rank (map unat cs)"
  using assms
proof (induction cs)
  case (Cons c cs)
  let ?l = "of_nat (length (c # cs)) :: u64"
  have c: "unat (of_nat (unat c) :: u64) = unat c"
    using Cons.prems(3) by (intro unat_of_nat_u64) simp
  have l: "unat ?l = length (c # cs)" using Cons.prems(2) by (intro unat_of_nat_u64) simp
  have b: "unat (binomial_go (of_nat (unat c)) ?l) = unat c choose Suc (length cs)"
    using Cons.prems c l by (subst binomial_go_small) (simp_all del: of_nat_Suc)
  have "rank (map unat (c # cs)) < 1024 choose length (map unat (c # cs))"
    using Cons.prems by (intro rank_less_choose) (auto simp: descending_unat [of "c # cs", simplified])
  also have "\<dots> \<le> 1024 ^ length (c # cs)"
    using binomial_le_pow [of "length (c # cs)" 1024] Cons.prems(2) by simp
  also have "\<dots> < 2 ^ 64" by (rule pow_1024_5) (use Cons.prems(2) in simp_all)
  finally show ?case using Cons b by (simp add: unat_word_ariths del: of_nat_Suc)
qed simp

text \<open>Unranking is correct and never overflows: for at most 5 labels and any offset below \<open>n\<close>
  choose \<open>k\<close> (with \<open>n \<le> 1024\<close>), \<open>categoriesForOffset\<close> returns exactly \<open>k\<close> categories, strictly
  descending and below \<open>n\<close>, whose rank is the offset.\<close>

lemma categoriesForOffset_correct:
  assumes "unat n \<le> 1024" and "unat k \<le> 5" and "unat offset < unat n choose unat k"
  shows "length (categoriesForOffset offset n k) = unat k \<and>
    descending (categoriesForOffset offset n k) \<and>
    (\<forall>c \<in> set (categoriesForOffset offset n k). unat c < unat n) \<and>
    Categories_Offset (categoriesForOffset offset n k) = offset"
proof -
  let ?cs = "categories_loop (unat k) n offset"
  have spec: "length ?cs = unat k" "descending ?cs" "\<forall>c \<in> set ?cs. unat c < unat n"
    "rank (map unat ?cs) = unat offset"
    using categories_loop_spec [of "unat k" n offset] assms by (simp_all add: descending_unat)
  then have eq: "categoriesForOffset offset n k = ?cs"
    by (simp add: categoriesForOffset_def sort_Categories_descending)
  have "unat (Categories_Offset ?cs) = unat offset"
    using spec assms by (subst Categories_Offset_rank) (auto intro: less_le_trans)
  then have "Categories_Offset ?cs = offset" by (simp add: word_unat_eq_iff)
  with spec eq show ?thesis by simp
qed

lemma categoriesForOffset_Offset:
  assumes "unat n \<le> 1024" and "unat k \<le> 5" and "length cs = unat k" and "descending cs"
    and "\<forall>c \<in> set cs. unat c < unat n"
  shows "unat (Categories_Offset cs) < unat n choose unat k \<and>
    categoriesForOffset (Categories_Offset cs) n k = cs"
proof -
  let ?off = "Categories_Offset cs" and ?ds = "categories_loop (unat k) n (Categories_Offset cs)"
  have off: "unat ?off = rank (map unat cs)"
    by (rule Categories_Offset_rank) (use assms in \<open>auto intro: less_le_trans\<close>)
  have "rank (map unat cs) < unat n choose length (map unat cs)"
    using assms by (intro rank_less_choose) (auto simp: descending_unat)
  then have lt: "unat ?off < unat n choose unat k" by (simp add: off assms(3))
  have spec: "length ?ds = length cs" "descending (map unat ?ds)"
    "rank (map unat ?ds) = rank (map unat cs)"
    using categories_loop_spec [of "unat k" n ?off] assms lt by (simp_all add: off)
  then have "map unat ?ds = map unat cs"
    using assms by (intro rank_inj) (simp_all add: descending_unat)
  then have "?ds = cs" by (simp add: inj_map_eq_map inj_on_def word_unat_eq_iff)
  with lt show ?thesis
    using assms by (simp add: categoriesForOffset_def sort_Categories_descending)
qed



section \<open>Printing and parsing\<close>

lemma word_of_int_unat: "(word_of_int (int (unat w)) :: 'a::len word) = w"
  by simp

lemma parse_category_strings:
  "parse_categories seg (category_strings cs) = Inr cs"
proof (induction cs)
  case (Cons c cs)
  have "unat c < 2 ^ 63" using unat_less_2p16 [of c] by simp
  then have "Atoi (itoa_nat (unat c)) = Inr (int (unat c))" by (rule Atoi_itoa_nat)
  with Cons show ?case
    by (simp add: category_strings_def HasPrefix_def)
qed (simp add: category_strings_def)

lemma has_adjacent_dup_descending:
  "descending cs \<Longrightarrow> \<forall>c \<in> set cs. int (unat c) \<noteq> lst \<Longrightarrow> \<not> has_adjacent_dup lst cs"
  by (induction lst cs rule: has_adjacent_dup.induct) (force simp: word_less_nat_alt)+

lemma category_strings_sep:
  "p \<in> set (category_strings cs) \<Longrightarrow> c \<in> {CHR '','', CHR '':''} \<Longrightarrow> c \<notin> set p"
  by (auto simp: category_strings_def itoa_nat_no_nondigit)

lemma Join_no_char: "\<forall>p \<in> set ps. c \<notin> set p \<Longrightarrow> c \<noteq> d \<Longrightarrow> c \<notin> set (Join d ps)"
  by (induction d ps rule: Join.induct) auto

lemma Split_snoc: "c \<notin> set t \<Longrightarrow> Split c (s @ c # t) = Split c s @ [t]"
  by (induction s) (auto simp: Split_no_sep split: list.split)



section \<open>Ranges\<close>

text \<open>What \<open>ParseRange\<close> is meant to accept: up to 5 labels out of up to 1024 categories.\<close>

definition valid_mcs :: "mcs_range \<Rightarrow> bool" where
  "valid_mcs r \<longleftrightarrow> 1 \<le> unat (mr_k r) \<and> unat (mr_k r) \<le> 5 \<and> 1 \<le> unat (mr_n r) \<and> unat (mr_n r) \<le> 1024"

lemma McsRange_Size_choose: "valid_mcs r \<Longrightarrow> unat (McsRange_Size r) = unat (mr_n r) choose unat (mr_k r)"
  by (simp add: valid_mcs_def McsRange_Size_def binomial_go_small)

lemma categoriesForOffset_indep:
  assumes "unat n \<le> 1024" "unat k \<le> 5" "unat offset < unat n choose unat k"
  shows "categoriesForOffset offset 1024 k = categoriesForOffset offset n k"
proof -
  have "unat n choose unat k \<le> 1024 choose unat k"
    using assms(1) by (intro binomial_right_mono) simp
  with assms(3) have "unat offset < unat (1024 :: u64) choose unat k" by simp
  then have big: "length (categories_loop (unat k) 1024 offset) = unat k"
    "descending (map unat (categories_loop (unat k) 1024 offset))"
    "rank (map unat (categories_loop (unat k) 1024 offset)) = unat offset"
    using categories_loop_spec [of "unat k" 1024 offset] assms(2) by simp_all
  have small: "length (categories_loop (unat k) n offset) = unat k"
    "descending (map unat (categories_loop (unat k) n offset))"
    "rank (map unat (categories_loop (unat k) n offset)) = unat offset"
    using categories_loop_spec [of "unat k" n offset] assms by simp_all
  have "map unat (categories_loop (unat k) 1024 offset) = map unat (categories_loop (unat k) n offset)"
    using big small by (intro rank_inj) simp_all
  then show ?thesis
    by (simp add: categoriesForOffset_def inj_map_eq_map inj_on_def word_unat_eq_iff)
qed

text \<open>A label range numbers its labels: for every offset below the size of a range whose prefix
  is empty or ends in a separator, the label at that offset is in the range and its offset is the
  one asked for. (\<open>LabelAt\<close> unranks over all 1024 categories; the bound \<open>n\<close> of the range is respected
  nevertheless, because the offset is below the size.)\<close>

lemma LabelAt_roundtrip:
  assumes "valid_mcs r" and "offset < McsRange_Size r"
    and "mr_prefix r = [] \<or> HasSuffix (mr_prefix r) '':'' \<or> HasSuffix (mr_prefix r) '',''"
  shows "McsRange_Contains r (fst (LabelAt r offset)) \<and>
    McsRange_Offset r (fst (LabelAt r offset)) = (True, offset)"
proof -
  let ?cs = "categoriesForOffset offset (mr_n r) (mr_k r)"
  have v: "unat (mr_n r) \<le> 1024" "unat (mr_k r) \<le> 5" using assms(1) by (simp_all add: valid_mcs_def)
  have lt: "unat offset < unat (mr_n r) choose unat (mr_k r)"
    using assms(2) McsRange_Size_choose [OF assms(1)] by (simp add: word_less_nat_alt)
  have lbl: "fst (LabelAt r offset) = \<lparr>lbl_Prefix = mr_prefix r, lbl_Categories = ?cs\<rparr>"
    using assms(3) categoriesForOffset_indep [OF v lt]
    by (auto simp: LabelAt_def NewLabel_def maxCategories_def)
  have cs: "length ?cs = unat (mr_k r)" "\<forall>c \<in> set ?cs. unat c < unat (mr_n r)"
    "Categories_Offset ?cs = offset"
    using categoriesForOffset_correct [OF v lt] by simp_all
  have k: "sint (mr_k r) = int (unat (mr_k r))"
    using v(2) by (intro sint_small_u64) simp
  have n: "unat (of_nat (unat (mr_n r)) :: u16) = unat (mr_n r)"
    using v(1) by (intro unat_of_nat_u16) simp
  have "McsRange_Contains r (fst (LabelAt r offset))"
    using cs(1,2) k n by (auto simp: lbl McsRange_Contains_def list_all_iff word_le_nat_alt)
  with cs(3) show ?thesis by (simp add: McsRange_Offset_def lbl)
qed

text \<open>A label range survives printing and parsing, when its prefix has no slash.\<close>

lemma ParseMcsRange_String:
  assumes "valid_mcs r" and "CHR ''/'' \<notin> set (mr_prefix r)"
  shows "ParseMcsRange (McsRange_String r) = Inr r"
proof -
  let ?n = "unat (mr_n r)" and ?k = "unat (mr_k r)"
  have v: "1 \<le> ?k" "?k \<le> 5" "1 \<le> ?n" "?n \<le> 1024" using assms(1) by (simp_all add: valid_mcs_def)
  have at: "Atoi (itoa_nat ?n) = Inr (int ?n)" "Atoi (itoa_nat ?k) = Inr (int ?k)"
    using v by (simp_all add: Atoi_itoa_nat)
  have new: "NewMcsRange (mr_prefix r) (mr_n r) (mr_k r) = Inr r"
    using v by (auto simp: NewMcsRange_def)
  have c: "CHR '','' \<notin> set (itoa_nat ?k)" by (simp add: itoa_nat_no_nondigit)
  show ?thesis
  proof (cases "mr_n r = 1024")
    case True
    then have "McsRange_String r = mr_prefix r @ CHR ''/'' # itoa_nat ?k"
      by (simp add: McsRange_String_def maxCategories_def)
    with True v at new c show ?thesis
      by (simp add: ParseMcsRange_def SplitN2_append_sep [OF assms(2)] SplitN2_no_sep maxCategories_def)
  next
    case False
    then have "McsRange_String r = mr_prefix r @ CHR ''/'' # itoa_nat ?k @ CHR '','' # itoa_nat ?n"
      by (simp add: McsRange_String_def maxCategories_def)
    with v at new show ?thesis
      by (simp add: ParseMcsRange_def SplitN2_append_sep [OF assms(2)] SplitN2_append_sep [OF c]
          maxCategories_def)
  qed
qed

section \<open>Outside the bounds\<close>

text \<open>\<open>LabelAt\<close> does not check the offset against the size of the range: past the last label of the
  default range \<open>s0:/2\<close> (offset 523776) plus 1024 it reports success with the same ill-formed
  label, the category 1024 twice, for different offsets.\<close>

lemma LabelAt_beyond_size:
  "ParseMcsRange ''s0:/2'' = Inr \<lparr>mr_prefix = ''s0:'', mr_n = 1024, mr_k = 2\<rparr> \<and>
   McsRange_Size \<lparr>mr_prefix = ''s0:'', mr_n = 1024, mr_k = 2\<rparr> = 523776 \<and>
   LabelAt \<lparr>mr_prefix = ''s0:'', mr_n = 1024, mr_k = 2\<rparr> 550000 =
     LabelAt \<lparr>mr_prefix = ''s0:'', mr_n = 1024, mr_k = 2\<rparr> 560000 \<and>
   LabelAt \<lparr>mr_prefix = ''s0:'', mr_n = 1024, mr_k = 2\<rparr> 550000 =
     (\<lparr>lbl_Prefix = ''s0:'', lbl_Categories = [1024, 1024]\<rparr>, True)"
  by (intro conjI; code_simp)

text \<open>\<open>ParseRange\<close> bounds the number of labels from above only: a negative count passes the check
  and becomes a huge unsigned one, and a negative maximum likewise.\<close>

lemma ParseMcsRange_negative:
  "ParseMcsRange ''s0:/-1'' = Inr \<lparr>mr_prefix = ''s0:'', mr_n = 1024, mr_k = 18446744073709551615\<rparr> \<and>
   ParseMcsRange ''s0:/2,-1'' = Inr \<lparr>mr_prefix = ''s0:'', mr_n = 18446744073709551615, mr_k = 2\<rparr>"
  by (intro conjI; code_simp)

text \<open>\<open>ParseLabel\<close> keeps only 16 bits of a category number: \<open>c65536\<close> is read as category 0, so two
  different texts denote one label and a label with a repeated category can be hidden.\<close>

lemma ParseLabel_truncates:
  "ParseLabel ''s0:c65536,c1'' = Inr \<lparr>lbl_Prefix = ''s0:'', lbl_Categories = [1, 0]\<rparr> \<and>
   ParseLabel ''s0:c65536,c1'' = ParseLabel ''s0:c0,c1'' \<and>
   ParseLabel ''s0:c65536,c0'' = Inl (DuplicateCategories ''s0:c65536,c0'')"
  by (intro conjI; code_simp)

end
