(* ===== verification/Scc_Allocation.thy ===== *)
theory Scc_Allocation
  imports Api_Types Uid_Allocator Mcs_Label
begin

text \<open>
  The namespace SCC allocation controller:
  \<open>src/pkg/security/controller/namespace_scc_allocation_controller.go\<close> and \<open>utils.go\<close>. It hands every
  namespace one UID block of the required range and the MCS label that belongs to the block. The
  reserved blocks are a bitmap in a \<open>RangeAllocation\<close> object, guarded by optimistic concurrency;
  \<open>Repair\<close> rebuilds the bitmap from the namespaces.

  \<open>nsc_client\<close> holds the API calls; the lister reads (\<open>ns_Get\<close>, \<open>ns_List\<close>) and the live calls are
  functions of the world, so a lister may be stale.
\<close>

section \<open>Queue keys (utils.go)\<close>

definition namespaceNameKeyPrefix :: string where
  "namespaceNameKeyPrefix = ''ns''"

definition asNamespaceNameKey :: "string \<Rightarrow> string" where
  "asNamespaceNameKey ns = namespaceNameKeyPrefix @ ''/'' @ ns"

definition parseNamespaceNameKey :: "string \<Rightarrow> string option" where
  "parseNamespaceNameKey key =
     (case Split CHR ''/'' key of
        [p, n] \<Rightarrow> if p \<noteq> namespaceNameKeyPrefix \<or> n = [] then None else Some n
      | _ \<Rightarrow> None)"

definition initialRepairKey :: string where
  "initialRepairKey = ''__internal/initialRepair''"

definition DefaultQueueKey :: string where
  "DefaultQueueKey = ''key''"

section \<open>State and calls\<close>

definition rangeName :: string where
  "rangeName = ''scc-uid''"

definition fieldManager :: string where
  "fieldManager = ''cluster-policy-controller''"

record 'w nsc_client =
  ra_Get :: "'w \<Rightarrow> string \<Rightarrow> api_error + range_allocation"
  ra_Update :: "'w \<Rightarrow> range_allocation \<Rightarrow> (api_error + range_allocation) \<times> 'w"
  ra_Create :: "'w \<Rightarrow> range_allocation \<Rightarrow> (api_error + range_allocation) \<times> 'w"
  ns_Apply :: "'w \<Rightarrow> ns_apply \<Rightarrow> string \<Rightarrow> (api_error + namespace) \<times> 'w"
  ns_Get :: "'w \<Rightarrow> string \<Rightarrow> api_error + namespace"
  ns_List :: "'w \<Rightarrow> api_error + namespace list"

datatype nsc_event = CreatedSCCRanges string | UIDRangeFull

record nsc =
  requiredUIDRange :: uid_range
  mcsAllocator :: "block \<Rightarrow> label option"
  currentUIDRangeAllocation :: "range_allocation option"
  recorded :: "nsc_event list"

datatype nsc_error =
    ApiErr api_error
  | UidErr uid_error
  | ConflictingUIDRange uid_range uid_range
  | UidRangeExceeded
  | BitNotInRange nat
  | SyntheticRequeueError
  | BadKey string
  | RangeIsFull
  | UnknownAllocError block string alloc_error
  | PeriodicRepairErr nsc_error
  | RepairTimeout

section \<open>Allocation for one namespace\<close>

text \<open>\<open>for i := 0; i < max; i++ { if allocated.Bit(i) == 0 ... }\<close>, from \<open>i\<close> with \<open>left\<close> rounds to go.\<close>

fun next_clear_bit :: "nat \<Rightarrow> nat \<Rightarrow> nat \<Rightarrow> nat option" where
  "next_clear_bit allocated i 0 = None"
| "next_clear_bit allocated i (Suc left) =
     (if \<not> bit allocated i then Some i else next_clear_bit allocated (Suc i) left)"

definition allocateNextContiguousBit :: "nat \<Rightarrow> nat \<Rightarrow> nat option" where
  "allocateNextContiguousBit allocated mx = next_clear_bit allocated 0 mx"

text \<open>The server-side-apply patch of \<open>allocate\<close>.\<close>

definition scc_patch :: "nsc \<Rightarrow> namespace \<Rightarrow> block \<Rightarrow> ns_apply" where
  "scc_patch c ns b =
     (let base = Map.empty(UIDRangeAnnotation \<mapsto> Block_String b,
                           SupplementalGroupsAnnotation \<mapsto> Block_String b);
          annots = (case ns_Annotations ns MCSAnnotation of
                      Some v \<Rightarrow> base(MCSAnnotation \<mapsto> v)
                    | None \<Rightarrow> (case mcsAllocator c b of
                                 Some l \<Rightarrow> base(MCSAnnotation \<mapsto> Label_String l)
                               | None \<Rightarrow> base))
      in \<lparr>na_Name = ns_Name ns, na_ResourceVersion = Some (ns_ResourceVersion ns),
          na_Labels = Map.empty, na_Annotations = annots\<rparr>)"

text \<open>The deferred function: unless the call affirmatively succeeds, drop the cached state.\<close>

definition forget :: "nsc \<Rightarrow> nsc" where
  "forget c = c\<lparr>currentUIDRangeAllocation := None\<rparr>"

definition allocate :: "'w nsc_client \<Rightarrow> nsc \<Rightarrow> 'w \<Rightarrow> namespace \<Rightarrow> nsc_error option \<times> nsc \<times> 'w" where
  "allocate cl c w ns =
     (case (case currentUIDRangeAllocation c of
              Some ra \<Rightarrow> Inr ra
            | None \<Rightarrow> ra_Get cl w rangeName) of
        Inl e \<Rightarrow> (Some (ApiErr e), forget c, w)
      | Inr cur \<Rightarrow>
          (case Uid.ParseRange (ra_Range cur) of
             Inl e \<Rightarrow> (Some (UidErr e), forget c, w)
           | Inr uidRange \<Rightarrow>
               if uidRange \<noteq> requiredUIDRange c then
                 (Some (ConflictingUIDRange (requiredUIDRange c) uidRange), forget c, w)
               else
                 let allocatedBitMapInt = big_SetBytes (ra_Data cur)
                 in case allocateNextContiguousBit allocatedBitMapInt (unat (Uid.Range_Size uidRange)) of
                      None \<Rightarrow> (Some UidRangeExceeded, forget c, w)
                    | Some bitIndex \<Rightarrow>
                        let newRangeAllocation =
                              cur\<lparr>ra_Data := big_Bytes (SetBit allocatedBitMapInt bitIndex True)\<rparr>
                        in case ra_Update cl w newRangeAllocation of
                             (Inl e, w') \<Rightarrow> (Some (ApiErr e), forget c, w')
                           | (Inr actual, w') \<Rightarrow>
                               (case BlockAt uidRange (of_nat bitIndex) of
                                  None \<Rightarrow> (Some (BitNotInRange bitIndex), forget c, w')
                                | Some b \<Rightarrow>
                                    (case ns_Apply cl w' (scc_patch c ns b) fieldManager of
                                       (Inl NotFound, w'') \<Rightarrow> (None, forget c, w'')
                                     | (Inl e, w'') \<Rightarrow> (Some (ApiErr e), forget c, w'')
                                     | (Inr _, w'') \<Rightarrow>
                                         (None,
                                          c\<lparr>currentUIDRangeAllocation := Some actual,
                                            recorded := recorded c @ [CreatedSCCRanges (ns_Name ns)]\<rparr>,
                                          w'')))))"

definition syncNamespace :: "'w nsc_client \<Rightarrow> nsc \<Rightarrow> 'w \<Rightarrow> string \<Rightarrow> nsc_error option \<times> nsc \<times> 'w" where
  "syncNamespace cl c w name =
     (case ns_Get cl w name of
        Inl NotFound \<Rightarrow> (None, c, w)
      | Inl e \<Rightarrow> (Some (ApiErr e), c, w)
      | Inr ns \<Rightarrow>
          if ns_Annotations ns UIDRangeAnnotation \<noteq> None then (None, c, w)
          else (case allocate cl c w ns of
                  (Some (ApiErr ConflictErr), c', w') \<Rightarrow> (Some SyntheticRequeueError, c', w')
                | r \<Rightarrow> r))"

section \<open>Repair\<close>

text \<open>The loop over the listed namespaces: the allocator it fills, or the error that stops it.\<close>

fun repair_loop :: "allocator \<Rightarrow> namespace list \<Rightarrow> nsc_error + allocator" where
  "repair_loop uids [] = Inr uids"
| "repair_loop uids (ns # nss) =
     (case ns_Annotations ns UIDRangeAnnotation of
        None \<Rightarrow> repair_loop uids nss
      | Some v \<Rightarrow>
          (case ParseBlock v of
             Inl _ \<Rightarrow> repair_loop uids nss
           | Inr b \<Rightarrow>
               (case Allocate uids b of
                  (None, uids') \<Rightarrow> repair_loop uids' nss
                | (Some ErrNotInRange, uids') \<Rightarrow> repair_loop uids' nss
                | (Some ErrAllocated, uids') \<Rightarrow> repair_loop uids' nss
                | (Some ErrFull, uids') \<Rightarrow> Inl RangeIsFull
                | (Some e, uids') \<Rightarrow> Inl (UnknownAllocError b (ns_Name ns) e))))"

definition Repair :: "'w nsc_client \<Rightarrow> nsc \<Rightarrow> 'w \<Rightarrow> nsc_error option \<times> nsc \<times> 'w" where
  "Repair cl c w =
     (let got = ra_Get cl w rangeName; needCreate = (got = Inl NotFound)
      in case (case got of
                 Inl NotFound \<Rightarrow>
                   Inr \<lparr>ra_Name = rangeName, ra_ResourceVersion = 0, ra_Range = [], ra_Data = []\<rparr>
               | Inl e \<Rightarrow> Inl e
               | Inr ra \<Rightarrow> Inr ra) of
           Inl e \<Rightarrow> (Some (ApiErr e), c, w)
         | Inr uidRange \<Rightarrow>
             (case NewInMemory (requiredUIDRange c) of
                Inl e \<Rightarrow> (Some e, c, w)
              | Inr uids \<Rightarrow>
                  (case ns_List cl w of
                     Inl e \<Rightarrow> (Some (ApiErr e), c, w)
                   | Inr nsList \<Rightarrow>
                       (case repair_loop uids nsList of
                          Inl RangeIsFull \<Rightarrow>
                            (Some RangeIsFull, c\<lparr>recorded := recorded c @ [UIDRangeFull]\<rparr>, w)
                        | Inl e \<Rightarrow> (Some e, c, w)
                        | Inr uids' \<Rightarrow>
                            let (rng, data) = Snapshot uids';
                                new = uidRange\<lparr>ra_Range := rng, ra_Data := data\<rparr>
                            in case (if needCreate then ra_Create cl w new else ra_Update cl w new) of
                                 (Inl e, w') \<Rightarrow> (Some (ApiErr e), c, w')
                               | (Inr _, w') \<Rightarrow> (None, c, w')))))"

text \<open>
  \<open>WaitForRepair\<close>: the condition of \<open>wait.PollImmediate\<close> runs at once and then on every tick until
  the timeout. \<open>attempts\<close> is the number of runs left, \<open>ctxDone i\<close> whether the context is done at the
  run with \<open>i\<close> runs left, and \<open>env i\<close> what the rest of the cluster does to the world before it.
\<close>

fun WaitForRepair ::
    "'w nsc_client \<Rightarrow> (nat \<Rightarrow> bool) \<Rightarrow> (nat \<Rightarrow> 'w \<Rightarrow> 'w) \<Rightarrow> nat \<Rightarrow> nsc \<Rightarrow> 'w \<Rightarrow>
     nsc_error option \<times> nsc \<times> 'w" where
  "WaitForRepair cl ctxDone env 0 c w = (Some RepairTimeout, c, w)"
| "WaitForRepair cl ctxDone env (Suc i) c w =
     (if ctxDone i then (None, c, w)
      else case Repair cl c (env i w) of
             (None, c', w') \<Rightarrow> (None, c', w')
           | (Some _, c', w') \<Rightarrow> WaitForRepair cl ctxDone env i c' w')"

section \<open>The sync handler\<close>

datatype sync_outcome = Returned "nsc_error option" | Fatal nsc_error

definition sync ::
    "'w nsc_client \<Rightarrow> (nat \<Rightarrow> bool) \<Rightarrow> (nat \<Rightarrow> 'w \<Rightarrow> 'w) \<Rightarrow> nat \<Rightarrow> string \<Rightarrow> nsc \<Rightarrow> 'w \<Rightarrow>
     sync_outcome \<times> nsc \<times> 'w" where
  "sync cl ctxDone env attempts key c w =
     (if key = initialRepairKey then
        (case WaitForRepair cl ctxDone env attempts c w of
           (Some e, c', w') \<Rightarrow> (Fatal e, c', w')
         | (None, c', w') \<Rightarrow> (Returned None, c', w'))
      else if key = DefaultQueueKey then
        (case Repair cl c w of
           (Some e, c', w') \<Rightarrow> (Returned (Some (PeriodicRepairErr e)), c', w')
         | (None, c', w') \<Rightarrow> (Returned None, c', w'))
      else
        (case parseNamespaceNameKey key of
           None \<Rightarrow> (Returned (Some (BadKey key)), c, w)
         | Some name \<Rightarrow>
             (case syncNamespace cl c w name of (e, c', w') \<Rightarrow> (Returned e, c', w'))))"

section \<open>MCS labels of UID blocks\<close>

definition DefaultMCSAllocation :: "uid_range \<Rightarrow> mcs_range \<Rightarrow> int \<Rightarrow> block \<Rightarrow> label option" where
  "DefaultMCSAllocation from to blockSize b =
     (case Uid.Range_Offset from b of
        None \<Rightarrow> None
      | Some offset \<Rightarrow>
          let offset' = (if blockSize > 0 then offset * word_of_int blockSize else offset)
          in Some (fst (LabelAt to (of_nat (unat offset')))))"


section \<open>Queue keys\<close>

text \<open>A namespace key parses back to the namespace name, for every name the API admits (not empty,
  no slash), and is never taken for one of the two repair keys of \<open>sync\<close>.\<close>

lemma namespace_key_roundtrip:
  assumes "ns \<noteq> []" and "CHR ''/'' \<notin> set ns"
  shows "parseNamespaceNameKey (asNamespaceNameKey ns) = Some ns \<and>
    asNamespaceNameKey ns \<noteq> initialRepairKey \<and> asNamespaceNameKey ns \<noteq> DefaultQueueKey"
proof -
  have "Split CHR ''/'' (''ns'' @ CHR ''/'' # ns) = Split CHR ''/'' ''ns'' @ [ns]"
    by (rule Split_snoc [OF assms(2)])
  then show ?thesis
    using assms(1) by (simp add: parseNamespaceNameKey_def asNamespaceNameKey_def
        namespaceNameKeyPrefix_def initialRepairKey_def DefaultQueueKey_def)
qed

section \<open>The bit scan and the reserved blocks\<close>

lemma next_clear_bit_Some:
  "next_clear_bit x i l = Some n \<longleftrightarrow> i \<le> n \<and> n < i + l \<and> n \<notin> bits x \<and> {i..<n} \<subseteq> bits x"
proof (induction l arbitrary: i)
  case (Suc l)
  show ?case
  proof (cases "i \<in> bits x")
    case True
    then have "{i..<n} \<subseteq> bits x \<longleftrightarrow> {Suc i..<n} \<subseteq> bits x" "i \<le> n \<and> n \<notin> bits x \<longleftrightarrow> Suc i \<le> n \<and> n \<notin> bits x"
      by (auto simp: subset_iff) (metis Suc_leI le_neq_implies_less)+
    with True Suc [of "Suc i"] show ?thesis by (auto simp: bit_iff_bits)
  next
    case False
    then have "{i..<n} \<subseteq> bits x \<longleftrightarrow> n \<le> i" by (auto simp: subset_iff not_less [symmetric])
    with False show ?thesis by (auto simp: bit_iff_bits)
  qed
qed simp

lemma next_clear_bit_None:
  "next_clear_bit x i l = None \<longleftrightarrow> {i..<i + l} \<subseteq> bits x"
proof (induction l arbitrary: i)
  case (Suc l)
  have "{i..<i + Suc l} = insert i {Suc i..<Suc i + l}" by auto
  then show ?case using Suc by (auto simp: bit_iff_bits)
qed simp

text \<open>The blocks whose bits are set in the data of a \<open>RangeAllocation\<close>.\<close>

definition reserved :: "uid_range \<Rightarrow> u8 list \<Rightarrow> block set" where
  "reserved r data =
     {b. \<exists>n. n \<in> bits (big_SetBytes data) \<and> n < blocks r \<and> BlockAt r (of_nat n) = Some b}"

lemma reserved_SetBit:
  assumes "n < blocks r" and "BlockAt r (of_nat n) = Some b"
  shows "reserved r (big_Bytes (SetBit (big_SetBytes data) n True)) = insert b (reserved r data)"
  using assms by (auto simp: reserved_def)

lemma BlockAt_in_range: "n < blocks r \<Longrightarrow> BlockAt r (of_nat n) = Some b \<Longrightarrow> b \<in> in_range r"
  by (auto simp: in_range_def)

lemma BlockAt_reserved:
  assumes "sized_range r" "n < blocks r" "BlockAt r (of_nat n) = Some b"
  shows "b \<in> reserved r data \<longleftrightarrow> n \<in> bits (big_SetBytes data)"
proof
  assume "b \<in> reserved r data"
  then obtain m where m: "m \<in> bits (big_SetBytes data)" "m < blocks r" "BlockAt r (of_nat m) = Some b"
    by (auto simp: reserved_def)
  then have "(of_nat m :: u32) = of_nat n"
    using assms by (intro BlockAt_inj [OF assms(1)]) (simp_all add: unat_of_nat_blocks)
  then have "m = n" using m(2) assms(2) by (metis unat_of_nat_blocks)
  with m(1) show "n \<in> bits (big_SetBytes data)" by simp
qed (use assms in \<open>auto simp: reserved_def\<close>)

lemma Snapshot_reserved:
  assumes "alloc_ok a"
  shows "fst (Snapshot a) = Range_String (al_r a)" "reserved (al_r a) (snd (Snapshot a)) = pool a"
  using assms alloc_ok_taken [OF assms]
  by (auto simp: Snapshot_def bm_Snapshot_def alloc_ok_def reserved_def pool_def)

section \<open>What Repair rebuilds\<close>

text \<open>The block a namespace claims through its annotation.\<close>

definition held :: "namespace \<Rightarrow> block option" where
  "held ns =
     (case ns_Annotations ns UIDRangeAnnotation of
        None \<Rightarrow> None
      | Some v \<Rightarrow> (case ParseBlock v of Inl _ \<Rightarrow> None | Inr b \<Rightarrow> Some b))"

lemma repair_loop_held:
  "repair_loop uids (ns # nss) =
     (case held ns of
        None \<Rightarrow> repair_loop uids nss
      | Some b \<Rightarrow>
          (case Allocate uids b of
             (None, uids') \<Rightarrow> repair_loop uids' nss
           | (Some ErrNotInRange, uids') \<Rightarrow> repair_loop uids' nss
           | (Some ErrAllocated, uids') \<Rightarrow> repair_loop uids' nss
           | (Some ErrFull, uids') \<Rightarrow> Inl RangeIsFull
           | (Some e, uids') \<Rightarrow> Inl (UnknownAllocError b (ns_Name ns) e)))"
  by (simp add: held_def split: option.split sum.split)

declare repair_loop.simps(2) [simp del]

lemma Allocate_al_r: "Allocate a b = (e, a') \<Longrightarrow> al_r a' = al_r a"
  by (auto simp: Allocate_def split: option.splits prod.splits sum.splits bool.splits)

text \<open>A namespace whose annotated block wraps and still passes the range check.\<close>

definition blocks_repair :: "uid_range \<Rightarrow> namespace \<Rightarrow> bool" where
  "blocks_repair r ns =
     (case held ns of None \<Rightarrow> False | Some b \<Rightarrow> wraps b \<and> Range_Offset r b \<noteq> None)"

lemma repair_loop_step:
  assumes "alloc_ok a" "held ns = Some b" "\<not> blocks_repair (al_r a) ns"
  obtains a' where "repair_loop a (ns # nss) = repair_loop a' nss" "alloc_ok a'" "al_r a' = al_r a"
    "pool a' = pool a \<union> {b} \<inter> in_range (al_r a)"
proof (cases "wraps b")
  case True
  then have "Allocate a b = (Some ErrNotInRange, a)"
    using assms(2,3) by (simp add: Allocate_def contains_def blocks_repair_def)
  moreover have "b \<notin> in_range (al_r a)"
    using True assms(1) in_range_not_wraps [of "al_r a" b] by (auto simp: alloc_ok_def)
  ultimately show thesis using that [of a] assms(1,2) by (simp add: repair_loop_held)
next
  case False
  obtain e a' where A: "Allocate a b = (e, a')" by fastforce
  note sp = Allocate_spec [OF assms(1) False A]
  have "e = None \<or> e = Some ErrNotInRange \<or> e = Some ErrAllocated" using sp by (auto split: if_splits)
  then have "repair_loop a (ns # nss) = repair_loop a' nss"
    using assms(2) A by (auto simp: repair_loop_held)
  moreover have "pool a' = pool a \<union> {b} \<inter> in_range (al_r a)"
    using sp pool_subset [OF assms(1)] by (auto split: if_splits)
  ultimately show thesis using that sp Allocate_al_r [OF A] by blast
qed

lemma repair_loop_pool:
  assumes "alloc_ok a" and "\<forall>ns \<in> set nss. \<not> blocks_repair (al_r a) ns"
  shows "\<exists>a'. repair_loop a nss = Inr a' \<and> alloc_ok a' \<and> al_r a' = al_r a \<and>
    pool a' = pool a \<union> {b \<in> in_range (al_r a). \<exists>ns \<in> set nss. held ns = Some b}"
  using assms
proof (induction nss arbitrary: a)
  case (Cons ns nss)
  show ?case
  proof (cases "held ns")
    case None
    then show ?thesis using Cons by (auto simp: repair_loop_held)
  next
    case (Some b)
    have "\<not> blocks_repair (al_r a) ns" using Cons.prems(2) by simp
    from repair_loop_step [OF Cons.prems(1) Some this, of nss] obtain a1 where
      "repair_loop a (ns # nss) = repair_loop a1 nss" "alloc_ok a1" "al_r a1 = al_r a"
      "pool a1 = pool a \<union> {b} \<inter> in_range (al_r a)" by metis
    with Cons.IH [of a1] Cons.prems(2) Some show ?thesis by auto
  qed
qed simp

lemma repair_loop_wrap:
  assumes "alloc_ok a" and "ns \<in> set nss" "held ns = Some b" "wraps b" "Range_Offset (al_r a) b \<noteq> None"
  shows "\<exists>b' name e. repair_loop a nss = Inl (UnknownAllocError b' name (BitmapErr e))"
  using assms(1,2,5)
proof (induction nss arbitrary: a)
  case (Cons m nss)
  show ?case
  proof (cases "held m")
    case None
    then show ?thesis using Cons assms(3) by (auto simp: repair_loop_held)
  next
    case (Some d)
    show ?thesis
    proof (cases "wraps d \<and> Range_Offset (al_r a) d \<noteq> None")
      case True
      then obtain off where "Range_Offset (al_r a) d = Some off" by auto
      from Allocate_wrap [OF Cons.prems(1) _ this] True Some show ?thesis
        by (simp add: repair_loop_held)
    next
      case False
      then obtain e a' where "Allocate a d = (e, a')" "e = None \<or> e = Some ErrNotInRange \<or> e = Some ErrAllocated"
        "alloc_ok a'" "al_r a' = al_r a"
        using Allocate_errors [OF Cons.prems(1)] by metis
      moreover have "m \<noteq> ns" using False assms(3,4) Some Cons.prems(3) by auto
      ultimately show ?thesis using Cons Some by (auto simp: repair_loop_held)
    qed
  qed
qed simp

text \<open>The \<open>RangeAllocation\<close> that \<open>Repair\<close> starts from: the stored one, or a fresh one to create.\<close>

definition repair_base :: "api_error + range_allocation \<Rightarrow> range_allocation" where
  "repair_base got =
     (case got of
        Inr ra \<Rightarrow> ra
      | Inl _ \<Rightarrow> \<lparr>ra_Name = rangeName, ra_ResourceVersion = 0, ra_Range = [], ra_Data = []\<rparr>)"

definition repair_write :: "'w nsc_client \<Rightarrow> 'w \<Rightarrow> range_allocation \<Rightarrow> (api_error + range_allocation) \<times> 'w" where
  "repair_write cl w new =
     (if ra_Get cl w rangeName = Inl NotFound then ra_Create cl w new else ra_Update cl w new)"

lemma Repair_run:
  assumes "sized_range (requiredUIDRange c)"
    and "ra_Get cl w rangeName = Inl NotFound \<or> (\<exists>ra. ra_Get cl w rangeName = Inr ra)"
    and "ns_List cl w = Inr nss"
    and "\<forall>ns \<in> set nss. \<not> blocks_repair (requiredUIDRange c) ns"
  obtains data where
    "reserved (requiredUIDRange c) data =
       {b \<in> in_range (requiredUIDRange c). \<exists>ns \<in> set nss. held ns = Some b}"
    "Repair cl c w =
       (case repair_write cl w ((repair_base (ra_Get cl w rangeName))
                \<lparr>ra_Range := Range_String (requiredUIDRange c), ra_Data := data\<rparr>) of
          (Inl e, w') \<Rightarrow> (Some (ApiErr e), c, w')
        | (Inr _, w') \<Rightarrow> (None, c, w'))"
proof -
  obtain a where a: "(NewInMemory (requiredUIDRange c) :: nsc_error + allocator) = Inr a"
    "alloc_ok a" "pool a = {}" "al_r a = requiredUIDRange c"
    by (rule NewInMemory_ok [OF assms(1)])
  from repair_loop_pool [OF a(2), of nss] assms(4) a(4) obtain a' where a': "repair_loop a nss = Inr a'"
    "alloc_ok a'" "al_r a' = requiredUIDRange c"
    "pool a' = {b \<in> in_range (requiredUIDRange c). \<exists>ns \<in> set nss. held ns = Some b}"
    using a(3,4) by auto
  obtain data where sn: "Snapshot a' = (Range_String (requiredUIDRange c), data)"
    using Snapshot_reserved(1) [OF a'(2)] a'(3) by (metis prod.collapse)
  have "reserved (requiredUIDRange c) data = pool a'"
    using Snapshot_reserved(2) [OF a'(2)] a'(3) sn by simp
  moreover have "Repair cl c w =
       (case repair_write cl w ((repair_base (ra_Get cl w rangeName))
                \<lparr>ra_Range := Range_String (requiredUIDRange c), ra_Data := data\<rparr>) of
          (Inl e, w') \<Rightarrow> (Some (ApiErr e), c, w')
        | (Inr _, w') \<Rightarrow> (None, c, w'))"
    using assms(2,3) a(1) a'(1) sn by (auto simp: Repair_def repair_write_def repair_base_def)
  ultimately show thesis using that a'(4) by simp
qed


lemma Repair_blocked:
  assumes "sized_range (requiredUIDRange c)" "ns_List cl w = Inr nss"
    and "ns \<in> set nss" "blocks_repair (requiredUIDRange c) ns"
  obtains e where "Repair cl c w = (Some e, c, w)"
proof -
  obtain a where a: "(NewInMemory (requiredUIDRange c) :: nsc_error + allocator) = Inr a"
    "alloc_ok a" "al_r a = requiredUIDRange c"
    by (rule NewInMemory_ok [OF assms(1)])
  obtain b where b: "held ns = Some b" "wraps b" "Range_Offset (requiredUIDRange c) b \<noteq> None"
    using assms(4) by (auto simp: blocks_repair_def split: option.splits)
  obtain d name e where "repair_loop a nss = Inl (UnknownAllocError d name (BitmapErr e))"
    using repair_loop_wrap [OF a(2) assms(3) b(1,2)] b(3) a(3) by auto
  then have "\<exists>e. Repair cl c w = (Some e, c, w)"
    using assms(2) a(1) by (auto simp: Repair_def Let_def split: sum.split api_error.split)
  then show thesis using that by blast
qed

lemma WaitForRepair_blocked:
  assumes "\<And>i. \<not> ctxDone i" "sized_range (requiredUIDRange c)"
    and "\<And>w. \<exists>nss. ns_List cl w = Inr nss \<and> (\<exists>ns \<in> set nss. blocks_repair (requiredUIDRange c) ns)"
  shows "\<exists>w'. WaitForRepair cl ctxDone env attempts c w = (Some RepairTimeout, c, w')"
proof (induction attempts arbitrary: w)
  case (Suc i)
  obtain nss ns where "ns_List cl (env i w) = Inr nss" "ns \<in> set nss"
    "blocks_repair (requiredUIDRange c) ns" using assms(3) by blast
  then obtain e where "Repair cl c (env i w) = (Some e, c, env i w)"
    by (rule Repair_blocked [OF assms(2)])
  with Suc [of "env i w"] assms(1) show ?case by simp
qed simp

text \<open>C38: One namespace annotation stops the controller: while some listed namespace claims a block that
  ends past \<open>2\<^sup>3\<^sup>2\<close> and passes the range check by wrapping around, every repair fails without writing,
  so the initial repair runs into its timeout and \<open>sync\<close> ends the process, whatever else happens in
  the cluster meanwhile.\<close>

theorem initial_repair_fatal:
  assumes "sized_range (requiredUIDRange c)" and "\<forall>i. \<not> ctxDone i"
    and "\<forall>w. \<exists>nss. ns_List cl w = Inr nss \<and> (\<exists>ns \<in> set nss. blocks_repair (requiredUIDRange c) ns)"
  shows "fst (sync cl ctxDone env attempts initialRepairKey c w) = Fatal RepairTimeout"
proof -
  obtain w' where "WaitForRepair cl ctxDone env attempts c w = (Some RepairTimeout, c, w')"
    using WaitForRepair_blocked [of ctxDone c cl env attempts w] assms by blast
  then show ?thesis by (simp add: sync_def)
qed

section \<open>MCS labels\<close>

lemma DefaultMCSAllocation_LabelAt:
  assumes "sized_range from" "n < blocks from" "0 < blockSize"
    and "blocks from * nat blockSize \<le> 2 ^ 32"
  shows "DefaultMCSAllocation from to blockSize (nth_block from n) =
    Some (fst (LabelAt to (of_nat (n * nat blockSize))))"
proof -
  have off: "Range_Offset from (nth_block from n) = Some (of_nat n)"
    using Offset_BlockAt [OF assms(1), of "of_nat n"] BlockAt_nth_block [OF assms(1,2)] assms(2)
    by (auto simp: unat_of_nat_blocks)
  have "n * nat blockSize < blocks from * nat blockSize" using assms(2,3) by simp
  from order_less_le_trans [OF this assms(4)] have lt: "n * nat blockSize < 4294967296" by simp
  have "(word_of_int blockSize :: u32) = of_nat (nat blockSize)" using assms(3) by simp
  then have "(of_nat n :: u32) * word_of_int blockSize = of_nat (n * nat blockSize)" by simp
  then have "unat ((of_nat n :: u32) * word_of_int blockSize) = n * nat blockSize"
    using unat_of_nat_u32 [OF lt] by metis
  then show ?thesis using assms(3) off by (simp add: DefaultMCSAllocation_def Let_def)
qed

lemma mcs_labels_distinct:
  assumes "sized_range from" and "valid_mcs to" and "0 < blockSize"
    and "mr_prefix to = [] \<or> HasSuffix (mr_prefix to) '':'' \<or> HasSuffix (mr_prefix to) '',''"
    and "blocks from * nat blockSize \<le> 2 ^ 32"
    and "blocks from * nat blockSize \<le> unat (McsRange_Size to)"
    and "b1 \<in> in_range from" and "b2 \<in> in_range from" and "b1 \<noteq> b2"
  shows "\<exists>l1 l2. DefaultMCSAllocation from to blockSize b1 = Some l1 \<and>
    DefaultMCSAllocation from to blockSize b2 = Some l2 \<and>
    McsRange_Contains to l1 \<and> McsRange_Contains to l2 \<and> l1 \<noteq> l2"
proof -
  have lab: "McsRange_Contains to (fst (LabelAt to (of_nat (n * nat blockSize)))) \<and>
      McsRange_Offset to (fst (LabelAt to (of_nat (n * nat blockSize)))) = (True, of_nat (n * nat blockSize)) \<and>
      unat (of_nat (n * nat blockSize) :: u64) = n * nat blockSize"
    if "n < blocks from" for n
  proof -
    have "n * nat blockSize < blocks from * nat blockSize" using that assms(3) by simp
    then have lt: "n * nat blockSize < 2 ^ 32" "n * nat blockSize < unat (McsRange_Size to)"
      using assms(5,6) by linarith+
    then have u: "unat (of_nat (n * nat blockSize) :: u64) = n * nat blockSize"
      by (intro unat_of_nat_u64) simp
    with lt(2) have "(of_nat (n * nat blockSize) :: u64) < McsRange_Size to"
      by (simp only: word_less_nat_alt)
    from LabelAt_roundtrip [OF assms(2) this assms(4)] u show ?thesis by simp
  qed
  obtain m n where mn: "m < blocks from" "n < blocks from" "b1 = nth_block from m" "b2 = nth_block from n"
    using in_range_nth_block [OF assms(7)] in_range_nth_block [OF assms(8)] by blast
  have "m * nat blockSize \<noteq> n * nat blockSize" using assms(3,9) mn(3,4) by auto
  then have "fst (LabelAt to (of_nat (m * nat blockSize))) \<noteq> fst (LabelAt to (of_nat (n * nat blockSize)))"
    using lab [OF mn(1)] lab [OF mn(2)] by (metis prod.inject)
  then show ?thesis
    using DefaultMCSAllocation_LabelAt [OF assms(1) _ assms(3,5)] lab mn by blast
qed

section \<open>Allocation, branch by branch\<close>

text \<open>C17: An allocation whose API calls succeed grants the first free block: with a range object for the
  required range (cached, or read when nothing is cached) whose first clear bit is \<open>n\<close>, \<open>allocate\<close>
  stores the object with that one bit set, applies the annotations of block \<open>n\<close> of the range to the
  namespace at the resource version it was read at, keeps the stored object for the next call and
  records one event.\<close>

theorem allocate_grants_first_free:
  assumes "sized_range (requiredUIDRange c)"
    and "currentUIDRangeAllocation c = Some cur \<or>
      (currentUIDRangeAllocation c = None \<and> ra_Get cl w rangeName = Inr cur)"
    and "ra_Range cur = Range_String (requiredUIDRange c)"
    and "n < blocks (requiredUIDRange c)" and "n \<notin> bits (big_SetBytes (ra_Data cur))"
    and "{0..<n} \<subseteq> bits (big_SetBytes (ra_Data cur))"
    and "bits (big_SetBytes data) = insert n (bits (big_SetBytes (ra_Data cur)))"
    and "data = big_Bytes (big_SetBytes data)"
    and "ra_Update cl w (cur\<lparr>ra_Data := data\<rparr>) = (Inr actual, w1)"
    and "ns_Apply cl w1 (scc_patch c ns (nth_block (requiredUIDRange c) n)) fieldManager = (Inr m, w2)"
  shows "allocate cl c w ns =
    (None, c\<lparr>currentUIDRangeAllocation := Some actual,
             recorded := recorded c @ [CreatedSCCRanges (ns_Name ns)]\<rparr>, w2)"
proof -
  have "bits (SetBit (big_SetBytes (ra_Data cur)) n True) = bits (big_SetBytes data)"
    using assms(7) by simp
  then have d: "big_Bytes (SetBit (big_SetBytes (ra_Data cur)) n True) = data"
    using assms(8) by (metis bits_eq_iff)
  have p: "ParseRange (ra_Range cur) = Inr (requiredUIDRange c)"
    using assms(1,3) by (simp add: ParseRange_String sized_range_def)
  have bi: "allocateNextContiguousBit (big_SetBytes (ra_Data cur)) (blocks (requiredUIDRange c)) = Some n"
    using assms(4-6) by (simp add: allocateNextContiguousBit_def next_clear_bit_Some)
  have at: "BlockAt (requiredUIDRange c) (of_nat n) = Some (nth_block (requiredUIDRange c) n)"
    by (rule BlockAt_nth_block [OF assms(1,4)])
  show ?thesis
    using assms(2) assms(9,10) by (auto simp: allocate_def Let_def p bi d at)
qed

text \<open>C24: Any other outcome drops the cached range object: if the object is still cached after
  \<open>allocate\<close>, the call returned no error and recorded its one event; when the object is full or belongs
  to another range, or the range object cannot be read, the call fails without writing anything.\<close>

theorem allocate_failure_forgets:
  assumes "allocate cl c w ns = (e, c', w')"
  shows "(currentUIDRangeAllocation c' \<noteq> None \<longrightarrow>
      e = None \<and> recorded c' = recorded c @ [CreatedSCCRanges (ns_Name ns)]) \<and>
    (currentUIDRangeAllocation c = Some cur \<and>
       {0..<blocks (requiredUIDRange c)} \<subseteq> bits (big_SetBytes (ra_Data cur)) \<longrightarrow>
       e \<noteq> None \<and> c' = forget c \<and> w' = w) \<and>
    (currentUIDRangeAllocation c = None \<and> ra_Get cl w rangeName = Inl err \<longrightarrow>
       e = Some (ApiErr err) \<and> c' = forget c \<and> w' = w)"
proof (intro conjI impI)
  assume "currentUIDRangeAllocation c' \<noteq> None"
  then show "e = None" "recorded c' = recorded c @ [CreatedSCCRanges (ns_Name ns)]"
    using assms unfolding allocate_def Let_def
    by (auto simp: forget_def split: sum.splits option.splits if_splits prod.splits api_error.splits)
next
  assume "currentUIDRangeAllocation c = Some cur \<and>
       {0..<blocks (requiredUIDRange c)} \<subseteq> bits (big_SetBytes (ra_Data cur))"
  then have "currentUIDRangeAllocation c = Some cur"
    "allocateNextContiguousBit (big_SetBytes (ra_Data cur)) (blocks (requiredUIDRange c)) = None"
    by (auto simp: allocateNextContiguousBit_def next_clear_bit_None)
  then show "e \<noteq> None" "c' = forget c" "w' = w"
    using assms unfolding allocate_def Let_def by (auto split: sum.splits if_splits)
next
  assume "currentUIDRangeAllocation c = None \<and> ra_Get cl w rangeName = Inl err"
  then show "e = Some (ApiErr err)" "c' = forget c" "w' = w"
    using assms by (auto simp: allocate_def)
qed

end
