(* ===== verification/Scc_Safety.thy ===== *)
theory Scc_Safety
  imports Scc_Allocation
begin

text \<open>
  Exclusive UID blocks: the allocation controller of theory \<open>Scc_Allocation\<close> running against the API
  server, as a step relation on (controller state, world). What the server promises is stated by
  \<open>api_laws\<close> over a view of the world (the stored range allocation, the stored namespaces, the store's
  revision counter): reads of the stored object, optimistic concurrency through resource versions on
  update and apply, and calls that fail either before or after the write was committed. Namespace
  reads go through the lister, which may be stale.
\<close>

section \<open>What the API server promises\<close>

record 'w api_view =
  stored_range :: "'w \<Rightarrow> range_allocation option"
  stored_ns :: "'w \<Rightarrow> string \<Rightarrow> namespace option"
  revision :: "'w \<Rightarrow> nat"

definition unchanged :: "'w api_view \<Rightarrow> 'w \<Rightarrow> 'w \<Rightarrow> bool" where
  "unchanged v w w' \<longleftrightarrow> stored_range v w' = stored_range v w \<and> stored_ns v w' = stored_ns v w \<and>
     revision v w \<le> revision v w'"

text \<open>\<open>x\<close> is now stored, at a new revision, and the answer is the stored object or a lost answer.\<close>

definition written :: "'w api_view \<Rightarrow> range_allocation \<Rightarrow> api_error + range_allocation \<Rightarrow> 'w \<Rightarrow> 'w \<Rightarrow> bool" where
  "written v x res w w' \<longleftrightarrow> revision v w < revision v w' \<and> stored_ns v w' = stored_ns v w \<and>
     stored_range v w' = Some (x\<lparr>ra_ResourceVersion := revision v w'\<rparr>) \<and>
     (isl res \<or> res = Inr (x\<lparr>ra_ResourceVersion := revision v w'\<rparr>))"

definition get_law :: "'w nsc_client \<Rightarrow> 'w api_view \<Rightarrow> bool" where
  "get_law cl v \<longleftrightarrow> (\<forall>w y. ra_Get cl w rangeName = Inr y \<longrightarrow> stored_range v w = Some y)"

definition update_law :: "'w nsc_client \<Rightarrow> 'w api_view \<Rightarrow> bool" where
  "update_law cl v \<longleftrightarrow> (\<forall>w x res w'. ra_Update cl w x = (res, w') \<longrightarrow>
     (isl res \<and> unchanged v w w') \<or>
     (written v x res w w' \<and>
      (\<exists>y. stored_range v w = Some y \<and> ra_ResourceVersion y = ra_ResourceVersion x)))"

definition create_law :: "'w nsc_client \<Rightarrow> 'w api_view \<Rightarrow> bool" where
  "create_law cl v \<longleftrightarrow> (\<forall>w x res w'. ra_Create cl w x = (res, w') \<longrightarrow>
     (isl res \<and> unchanged v w w') \<or> (written v x res w w' \<and> stored_range v w = None))"

definition apply_law :: "'w nsc_client \<Rightarrow> 'w api_view \<Rightarrow> bool" where
  "apply_law cl v \<longleftrightarrow> (\<forall>w p res w'. ns_Apply cl w p fieldManager = (res, w') \<longrightarrow>
     (isl res \<and> unchanged v w w') \<or>
     (revision v w \<le> revision v w' \<and> stored_range v w' = stored_range v w \<and>
      (\<exists>m m'. stored_ns v w (na_Name p) = Some m \<and>
         (\<forall>rv. na_ResourceVersion p = Some rv \<longrightarrow> rv = ns_ResourceVersion m) \<and>
         stored_ns v w' = (stored_ns v w)(na_Name p \<mapsto> m') \<and>
         (\<forall>k x. na_Annotations p k = Some x \<longrightarrow> ns_Annotations m' k = Some x))))"

text \<open>A lister may lag, but what it returns at the stored resource version is the stored object.\<close>

definition lister_law :: "'w nsc_client \<Rightarrow> 'w api_view \<Rightarrow> bool" where
  "lister_law cl v \<longleftrightarrow> (\<forall>w name n. ns_Get cl w name = Inr n \<longrightarrow> ns_Name n = name \<and>
     (\<forall>m. stored_ns v w name = Some m \<and> ns_ResourceVersion m = ns_ResourceVersion n \<longrightarrow> m = n))"

definition api_laws :: "'w nsc_client \<Rightarrow> 'w api_view \<Rightarrow> bool" where
  "api_laws cl v \<longleftrightarrow> get_law cl v \<and> update_law cl v \<and> create_law cl v \<and> apply_law cl v \<and> lister_law cl v"

lemma api_laws_D:
  assumes "api_laws cl v"
  shows "get_law cl v" "update_law cl v" "create_law cl v" "apply_law cl v" "lister_law cl v"
  using assms by (simp_all add: api_laws_def)

section \<open>The controller in the cluster\<close>

text \<open>
  Between two handlers the rest of the cluster may create, change and delete namespaces, but hands
  out no UID annotation; and a repair reads a namespace list that is not behind the range object it
  read (the ordering guarantee the comment in \<open>Repair\<close> asks for).
\<close>

definition cluster_change :: "'w api_view \<Rightarrow> 'w \<Rightarrow> 'w \<Rightarrow> bool" where
  "cluster_change v w w' \<longleftrightarrow> stored_range v w' = stored_range v w \<and> revision v w \<le> revision v w' \<and>
     (\<forall>n m' b. stored_ns v w' n = Some m' \<and> held m' = Some b \<longrightarrow>
        (\<exists>m. stored_ns v w n = Some m \<and> held m = Some b))"

definition fresh_list :: "'w nsc_client \<Rightarrow> 'w api_view \<Rightarrow> 'w \<Rightarrow> bool" where
  "fresh_list cl v w \<longleftrightarrow>
     (\<forall>nss n m. ns_List cl w = Inr nss \<and> stored_ns v w n = Some m \<longrightarrow> m \<in> set nss)"

inductive nsc_step :: "'w nsc_client \<Rightarrow> 'w api_view \<Rightarrow> nsc \<times> 'w \<Rightarrow> nsc \<times> 'w \<Rightarrow> bool"
  for cl v where
  namespace_synced: "syncNamespace cl c w name = (e, c', w') \<Longrightarrow> nsc_step cl v (c, w) (c', w')"
| repaired: "Repair cl c w = (e, c', w') \<Longrightarrow> fresh_list cl v w \<Longrightarrow> nsc_step cl v (c, w) (c', w')"
| cluster: "cluster_change v w w' \<Longrightarrow> nsc_step cl v (c, w) (c, w')"

definition claimed :: "'w api_view \<Rightarrow> uid_range \<Rightarrow> 'w \<Rightarrow> block set" where
  "claimed v r w = {b \<in> in_range r. \<exists>n m. stored_ns v w n = Some m \<and> held m = Some b}"

definition stored_ok :: "'w api_view \<Rightarrow> 'w \<Rightarrow> bool" where
  "stored_ok v w \<longleftrightarrow> (\<forall>y. stored_range v w = Some y \<longrightarrow> ra_ResourceVersion y \<le> revision v w)"

definition cache_ok :: "'w api_view \<Rightarrow> nsc \<Rightarrow> 'w \<Rightarrow> bool" where
  "cache_ok v c w \<longleftrightarrow> (\<forall>x. currentUIDRangeAllocation c = Some x \<longrightarrow> ra_ResourceVersion x \<le> revision v w \<and>
     (\<forall>y. stored_range v w = Some y \<and> ra_ResourceVersion y = ra_ResourceVersion x \<longrightarrow> y = x))"

text \<open>Every claimed block is reserved in the stored bitmap, if that is one of the required range.\<close>

definition covered :: "'w api_view \<Rightarrow> uid_range \<Rightarrow> 'w \<Rightarrow> bool" where
  "covered v r w \<longleftrightarrow> (\<forall>y. stored_range v w = Some y \<and> ParseRange (ra_Range y) = Inr r \<longrightarrow>
     claimed v r w \<subseteq> reserved r (ra_Data y))"

definition exclusive :: "'w api_view \<Rightarrow> uid_range \<Rightarrow> 'w \<Rightarrow> bool" where
  "exclusive v r w \<longleftrightarrow> (\<forall>n1 n2 m1 m2 b. stored_ns v w n1 = Some m1 \<and> stored_ns v w n2 = Some m2 \<and>
     held m1 = Some b \<and> held m2 = Some b \<and> b \<in> in_range r \<longrightarrow> n1 = n2)"

definition nsc_inv :: "'w api_view \<Rightarrow> uid_range \<Rightarrow> nsc \<times> 'w \<Rightarrow> bool" where
  "nsc_inv v r s \<longleftrightarrow> (case s of (c, w) \<Rightarrow> requiredUIDRange c = r \<and> sized_range r \<and> stored_ok v w \<and>
     cache_ok v c w \<and> covered v r w \<and> exclusive v r w)"

section \<open>What one handler does to the world\<close>

lemma held_String: "ns_Annotations m UIDRangeAnnotation = Some (Block_String b) \<Longrightarrow> held m = Some b"
  by (simp add: held_def ParseBlock_String)

lemma scc_patch_simps [simp]:
  "na_Name (scc_patch c ns b) = ns_Name ns"
  "na_ResourceVersion (scc_patch c ns b) = Some (ns_ResourceVersion ns)"
  "na_Annotations (scc_patch c ns b) UIDRangeAnnotation = Some (Block_String b)"
  by (simp_all add: scc_patch_def Let_def split: option.split)

lemma unchanged_refl [simp]: "unchanged v w w"
  by (simp add: unchanged_def)

text \<open>The calls that \<open>allocate\<close> makes: none, an update that fails, or an update and an apply.\<close>

lemma allocate_calls:
  assumes "allocate cl c w ns = (e, c', w')" and "sized_range (requiredUIDRange c)"
  obtains (none) "w' = w" "c' = forget c"
  | (update) cur n b res w1 where
      "currentUIDRangeAllocation c = Some cur \<or>
         (currentUIDRangeAllocation c = None \<and> ra_Get cl w rangeName = Inr cur)"
      "ParseRange (ra_Range cur) = Inr (requiredUIDRange c)"
      "n < blocks (requiredUIDRange c)" "n \<notin> bits (big_SetBytes (ra_Data cur))"
      "BlockAt (requiredUIDRange c) (of_nat n) = Some b"
      "ra_Update cl w (cur\<lparr>ra_Data := big_Bytes (SetBit (big_SetBytes (ra_Data cur)) n True)\<rparr>) = (res, w1)"
      "(\<exists>err. res = Inl err \<and> w' = w1 \<and> c' = forget c) \<or>
       (\<exists>actual res2. res = Inr actual \<and> ns_Apply cl w1 (scc_patch c ns b) fieldManager = (res2, w') \<and>
          (c' = forget c \<or> c' = c\<lparr>currentUIDRangeAllocation := Some actual,
             recorded := recorded c @ [CreatedSCCRanges (ns_Name ns)]\<rparr>))"
proof -
  let ?r = "requiredUIDRange c"
  consider (early) "w' = w" "c' = forget c"
  | (go) cur n where
      "(case currentUIDRangeAllocation c of Some ra \<Rightarrow> Inr ra | None \<Rightarrow> ra_Get cl w rangeName) = Inr cur"
      "ParseRange (ra_Range cur) = Inr ?r"
      "allocateNextContiguousBit (big_SetBytes (ra_Data cur)) (blocks ?r) = Some n"
    using assms(1) unfolding allocate_def Let_def
    by (auto split: sum.splits if_splits option.splits prod.splits)
  then show thesis
  proof cases
    case early
    then show thesis by (rule none)
  next
    case go
    then have n: "n < blocks ?r" "n \<notin> bits (big_SetBytes (ra_Data cur))"
      by (auto simp: allocateNextContiguousBit_def next_clear_bit_Some)
    have b: "BlockAt ?r (of_nat n) = Some (nth_block ?r n)" by (rule BlockAt_nth_block [OF assms(2) n(1)])
    obtain res w1 where u: "ra_Update cl w (cur\<lparr>ra_Data :=
        big_Bytes (SetBit (big_SetBytes (ra_Data cur)) n True)\<rparr>) = (res, w1)" by fastforce
    have "currentUIDRangeAllocation c = Some cur \<or>
        (currentUIDRangeAllocation c = None \<and> ra_Get cl w rangeName = Inr cur)"
      using go(1) by (auto split: option.splits)
    moreover have "(\<exists>err. res = Inl err \<and> w' = w1 \<and> c' = forget c) \<or>
       (\<exists>actual res2. res = Inr actual \<and>
          ns_Apply cl w1 (scc_patch c ns (nth_block ?r n)) fieldManager = (res2, w') \<and>
          (c' = forget c \<or> c' = c\<lparr>currentUIDRangeAllocation := Some actual,
             recorded := recorded c @ [CreatedSCCRanges (ns_Name ns)]\<rparr>))"
      using assms(1) go b u unfolding allocate_def Let_def
      by (auto split: sum.splits prod.splits api_error.splits)
    ultimately show thesis using update go(2) n b u by blast
  qed
qed

text \<open>One more block is reserved in the stored range object.\<close>

definition reserves :: "'w api_view \<Rightarrow> uid_range \<Rightarrow> block \<Rightarrow> range_allocation \<Rightarrow> 'w \<Rightarrow> 'w \<Rightarrow> bool" where
  "reserves v r b y' w w' \<longleftrightarrow> (\<exists>y. stored_range v w = Some y \<and> ParseRange (ra_Range y) = Inr r \<and>
     b \<in> in_range r - reserved r (ra_Data y) \<and> stored_range v w' = Some y' \<and>
     ra_Range y' = ra_Range y \<and> reserved r (ra_Data y') = insert b (reserved r (ra_Data y)) \<and>
     revision v w < ra_ResourceVersion y' \<and> ra_ResourceVersion y' \<le> revision v w')"

definition grants :: "'w api_view \<Rightarrow> string \<Rightarrow> nat \<Rightarrow> block \<Rightarrow> 'w \<Rightarrow> 'w \<Rightarrow> bool" where
  "grants v name rv b w w' \<longleftrightarrow> (\<exists>m m'. stored_ns v w name = Some m \<and> ns_ResourceVersion m = rv \<and>
     stored_ns v w' = (stored_ns v w)(name \<mapsto> m') \<and> held m' = Some b)"

lemma update_reserves:
  assumes "update_law cl v" "sized_range r"
    and src: "\<forall>y. stored_range v w = Some y \<and> ra_ResourceVersion y = ra_ResourceVersion cur \<longrightarrow> y = cur"
    and "ParseRange (ra_Range cur) = Inr r" "n < blocks r" "n \<notin> bits (big_SetBytes (ra_Data cur))"
    and b: "BlockAt r (of_nat n) = Some b"
    and u: "ra_Update cl w (cur\<lparr>ra_Data := big_Bytes (SetBit (big_SetBytes (ra_Data cur)) n True)\<rparr>) = (res, w1)"
  shows "(isl res \<and> unchanged v w w1) \<or>
    (stored_ns v w1 = stored_ns v w \<and> (\<exists>y'. reserves v r b y' w w1 \<and> (isl res \<or> res = Inr y')))"
proof -
  let ?x = "cur\<lparr>ra_Data := big_Bytes (SetBit (big_SetBytes (ra_Data cur)) n True)\<rparr>"
  let ?y' = "?x\<lparr>ra_ResourceVersion := revision v w1\<rparr>"
  have "(isl res \<and> unchanged v w w1) \<or> (written v ?x res w w1 \<and>
      (\<exists>y. stored_range v w = Some y \<and> ra_ResourceVersion y = ra_ResourceVersion cur))"
    using assms(1) u unfolding update_law_def by fastforce
  moreover have "reserves v r b ?y' w w1" if "written v ?x res w w1" "stored_range v w = Some cur"
    using that assms(4,5) BlockAt_in_range [OF assms(5) b] reserved_SetBit [OF assms(5) b]
      BlockAt_reserved [OF assms(2,5) b] assms(6)
    by (auto simp: reserves_def written_def)
  ultimately show ?thesis using src by (auto simp: written_def)
qed

lemma allocate_world:
  assumes laws: "api_laws cl v" and sz: "sized_range (requiredUIDRange c)" and "cache_ok v c w"
    and al: "allocate cl c w ns = (e, c', w')"
  shows "(unchanged v w w' \<and> c' = forget c) \<or>
    (\<exists>b y'. reserves v (requiredUIDRange c) b y' w w' \<and>
       (c' = forget c \<or> (currentUIDRangeAllocation c' = Some y' \<and> requiredUIDRange c' = requiredUIDRange c)) \<and>
       (stored_ns v w' = stored_ns v w \<or> grants v (ns_Name ns) (ns_ResourceVersion ns) b w w'))"
  using al sz
proof (cases rule: allocate_calls)
  case none
  then show ?thesis by simp
next
  case (update cur n b res w1)
  let ?r = "requiredUIDRange c"
  have src: "\<forall>y. stored_range v w = Some y \<and> ra_ResourceVersion y = ra_ResourceVersion cur \<longrightarrow> y = cur"
    using update(1) assms(3) api_laws_D(1) [OF laws] by (auto simp: cache_ok_def get_law_def)
  note U = update_reserves [OF api_laws_D(2) [OF laws] sz src update(2-6)]
  from update(7) show ?thesis
  proof
    assume "\<exists>err. res = Inl err \<and> w' = w1 \<and> c' = forget c"
    with U show ?thesis by auto
  next
    assume "\<exists>actual res2. res = Inr actual \<and>
      ns_Apply cl w1 (scc_patch c ns b) fieldManager = (res2, w') \<and>
      (c' = forget c \<or> c' = c\<lparr>currentUIDRangeAllocation := Some actual,
             recorded := recorded c @ [CreatedSCCRanges (ns_Name ns)]\<rparr>)"
    then obtain actual res2 where res: "res = Inr actual"
      and ap: "ns_Apply cl w1 (scc_patch c ns b) fieldManager = (res2, w')"
      and c': "c' = forget c \<or> c' = c\<lparr>currentUIDRangeAllocation := Some actual,
             recorded := recorded c @ [CreatedSCCRanges (ns_Name ns)]\<rparr>" by blast
    from U res have w1: "stored_ns v w1 = stored_ns v w" "reserves v ?r b actual w w1" by auto
    have "(unchanged v w1 w' \<or> (revision v w1 \<le> revision v w' \<and> stored_range v w' = stored_range v w1 \<and>
        grants v (ns_Name ns) (ns_ResourceVersion ns) b w1 w'))"
      using api_laws_D(4) [OF laws] ap unfolding apply_law_def grants_def
      by (fastforce intro: held_String)
    then have "reserves v ?r b actual w w' \<and>
        (stored_ns v w' = stored_ns v w \<or> grants v (ns_Name ns) (ns_ResourceVersion ns) b w w')"
      using w1 by (auto simp: unchanged_def reserves_def grants_def)
    moreover have "c' = forget c \<or>
        (currentUIDRangeAllocation c' = Some actual \<and> requiredUIDRange c' = requiredUIDRange c)"
      using c' by auto
    ultimately show ?thesis by blast
  qed
qed

text \<open>A repair writes nothing, or the blocks claimed by the namespaces it listed.\<close>

definition can_repair :: "'w nsc_client \<Rightarrow> nsc \<Rightarrow> 'w \<Rightarrow> namespace list \<Rightarrow> bool" where
  "can_repair cl c w nss \<longleftrightarrow> ns_List cl w = Inr nss \<and> (\<forall>ns \<in> set nss. \<not> blocks_repair (requiredUIDRange c) ns) \<and>
     (ra_Get cl w rangeName = Inl NotFound \<or> (\<exists>ra. ra_Get cl w rangeName = Inr ra))"

lemma Repair_idle:
  assumes sz: "sized_range (requiredUIDRange c)" and R: "Repair cl c w = (e, c', w')" and no: "\<nexists>nss. can_repair cl c w nss"
  shows "w' = w \<and> e \<noteq> None \<and> c'\<lparr>recorded := recorded c\<rparr> = c"
proof (cases "ns_List cl w")
  case (Inr nss)
  show ?thesis
  proof (cases "\<exists>ns \<in> set nss. blocks_repair (requiredUIDRange c) ns")
    case True
    then obtain ns where "ns \<in> set nss" "blocks_repair (requiredUIDRange c) ns" by blast
    from Repair_blocked [OF sz Inr this] obtain e' where "Repair cl c w = (Some e', c, w)" .
    with R show ?thesis by auto
  next
    case nb: False
    then obtain er where "ra_Get cl w rangeName = Inl er" "er \<noteq> NotFound"
      using no Inr by (cases "ra_Get cl w rangeName") (auto simp: can_repair_def)
    with R show ?thesis by (auto simp: Repair_def Let_def split: api_error.splits)
  qed
next
  case (Inl er)
  obtain a where "(NewInMemory (requiredUIDRange c) :: nsc_error + allocator) = Inr a"
    by (rule NewInMemory_ok [OF sz])
  with Inl R show ?thesis by (auto simp: Repair_def Let_def split: sum.splits api_error.splits)
qed

lemma Repair_world:
  assumes laws: "api_laws cl v" and sz: "sized_range (requiredUIDRange c)"
    and R: "Repair cl c w = (e, c', w')"
  shows "c'\<lparr>recorded := recorded c\<rparr> = c \<and>
    ((unchanged v w w' \<and> e \<noteq> None) \<or>
     (\<exists>x res nss. written v x res w w' \<and> ra_Range x = Range_String (requiredUIDRange c) \<and>
        ns_List cl w = Inr nss \<and> reserved (requiredUIDRange c) (ra_Data x) =
          {b \<in> in_range (requiredUIDRange c). \<exists>ns \<in> set nss. held ns = Some b}))"
proof (cases "\<exists>nss. can_repair cl c w nss")
  case True
  let ?r = "requiredUIDRange c"
  from True obtain nss where l: "ns_List cl w = Inr nss" "\<forall>ns \<in> set nss. \<not> blocks_repair ?r ns"
    "ra_Get cl w rangeName = Inl NotFound \<or> (\<exists>ra. ra_Get cl w rangeName = Inr ra)"
    unfolding can_repair_def by blast
  obtain data where d: "reserved ?r data = {b \<in> in_range ?r. \<exists>ns \<in> set nss. held ns = Some b}"
    "Repair cl c w = (case repair_write cl w ((repair_base (ra_Get cl w rangeName))
                \<lparr>ra_Range := Range_String ?r, ra_Data := data\<rparr>) of
          (Inl e, w') \<Rightarrow> (Some (ApiErr e), c, w')
        | (Inr _, w') \<Rightarrow> (None, c, w'))"
    by (rule Repair_run [OF sz l(3,1,2)])
  let ?x = "(repair_base (ra_Get cl w rangeName))\<lparr>ra_Range := Range_String ?r, ra_Data := data\<rparr>"
  obtain res w1 where wr: "repair_write cl w ?x = (res, w1)" by fastforce
  have cw: "c' = c" "w' = w1" "isl res \<Longrightarrow> e \<noteq> None" using R d(2) wr by (auto split: sum.splits)
  have "(isl res \<and> unchanged v w w1) \<or> written v ?x res w w1"
    using wr api_laws_D(2,3) [OF laws]
    by (fastforce simp: repair_write_def update_law_def create_law_def split: if_splits)
  then show ?thesis
  proof
    assume "written v ?x res w w1"
    then have "written v ?x res w w1 \<and> ra_Range ?x = Range_String ?r \<and> ns_List cl w = Inr nss \<and>
        reserved ?r (ra_Data ?x) = {b \<in> in_range ?r. \<exists>ns \<in> set nss. held ns = Some b}"
      using l(1) d(1) by simp
    then have "\<exists>x res nss. written v x res w w1 \<and> ra_Range x = Range_String ?r \<and> ns_List cl w = Inr nss \<and>
        reserved ?r (ra_Data x) = {b \<in> in_range ?r. \<exists>ns \<in> set nss. held ns = Some b}" by blast
    then show ?thesis unfolding cw(1,2) by simp
  qed (use cw in simp)
next
  case False
  from Repair_idle [OF sz R False] show ?thesis by simp
qed

section \<open>The invariant\<close>

lemma forget_simps [simp]:
  "currentUIDRangeAllocation (forget c) = None" "requiredUIDRange (forget c) = requiredUIDRange c"
  by (simp_all add: forget_def)

lemma nsc_inv_unchanged:
  assumes "nsc_inv v r (c, w)" "stored_range v w' = stored_range v w" "revision v w \<le> revision v w'"
    and "cluster_change v w w'" "requiredUIDRange c' = requiredUIDRange c"
    and "currentUIDRangeAllocation c' = None \<or> currentUIDRangeAllocation c' = currentUIDRangeAllocation c"
  shows "nsc_inv v r (c', w')"
proof -
  have sub: "claimed v r w' \<subseteq> claimed v r w"
    using assms(4) by (fastforce simp: claimed_def cluster_change_def)
  have "stored_ok v w'" using assms(1-3) by (auto simp: nsc_inv_def stored_ok_def intro: order_trans)
  moreover have "cache_ok v c' w'"
    using assms(1-3,6) unfolding nsc_inv_def cache_ok_def by (auto intro: order_trans)
  moreover have "covered v r w'" using assms(1,2) sub unfolding nsc_inv_def covered_def by auto
  moreover have "exclusive v r w'"
  proof -
    have ex: "exclusive v r w" using assms(1) by (simp add: nsc_inv_def)
    have before: "\<exists>m. stored_ns v w n = Some m \<and> held m = Some b"
      if "stored_ns v w' n = Some k" "held k = Some b" for n k b
      using assms(4) that unfolding cluster_change_def by blast
    show ?thesis unfolding exclusive_def
    proof (intro allI impI, elim conjE)
      fix n1 n2 m1 m2 b
      assume h: "stored_ns v w' n1 = Some m1" "stored_ns v w' n2 = Some m2" "held m1 = Some b"
        "held m2 = Some b" "b \<in> in_range r"
      from before [OF h(1,3)] before [OF h(2,4)] h(5) ex show "n1 = n2" unfolding exclusive_def by blast
    qed
  qed
  ultimately show ?thesis using assms(1,5) by (simp add: nsc_inv_def)
qed

lemma unchanged_cluster_change: "unchanged v w w' \<Longrightarrow> cluster_change v w w'"
  by (auto simp: unchanged_def cluster_change_def)

text \<open>A new object under a new revision: no cached copy can carry its resource version.\<close>

lemma cache_ok_newer:
  assumes "cache_ok v c w" "stored_range v w' = Some y" "revision v w < ra_ResourceVersion y"
    "ra_ResourceVersion y \<le> revision v w'"
  shows "cache_ok v c w'"
  using assms by (auto simp: cache_ok_def)

lemma claimed_cong: "stored_ns v w' = stored_ns v w \<Longrightarrow> claimed v r w' = claimed v r w"
  by (simp add: claimed_def)

lemma claimed_grant:
  assumes "grants v name rv b w w'"
  shows "claimed v r w' \<subseteq> insert b (claimed v r w)"
  using assms unfolding claimed_def grants_def by (auto split: if_splits) blast+

lemma exclusive_grant:
  assumes "exclusive v r w" "grants v name rv b w w'" "b \<notin> claimed v r w"
  shows "exclusive v r w'"
proof -
  obtain m' where m': "stored_ns v w' = (stored_ns v w)(name \<mapsto> m')" "held m' = Some b"
    using assms(2) by (auto simp: grants_def)
  have "n = name" if "stored_ns v w' n = Some k" "held k = Some b" "b \<in> in_range r" for n k
    using that m' assms(3) by (auto simp: claimed_def split: if_splits)
  then show ?thesis
    using assms(1) m' unfolding exclusive_def by (smt (verit, best) fun_upd_apply option.inject)
qed

lemma nsc_inv_reserves:
  assumes "nsc_inv v r (c, w)" "reserves v r b y' w w'"
    and "stored_ns v w' = stored_ns v w \<or> grants v name rv b w w'"
    and "c' = forget c \<or> (currentUIDRangeAllocation c' = Some y' \<and> requiredUIDRange c' = requiredUIDRange c)"
  shows "nsc_inv v r (c', w')"
proof -
  obtain y where y: "stored_range v w = Some y" "ParseRange (ra_Range y) = Inr r"
    "b \<notin> reserved r (ra_Data y)" "stored_range v w' = Some y'"
    "reserved r (ra_Data y') = insert b (reserved r (ra_Data y))"
    "ra_ResourceVersion y' \<le> revision v w'"
    using assms(2) by (auto simp: reserves_def)
  have cl: "claimed v r w \<subseteq> reserved r (ra_Data y)"
    using assms(1) y(1,2) by (simp add: nsc_inv_def covered_def)
  have "claimed v r w' \<subseteq> insert b (claimed v r w)"
    using assms(3) claimed_grant [of v name rv b w w' r] claimed_cong [of v w' w r] by auto
  then have "covered v r w'" using cl y(4,5) by (auto simp: covered_def)
  moreover have "exclusive v r w'"
    using assms(3)
  proof
    assume "stored_ns v w' = stored_ns v w"
    then show ?thesis using assms(1) by (simp add: nsc_inv_def exclusive_def)
  next
    assume "grants v name rv b w w'"
    then show ?thesis by (rule exclusive_grant [rotated]) (use assms(1) cl y(3) in \<open>auto simp: nsc_inv_def\<close>)
  qed
  moreover have "cache_ok v c' w'" using assms(4) y(4,6) by (auto simp: cache_ok_def)
  moreover have "stored_ok v w'" using y(4,6) by (simp add: stored_ok_def)
  ultimately show ?thesis using assms(1,4) by (auto simp: nsc_inv_def)
qed

lemma nsc_inv_repaired:
  assumes "nsc_inv v r (c, w)" "written v x res w w'" "fresh_list cl v w" "ns_List cl w = Inr nss"
    and "reserved r (ra_Data x) = {b \<in> in_range r. \<exists>ns \<in> set nss. held ns = Some b}"
    and "requiredUIDRange c' = requiredUIDRange c" "currentUIDRangeAllocation c' = currentUIDRangeAllocation c"
  shows "nsc_inv v r (c', w')"
proof -
  note w = assms(2) [unfolded written_def]
  have "claimed v r w' \<subseteq> reserved r (ra_Data x)"
    using w assms(3-5) by (auto simp: claimed_def fresh_list_def)
  then have "covered v r w'" using w by (auto simp: covered_def)
  moreover have "cache_ok v c w'"
    by (rule cache_ok_newer [of _ _ w]) (use assms(1) w in \<open>auto simp: nsc_inv_def\<close>)
  moreover have "exclusive v r w'" using assms(1) w by (simp add: nsc_inv_def exclusive_def)
  moreover have "stored_ok v w'" using w by (simp add: stored_ok_def)
  ultimately show ?thesis using assms(1,6,7) by (auto simp: nsc_inv_def cache_ok_def)
qed

lemma syncNamespace_allocate:
  assumes "syncNamespace cl c w name = (e, c', w')"
  shows "(c' = c \<and> w' = w) \<or> (\<exists>ns e'. ns_Get cl w name = Inr ns \<and>
    ns_Annotations ns UIDRangeAnnotation = None \<and> allocate cl c w ns = (e', c', w'))"
  using assms
  by (auto simp: syncNamespace_def split: sum.splits api_error.splits if_splits prod.splits
      option.splits nsc_error.splits)

lemma nsc_inv_step:
  assumes "api_laws cl v" "nsc_inv v r s" "nsc_step cl v s s'"
  shows "nsc_inv v r s'"
  using assms(3,2)
proof cases
  case (namespace_synced c w name e c' w')
  then have inv: "nsc_inv v r (c, w)" and sz: "sized_range (requiredUIDRange c)" "cache_ok v c w"
    and r: "requiredUIDRange c = r"
    using assms(2) by (auto simp: nsc_inv_def)
  from syncNamespace_allocate [OF namespace_synced(3)] show ?thesis
  proof (elim disjE exE conjE)
    fix ns e' assume "allocate cl c w ns = (e', c', w')"
    from allocate_world [OF assms(1) sz this] show ?thesis
    proof (elim disjE conjE exE)
      assume "unchanged v w w'" "c' = forget c"
      then have "nsc_inv v r (c', w')"
        by (intro nsc_inv_unchanged [OF inv] unchanged_cluster_change) (simp_all add: unchanged_def)
      with namespace_synced show ?thesis by simp
    qed (use nsc_inv_reserves [OF inv] r namespace_synced(2) in \<open>blast+\<close>)
  qed (use inv namespace_synced in simp)
next
  case (repaired c w e c' w')
  then have inv: "nsc_inv v r (c, w)" and sz: "sized_range (requiredUIDRange c)"
    and r: "requiredUIDRange c = r"
    using assms(2) by (auto simp: nsc_inv_def)
  note R = Repair_world [OF assms(1) sz repaired(3)]
  have c': "requiredUIDRange c' = requiredUIDRange c"
    "currentUIDRangeAllocation c' = currentUIDRangeAllocation c"
    using R by (metis nsc.select_convs nsc.surjective nsc.update_convs)+
  from R show ?thesis
  proof (elim conjE disjE exE)
    assume "unchanged v w w'"
    then have "nsc_inv v r (c', w')"
      by (intro nsc_inv_unchanged [OF inv] unchanged_cluster_change) (simp_all add: unchanged_def c')
    with repaired show ?thesis by simp
  qed (use nsc_inv_repaired [OF inv _ repaired(4) _ _ c'] r repaired(2) in \<open>blast+\<close>)
next
  case (cluster w w' c)
  then show ?thesis
    using nsc_inv_unchanged [of v r c w w' c] assms(2) by (auto simp: cluster_change_def)
qed

lemma nsc_inv_reachable:
  "(nsc_step cl v)\<^sup>*\<^sup>* s s' \<Longrightarrow> api_laws cl v \<Longrightarrow> nsc_inv v r s \<Longrightarrow> nsc_inv v r s'"
  by (induction rule: rtranclp_induct) (auto intro: nsc_inv_step)

lemma Repair_establishes:
  assumes "api_laws cl v" "sized_range (requiredUIDRange c)" "currentUIDRangeAllocation c = None"
    and "exclusive v (requiredUIDRange c) w" "fresh_list cl v w" "Repair cl c w = (None, c1, w1)"
  shows "nsc_inv v (requiredUIDRange c) (c1, w1)"
proof -
  from Repair_world [OF assms(1,2,6)] obtain x res nss where
    c1: "c1\<lparr>recorded := recorded c\<rparr> = c" and W: "written v x res w w1" "ns_List cl w = Inr nss"
    "reserved (requiredUIDRange c) (ra_Data x) =
       {b \<in> in_range (requiredUIDRange c). \<exists>ns \<in> set nss. held ns = Some b}" by auto
  have c1': "requiredUIDRange c1 = requiredUIDRange c" "currentUIDRangeAllocation c1 = None"
    using c1 assms(3) by (metis nsc.select_convs nsc.surjective nsc.update_convs)+
  note w = W(1) [unfolded written_def]
  have "claimed v (requiredUIDRange c) w1 \<subseteq> reserved (requiredUIDRange c) (ra_Data x)"
    using w W(2,3) assms(5) by (auto simp: claimed_def fresh_list_def)
  then show ?thesis
    using w c1' assms(2,4)
    by (auto simp: nsc_inv_def stored_ok_def cache_ok_def covered_def exclusive_def)
qed

lemma in_range_disjoint:
  assumes "sized_range r" "b1 \<in> in_range r" "b2 \<in> in_range r" "b1 \<noteq> b2"
  shows "{unat (blk_Start b1)..unat (blk_End b1)} \<inter> {unat (blk_Start b2)..unat (blk_End b2)} = {}"
proof -
  have ends: "unat (blk_Start (nth_block r n)) = lo r + n * len r \<and>
      unat (blk_End (nth_block r n)) = lo r + n * len r + len r - 1" if "n < blocks r" for n
    using BlockAt_nat [OF assms(1), of "of_nat n"] BlockAt_nth_block [OF assms(1) that] that
    by (metis option.inject unat_of_nat_blocks)
  obtain m n where mn: "m < blocks r" "n < blocks r" "b1 = nth_block r m" "b2 = nth_block r n" "m \<noteq> n"
    using in_range_nth_block [OF assms(2)] in_range_nth_block [OF assms(3)] assms(4) by blast
  have "0 < len r" using assms(1) by (simp add: sized_range_nat valid_range_nat)
  moreover have "i * len r + len r \<le> j * len r" if "i < j" for i j
    using mult_le_mono1 [of "Suc i" j "len r"] that by simp
  ultimately show ?thesis
    using ends [OF mn(1)] ends [OF mn(2)] mn(3-5)
    by (cases m n rule: linorder_cases) (fastforce simp: disjoint_iff)+
qed


section \<open>A concrete API server\<close>

text \<open>
  An in-memory server with one range object, a namespace store and a revision counter, on which the
  laws hold and the handlers can be run; the namespace list is that of two fixed names.
\<close>

record ex_world =
  ex_range :: "range_allocation option"
  ex_ns :: "string \<Rightarrow> namespace option"
  ex_rev :: nat

definition ex_put :: "ex_world \<Rightarrow> range_allocation \<Rightarrow> (api_error + range_allocation) \<times> ex_world" where
  "ex_put w x =
     (let y = x\<lparr>ra_ResourceVersion := Suc (ex_rev w)\<rparr>
      in (Inr y, w\<lparr>ex_range := Some y, ex_rev := Suc (ex_rev w)\<rparr>))"

definition ex_update :: "ex_world \<Rightarrow> range_allocation \<Rightarrow> (api_error + range_allocation) \<times> ex_world" where
  "ex_update w x =
     (case ex_range w of
        None \<Rightarrow> (Inl NotFound, w)
      | Some y \<Rightarrow> if ra_ResourceVersion y = ra_ResourceVersion x then ex_put w x else (Inl ConflictErr, w))"

definition ex_create :: "ex_world \<Rightarrow> range_allocation \<Rightarrow> (api_error + range_allocation) \<times> ex_world" where
  "ex_create w x = (case ex_range w of None \<Rightarrow> ex_put w x | Some _ \<Rightarrow> (Inl (OtherErr ''AlreadyExists''), w))"

definition ex_apply :: "ex_world \<Rightarrow> ns_apply \<Rightarrow> string \<Rightarrow> (api_error + namespace) \<times> ex_world" where
  "ex_apply w p fm =
     (case ex_ns w (na_Name p) of
        None \<Rightarrow> (Inl NotFound, w)
      | Some m \<Rightarrow>
          if na_ResourceVersion p \<noteq> None \<and> na_ResourceVersion p \<noteq> Some (ns_ResourceVersion m)
          then (Inl ConflictErr, w)
          else let m' = m\<lparr>ns_Annotations := ns_Annotations m ++ na_Annotations p,
                         ns_ResourceVersion := Suc (ex_rev w)\<rparr>
               in (Inr m', w\<lparr>ex_ns := (ex_ns w)(na_Name p \<mapsto> m'), ex_rev := Suc (ex_rev w)\<rparr>))"

definition ex_get :: "ex_world \<Rightarrow> string \<Rightarrow> api_error + namespace" where
  "ex_get w name =
     (case ex_ns w name of
        Some m \<Rightarrow> if ns_Name m = name then Inr m else Inl NotFound
      | None \<Rightarrow> Inl NotFound)"

definition ex_client :: "ex_world nsc_client" where
  "ex_client = \<lparr>ra_Get = \<lambda>w name. (case ex_range w of Some y \<Rightarrow> Inr y | None \<Rightarrow> Inl NotFound),
     ra_Update = ex_update, ra_Create = ex_create, ns_Apply = ex_apply, ns_Get = ex_get,
     ns_List = \<lambda>w. Inr (List.map_filter (ex_ns w) [''a'', ''b''])\<rparr>"

definition ex_view :: "ex_world api_view" where
  "ex_view = \<lparr>stored_range = ex_range, stored_ns = ex_ns, revision = ex_rev\<rparr>"

lemmas ex_defs = ex_client_def ex_view_def ex_update_def ex_create_def ex_apply_def ex_get_def
  ex_put_def Let_def

lemma ex_api_laws: "api_laws ex_client ex_view"
  unfolding api_laws_def
proof (intro conjI)
  show "get_law ex_client ex_view" by (auto simp: get_law_def ex_defs split: option.splits)
  show "update_law ex_client ex_view"
    by (auto simp: update_law_def unchanged_def written_def ex_defs split: option.splits if_splits)
  show "create_law ex_client ex_view"
    by (auto simp: create_law_def unchanged_def written_def ex_defs split: option.splits if_splits)
  show "apply_law ex_client ex_view"
    by (auto simp: apply_law_def unchanged_def ex_defs split: option.splits if_splits)
  show "lister_law ex_client ex_view"
    by (auto simp: lister_law_def ex_defs split: option.splits if_splits)
qed

definition ex_uids :: uid_range where
  "ex_uids = \<lparr>rng_block = \<lparr>blk_Start = 1000, blk_End = 1039\<rparr>, rng_size = 10\<rparr>"

definition ex_namespace :: "string \<Rightarrow> namespace" where
  "ex_namespace name = \<lparr>ns_Name = name, ns_ResourceVersion = 1, ns_Labels = Map.empty,
     ns_Annotations = Map.empty, ns_ManagedFields = [], ns_Phase = NsActive\<rparr>"

definition ex_w :: ex_world where
  "ex_w = \<lparr>ex_range = None,
     ex_ns = [''a'' \<mapsto> ex_namespace ''a'', ''b'' \<mapsto> ex_namespace ''b''], ex_rev = 1\<rparr>"

definition ex_nsc :: nsc where
  "ex_nsc = \<lparr>requiredUIDRange = ex_uids,
     mcsAllocator = \<lambda>b. None,
     currentUIDRangeAllocation = None, recorded = []\<rparr>"

definition ex_run :: "nsc_error option list \<times> nsc \<times> ex_world" where
  "ex_run =
     (case Repair ex_client ex_nsc ex_w of (e1, c1, w1) \<Rightarrow>
      case syncNamespace ex_client c1 w1 ''a'' of (e2, c2, w2) \<Rightarrow>
      case syncNamespace ex_client c2 w2 ''b'' of (e3, c3, w3) \<Rightarrow> ([e1, e2, e3], c3, w3))"

lemma ex_run_result:
  "fst ex_run = [None, None, None]"
  "held (the (ex_ns (snd (snd ex_run)) ''a'')) = Some \<lparr>blk_Start = 1000, blk_End = 1009\<rparr>"
  "held (the (ex_ns (snd (snd ex_run)) ''b'')) = Some \<lparr>blk_Start = 1010, blk_End = 1019\<rparr>"
  by code_simp+

lemma ex_run_stored:
  "ex_ns (snd (snd ex_run)) ''a'' \<noteq> None" "ex_ns (snd (snd ex_run)) ''b'' \<noteq> None"
  by code_simp+

lemma ex_start:
  "sized_range (requiredUIDRange ex_nsc)" "currentUIDRangeAllocation ex_nsc = None"
  "exclusive ex_view (requiredUIDRange ex_nsc) ex_w" "fresh_list ex_client ex_view ex_w"
  by (simp_all add: ex_nsc_def ex_uids_def sized_range_def valid_range_def exclusive_def fresh_list_def
      ex_defs ex_w_def ex_namespace_def held_def List.map_filter_def split: if_splits)

lemma ex_blocks_in_range:
  "\<lparr>blk_Start = 1000, blk_End = 1009\<rparr> \<in> in_range (requiredUIDRange ex_nsc)"
  "\<lparr>blk_Start = 1010, blk_End = 1019\<rparr> \<in> in_range (requiredUIDRange ex_nsc)"
proof -
  have "blocks ex_uids = 4" by code_simp
  moreover have "BlockAt ex_uids (of_nat 0) = Some \<lparr>blk_Start = 1000, blk_End = 1009\<rparr>"
    "BlockAt ex_uids (of_nat 1) = Some \<lparr>blk_Start = 1010, blk_End = 1019\<rparr>" by code_simp+
  ultimately show "\<lparr>blk_Start = 1000, blk_End = 1009\<rparr> \<in> in_range (requiredUIDRange ex_nsc)"
    "\<lparr>blk_Start = 1010, blk_End = 1019\<rparr> \<in> in_range (requiredUIDRange ex_nsc)"
    by (auto simp: in_range_def ex_nsc_def intro: exI [of _ 0] exI [of _ 1])
qed


section \<open>Runs of the other properties\<close>


definition ex_bad_ns :: namespace where
  "ex_bad_ns = (ex_namespace ''bad'')\<lparr>ns_Annotations := [UIDRangeAnnotation \<mapsto> ''4294960000/10000'']\<rparr>"

definition default_uids :: uid_range where
  "default_uids = \<lparr>rng_block = \<lparr>blk_Start = 1000000000, blk_End = 1999999999\<rparr>, rng_size = 10000\<rparr>"

lemma default_uids_sized: "sized_range default_uids"
  by (simp add: default_uids_def sized_range_def valid_range_def)

lemma ex_bad_ns_blocks: "blocks_repair default_uids ex_bad_ns"
  by code_simp

text \<open>The default UID range, and one namespace annotated with the last block of the 32-bit space and beyond.\<close>

theorem initial_repair_fatal_witness:
  "fst (sync (ex_client\<lparr>ns_List := \<lambda>w. Inr [ex_bad_ns]\<rparr>) (\<lambda>i. False) (\<lambda>i w. w) 31 initialRepairKey
     (ex_nsc\<lparr>requiredUIDRange := default_uids\<rparr>) ex_w) = Fatal RepairTimeout"
  by (rule initial_repair_fatal) (use default_uids_sized ex_bad_ns_blocks in simp_all)

definition ex_stored :: range_allocation where
  "ex_stored = \<lparr>ra_Name = rangeName, ra_ResourceVersion = 1, ra_Range = Range_String ex_uids, ra_Data = [1]\<rparr>"

definition ex_next :: range_allocation where
  "ex_next = ex_stored\<lparr>ra_Data := [3], ra_ResourceVersion := 2\<rparr>"

definition ex_w1 :: ex_world where
  "ex_w1 = (snd (ex_update (ex_w\<lparr>ex_range := Some ex_stored\<rparr>) (ex_stored\<lparr>ra_Data := [3]\<rparr>)))"

theorem allocate_grants_first_free_witness:
  "allocate ex_client (ex_nsc\<lparr>currentUIDRangeAllocation := Some ex_stored\<rparr>) (ex_w\<lparr>ex_range := Some ex_stored\<rparr>)
     (ex_namespace ''a'') =
   (None, ex_nsc\<lparr>currentUIDRangeAllocation := Some ex_next, recorded := [CreatedSCCRanges ''a'']\<rparr>,
    snd (ex_apply ex_w1 (scc_patch ex_nsc (ex_namespace ''a'') (nth_block ex_uids 1)) fieldManager))"
proof -
  let ?c = "ex_nsc\<lparr>currentUIDRangeAllocation := Some ex_stored\<rparr>"
  have b: "big_SetBytes [1] = 1" "big_SetBytes [3] = 3" "big_Bytes 3 = [3]" by code_simp+
  have "SetBit 0 0 True = 1" "SetBit 1 1 True = 3" by code_simp+
  then have bits: "bits (1 :: nat) = {0}" "bits (3 :: nat) = {0, 1}"
    using bits_SetBit [of 0 0 True] bits_SetBit [of 1 1 True] by auto
  have up: "ra_Update ex_client (ex_w\<lparr>ex_range := Some ex_stored\<rparr>) (ex_stored\<lparr>ra_Data := [3]\<rparr>) = (Inr ex_next, ex_w1)"
    by (simp add: ex_defs ex_w1_def ex_stored_def ex_next_def ex_w_def)
  have p: "scc_patch ?c ns d = scc_patch ex_nsc ns d" for ns d by (simp add: scc_patch_def Let_def split: option.split)
  have ap: "\<exists>m. ns_Apply ex_client ex_w1 (scc_patch ex_nsc (ex_namespace ''a'') d) fieldManager =
      (Inr m, snd (ex_apply ex_w1 (scc_patch ex_nsc (ex_namespace ''a'') d) fieldManager))" for d
    by (simp add: ex_defs ex_w1_def ex_stored_def ex_w_def ex_namespace_def scc_patch_def split: option.split)
  then obtain m where m: "ns_Apply ex_client ex_w1 (scc_patch ?c (ex_namespace ''a'') (nth_block ex_uids 1)) fieldManager =
      (Inr m, snd (ex_apply ex_w1 (scc_patch ex_nsc (ex_namespace ''a'') (nth_block ex_uids 1)) fieldManager))"
    unfolding p by blast
  have r: "requiredUIDRange ?c = ex_uids" "recorded ?c = []" "ns_Name (ex_namespace ''a'') = ''a''"
    by (simp_all add: ex_nsc_def ex_namespace_def)
  have d: "ra_Data ex_stored = [1]" "ra_Range ex_stored = Range_String ex_uids" by (simp_all add: ex_stored_def)
  have "blocks ex_uids = 4" by code_simp
  then have "allocate ex_client ?c (ex_w\<lparr>ex_range := Some ex_stored\<rparr>) (ex_namespace ''a'') =
      (None, ?c\<lparr>currentUIDRangeAllocation := Some ex_next,
        recorded := recorded ?c @ [CreatedSCCRanges (ns_Name (ex_namespace ''a''))]\<rparr>,
       snd (ex_apply ex_w1 (scc_patch ex_nsc (ex_namespace ''a'') (nth_block ex_uids 1)) fieldManager))"
    using up m ex_start(1)
    by (intro allocate_grants_first_free [where n = 1 and data = "[3]" and cur = ex_stored])
      (simp_all add: r d b bits bits [unfolded One_nat_def] insert_commute ex_nsc_def)
  then show ?thesis unfolding r by simp
qed

theorem allocate_failure_forgets_witness:
  "allocate ex_client ex_nsc ex_w (ex_namespace ''a'') = (Some (ApiErr NotFound), forget ex_nsc, ex_w)"
proof -
  obtain e c' w' where "allocate ex_client ex_nsc ex_w (ex_namespace ''a'') = (e, c', w')"
    by (metis prod_cases3)
  from allocate_failure_forgets [OF this, of undefined NotFound] this show ?thesis
    by (simp add: ex_start(2) ex_client_def ex_w_def)
qed

end
