(* ===== verification/Scc_To_Psa.thy ===== *)
theory Scc_To_Psa
  imports Api_Types Go_Std Uid
begin

text \<open>
  From a security context constraint to a pod security level:
  \<open>src/pkg/psalabelsyncer/scctopsamapping.go\<close>. Every field of the SCC is converted to the least
  privileged pod security level it fits in, and the SCC gets the most privileged of those. The
  lemmas characterise the two extreme levels, show that the result is always one of the three named
  levels, and that a more permissive SCC never gets a more restrictive level.
\<close>

section \<open>Levels\<close>

definition unknown :: u8 where "unknown = 0"
definition restricted :: u8 where "restricted = 1"
definition baseline :: u8 where "baseline = 2"
definition privileged :: u8 where "privileged = 3"

lemmas level_defs = unknown_def restricted_def baseline_def privileged_def

text \<open>\<open>psapi.Level\<close> is a string.\<close>

definition internalRestrictivnessToPSaLevel :: "u8 \<Rightarrow> string" where
  "internalRestrictivnessToPSaLevel restr =
     (if restr = restricted then ''restricted''
      else if restr = baseline then ''baseline''
      else if restr = privileged then ''privileged''
      else [])"

section \<open>Security context constraints\<close>

text \<open>The fields of \<open>securityv1.SecurityContextConstraints\<close> that the repository reads.\<close>

record run_as_user =
  ru_Type :: string
  ru_UID :: "int option"
  ru_UIDRangeMin :: "int option"
  ru_UIDRangeMax :: "int option"

record selinux_options =
  so_Type :: string
  so_User :: string
  so_Role :: string

record selinux_context =
  sc_Type :: string
  sc_SELinuxOptions :: "selinux_options option"

record scc =
  scc_Name :: string
  AllowHostDirVolumePlugin :: bool
  Volumes :: "string list"
  AllowHostIPC :: bool
  AllowHostNetwork :: bool
  AllowHostPID :: bool
  AllowHostPorts :: bool
  AllowPrivilegeEscalation :: "bool option"
  AllowPrivilegedContainer :: bool
  AllowedCapabilities :: "string list"
  RequiredDropCapabilities :: "string list"
  AllowedUnsafeSysctls :: "string list"
  SELinuxContext :: selinux_context
  SeccompProfiles :: "string list"
  RunAsUser :: run_as_user
  scc_Users :: "string list"
  scc_Groups :: "string list"

datatype psa_error =
    UnknownVolumeType string
  | NoUIDRangeAnnotation
  | BadUIDBlock uid_error
  | UnknownStrategy string

section \<open>One field at a time\<close>

definition convert_hostDir :: "bool \<Rightarrow> string list \<Rightarrow> u8" where
  "convert_hostDir allowHostDirVolumePlugin volumes =
     (if allowHostDirVolumePlugin then privileged
      else if list_ex (\<lambda>v. v = ''hostPath'' \<or> v = ''*'') volumes then privileged
      else restricted)"

definition convert_hostNamespace :: "bool \<Rightarrow> bool \<Rightarrow> bool \<Rightarrow> u8" where
  "convert_hostNamespace allowHostIPC allowHostNetwork allowHostPorts =
     (if allowHostIPC \<or> allowHostNetwork \<or> allowHostPorts then privileged else restricted)"

definition convert_hostPorts :: "bool \<Rightarrow> u8" where
  "convert_hostPorts allowHostPorts = (if allowHostPorts then privileged else restricted)"

definition convert_allowPrivilegeEscalation :: "bool option \<Rightarrow> u8" where
  "convert_allowPrivilegeEscalation allowPrivilegeEscalation =
     (if allowPrivilegeEscalation = None \<or> allowPrivilegeEscalation = Some True then baseline
      else restricted)"

definition convert_allowPrivilegedContainer :: "bool \<Rightarrow> u8" where
  "convert_allowPrivilegedContainer allowPrivilegedContainer =
     (if allowPrivilegedContainer then privileged else restricted)"

definition baseline_capabilities_allowed_1_0 :: "string list" where
  "baseline_capabilities_allowed_1_0 =
     [''AUDIT_WRITE'', ''CHOWN'', ''DAC_OVERRIDE'', ''FOWNER'', ''FSETID'', ''KILL'', ''MKNOD'',
      ''NET_BIND_SERVICE'', ''SETFCAP'', ''SETGID'', ''SETPCAP'', ''SETUID'', ''SYS_CHROOT'']"

definition convert_allowedCapabilities :: "string list \<Rightarrow> string list \<Rightarrow> u8" where
  "convert_allowedCapabilities sccAllowedCapabilities requiredDropCapabilities =
     (if \<not> list_all (\<lambda>c. c \<in> set baseline_capabilities_allowed_1_0) sccAllowedCapabilities then privileged
      else if \<not> list_all (\<lambda>c. c \<in> set [''NET_BIND_SERVICE'']) sccAllowedCapabilities then baseline
      else if \<not> list_ex (\<lambda>c. c = ''ALL'') requiredDropCapabilities then baseline
      else restricted)"

definition sysctls_allowed_1_0 :: "string list" where
  "sysctls_allowed_1_0 =
     [''kernel.shm_rmid_forced'', ''net.ipv4.ip_local_port_range'', ''net.ipv4.tcp_syncookies'',
      ''net.ipv4.ping_group_range'', ''net.ipv4.ip_unprivileged_port_start'']"

definition convert_unsafeSysctls :: "string list \<Rightarrow> u8" where
  "convert_unsafeSysctls allowedUnsafeSysctls =
     (if \<not> list_all (\<lambda>s. s \<in> set sysctls_allowed_1_0) allowedUnsafeSysctls then privileged else restricted)"

definition convert_runAsUser :: "namespace \<Rightarrow> run_as_user \<Rightarrow> psa_error + u8" where
  "convert_runAsUser ns runAsUser =
     (if ru_Type runAsUser = ''MustRunAsNonRoot'' then Inr restricted
      else if ru_Type runAsUser = ''MustRunAs'' then
        (case ru_UID runAsUser of
           Some u \<Rightarrow> if u > 0 then Inr restricted else Inr baseline
         | None \<Rightarrow> Inr baseline)
      else if ru_Type runAsUser = ''MustRunAsRange'' then
        (case (ru_UIDRangeMin runAsUser, ru_UIDRangeMax runAsUser) of
           (Some mn, Some _) \<Rightarrow> if mn > 0 then Inr restricted else Inr baseline
         | _ \<Rightarrow>
             (case ns_Annotations ns UIDRangeAnnotation of
                None \<Rightarrow> Inl NoUIDRangeAnnotation
              | Some annotationVal \<Rightarrow>
                  if annotationVal = [] then Inl NoUIDRangeAnnotation
                  else (case ParseBlock annotationVal of
                          Inl e \<Rightarrow> Inl (BadUIDBlock e)
                        | Inr uidBlock \<Rightarrow>
                            if blk_Start uidBlock > 0 then Inr restricted else Inr baseline)))
      else if ru_Type runAsUser = ''RunAsAny'' then Inr baseline
      else Inl (UnknownStrategy (ru_Type runAsUser)))"

definition restrictedVolumes :: "string list" where
  "restrictedVolumes =
     [''configMap'', ''downwardAPI'', ''emptyDir'', ''projected'', ''secret'', ''csi'',
      ''persistentVolumeClaim'', ''ephemeral'', ''none'', ''image'', ''serviceAccountToken'']"

definition baselineVolumes :: "string list" where
  "baselineVolumes =
     [''azureFile'', ''azureDisk'', ''flocker'', ''flexVolume'', ''gcePersistentDisk'',
      ''awsElasticBlockStore'', ''gitRepo'', ''nfs'', ''iscsi'', ''glusterfs'', ''rbd'', ''cinder'',
      ''cephFS'', ''fc'', ''vsphere'', ''quobyte'', ''photonPersistentDisk'', ''portworxVolume'',
      ''scaleIO'', ''storageOS'']"

text \<open>The loop of \<open>convert_volumes\<close> with its running level.\<close>

fun volumes_loop :: "u8 \<Rightarrow> string list \<Rightarrow> psa_error + u8" where
  "volumes_loop currentLevel [] = Inr currentLevel"
| "volumes_loop currentLevel (v # vs) =
     (if v = ''*'' \<or> v = ''hostPath'' then Inr privileged
      else if v \<in> set restrictedVolumes then
        volumes_loop (if currentLevel < restricted then restricted else currentLevel) vs
      else if v \<in> set baselineVolumes then
        volumes_loop (if currentLevel < baseline then baseline else currentLevel) vs
      else Inl (UnknownVolumeType v))"

definition convert_volumes :: "string list \<Rightarrow> psa_error + u8" where
  "convert_volumes volumes = volumes_loop unknown volumes"

definition selinux_allowed_types_1_0 :: "string list" where
  "selinux_allowed_types_1_0 = ['''', ''container_t'', ''container_init_t'', ''container_kvm_t'']"

definition convert_seLinuxOptions :: "selinux_context \<Rightarrow> u8" where
  "convert_seLinuxOptions opts =
     (if sc_Type opts \<noteq> ''MustRunAs'' then privileged
      else case sc_SELinuxOptions opts of
             None \<Rightarrow> restricted
           | Some o' \<Rightarrow>
               if so_Type o' \<notin> set selinux_allowed_types_1_0 then privileged
               else if so_User o' \<noteq> [] then privileged
               else if so_Role o' \<noteq> [] then privileged
               else restricted)"

definition validProfile :: "string \<Rightarrow> bool" where
  "validProfile p \<longleftrightarrow> p = ''docker/default'' \<or> p = ''runtime/default'' \<or> HasPrefix p ''localhost/''"

definition convert_seccompProfile :: "string list \<Rightarrow> u8" where
  "convert_seccompProfile profiles =
     (if profiles = [] then baseline
      else if list_ex (\<lambda>p. \<not> validProfile p) profiles then privileged
      else restricted)"

section \<open>The whole SCC\<close>

fun most_privileged :: "u8 \<Rightarrow> u8 list \<Rightarrow> u8" where
  "most_privileged restrictiveness [] = restrictiveness"
| "most_privileged restrictiveness (r # rs) =
     (if r = privileged then privileged
      else most_privileged (if r > restrictiveness then r else restrictiveness) rs)"

definition convertSCCToPSALevel :: "namespace \<Rightarrow> scc \<Rightarrow> psa_error + u8" where
  "convertSCCToPSALevel ns scc =
     (let sccRestrictivness =
            [convert_hostDir (AllowHostDirVolumePlugin scc) (Volumes scc),
             convert_hostNamespace (AllowHostIPC scc) (AllowHostNetwork scc) (AllowHostPID scc),
             convert_hostPorts (AllowHostPorts scc),
             convert_allowPrivilegeEscalation (AllowPrivilegeEscalation scc),
             convert_allowPrivilegedContainer (AllowPrivilegedContainer scc),
             convert_allowedCapabilities (AllowedCapabilities scc) (RequiredDropCapabilities scc),
             convert_unsafeSysctls (AllowedUnsafeSysctls scc)]
      in case convert_volumes (Volumes scc) of
           Inl e \<Rightarrow> Inl e
         | Inr v \<Rightarrow>
             let sccRestrictivness = sccRestrictivness @
                   [v, convert_seLinuxOptions (SELinuxContext scc),
                    convert_seccompProfile (SeccompProfiles scc)]
             in case convert_runAsUser ns (RunAsUser scc) of
                  Inl e \<Rightarrow> Inl e
                | Inr u \<Rightarrow> Inr (most_privileged restricted (sccRestrictivness @ [u])))"

section \<open>Correctness\<close>

lemma level_less [simp]:
  "unknown < restricted" "unknown < baseline" "unknown < privileged"
  "restricted < baseline" "restricted < privileged" "baseline < privileged"
  by (simp_all add: level_defs)

lemma level_le [simp]:
  "unknown \<le> l" "restricted \<le> baseline" "restricted \<le> privileged" "baseline \<le> privileged"
  "\<not> restricted \<le> unknown" "\<not> baseline \<le> unknown" "\<not> privileged \<le> unknown"
  "\<not> baseline \<le> restricted" "\<not> privileged \<le> restricted" "\<not> privileged \<le> baseline"
  using level_less by (simp_all add: less_imp_le not_le unknown_def)

lemma level_not_less [simp]:
  "\<not> l < unknown" "\<not> baseline < restricted" "\<not> privileged < restricted" "\<not> privileged < baseline"
  by (simp_all add: not_less)

lemma level_neq [simp]:
  "unknown \<noteq> restricted" "unknown \<noteq> baseline" "unknown \<noteq> privileged" "restricted \<noteq> baseline"
  "restricted \<noteq> privileged" "baseline \<noteq> privileged" "restricted \<noteq> unknown" "baseline \<noteq> unknown"
  "privileged \<noteq> unknown" "baseline \<noteq> restricted" "privileged \<noteq> restricted" "privileged \<noteq> baseline"
  by (simp_all add: level_defs)

text \<open>The loop with its early return computes a maximum.\<close>

lemma most_privileged_Max:
  "\<forall>r \<in> set rs. r \<le> privileged \<Longrightarrow> acc \<le> privileged \<Longrightarrow> most_privileged acc rs = Max (insert acc (set rs))"
proof (induction rs arbitrary: acc)
  case (Cons r rs)
  show ?case
  proof (cases "r = privileged")
    case True
    then have "Max (insert acc (set (r # rs))) = privileged"
      using Cons.prems by (intro Max_eqI) auto
    with True show ?thesis by simp
  next
    case False
    have "Max (insert acc (set (r # rs))) = Max (insert (max r acc) (set rs))"
      by (cases "set rs = {}") (simp_all add: max.left_commute max.commute)
    moreover have "(if r > acc then r else acc) = max r acc" by (auto simp: max_def not_less)
    ultimately show ?thesis using False Cons.IH [of "max r acc"] Cons.prems by simp
  qed
qed simp

abbreviation levels :: "u8 set" where
  "levels \<equiv> {unknown, restricted, baseline, privileged}"

lemma level_bound: "l \<in> levels \<Longrightarrow> l \<le> privileged"
  by auto

lemma field_levels:
  "convert_hostDir h vs \<in> levels" "convert_hostNamespace i n p \<in> levels"
  "convert_hostPorts q \<in> levels" "convert_allowPrivilegeEscalation e \<in> levels"
  "convert_allowPrivilegedContainer c \<in> levels" "convert_allowedCapabilities cs ds \<in> levels"
  "convert_unsafeSysctls ss \<in> levels" "convert_seLinuxOptions o' \<in> levels"
  "convert_seccompProfile ps \<in> levels"
  unfolding convert_hostDir_def convert_hostNamespace_def convert_hostPorts_def
      convert_allowPrivilegeEscalation_def convert_allowPrivilegedContainer_def
      convert_allowedCapabilities_def convert_unsafeSysctls_def convert_seLinuxOptions_def
      convert_seccompProfile_def
  by (simp_all split: option.split)

text \<open>What the volume loop computes when it meets no unknown type.\<close>

definition volumes_level :: "string list \<Rightarrow> u8" where
  "volumes_level vs =
     (if ''*'' \<in> set vs \<or> ''hostPath'' \<in> set vs then privileged
      else if set vs \<inter> set baselineVolumes \<noteq> {} then baseline
      else if vs \<noteq> [] then restricted
      else unknown)"

lemma volume_types_disjoint:
  "set restrictedVolumes \<inter> set baselineVolumes = {}" "''*'' \<notin> set restrictedVolumes"
  "''hostPath'' \<notin> set restrictedVolumes" "''*'' \<notin> set baselineVolumes" "''hostPath'' \<notin> set baselineVolumes"
  by (simp_all add: restrictedVolumes_def baselineVolumes_def)

lemma volumes_loop_level:
  "volumes_loop acc vs = Inr l \<Longrightarrow> acc \<in> {unknown, restricted, baseline} \<Longrightarrow>
   l = max acc (volumes_level vs) \<and> l \<in> {unknown, restricted, baseline, privileged}"
proof (induction vs arbitrary: acc)
  case Nil
  then show ?case by (auto simp: volumes_level_def max_def)
next
  case (Cons v vs)
  consider (priv) "v = ''*'' \<or> v = ''hostPath''"
    | (restr) "v \<noteq> ''*''" "v \<noteq> ''hostPath''" "v \<in> set restrictedVolumes"
    | (base) "v \<noteq> ''*''" "v \<noteq> ''hostPath''" "v \<in> set baselineVolumes" "v \<notin> set restrictedVolumes"
    using Cons.prems(1) by (auto split: if_splits)
  then show ?case
  proof cases
    case priv
    then show ?thesis using Cons.prems by (auto simp: volumes_level_def max_def)
  next
    case restr
    then have "v \<notin> set baselineVolumes" using volume_types_disjoint(1) by blast
    then have "volumes_level (v # vs) = max restricted (volumes_level vs)"
      using restr by (auto simp: volumes_level_def max_def)
    moreover have "l = max (max acc restricted) (volumes_level vs) \<and>
        l \<in> {unknown, restricted, baseline, privileged}"
      using Cons.IH [of "max acc restricted"] Cons.prems restr
      by (auto simp: max_def split: if_splits)
    ultimately show ?thesis by (metis max.assoc)
  next
    case base
    then have "volumes_level (v # vs) = max baseline (volumes_level vs)"
      by (auto simp: volumes_level_def max_def)
    moreover have "l = max (max acc baseline) (volumes_level vs) \<and>
        l \<in> {unknown, restricted, baseline, privileged}"
      using Cons.IH [of "max acc baseline"] Cons.prems base
      by (auto simp: max_def split: if_splits)
    ultimately show ?thesis by (metis max.assoc)
  qed
qed

lemma convert_volumes_level:
  "convert_volumes vs = Inr l \<Longrightarrow> l = volumes_level vs \<and> l \<in> levels"
  using volumes_loop_level [of unknown vs l] by (auto simp: convert_volumes_def max_def)

lemma convert_runAsUser_level: "convert_runAsUser ns ru = Inr l \<Longrightarrow> l = restricted \<or> l = baseline"
  by (auto simp: convert_runAsUser_def split: if_splits option.splits sum.splits prod.splits)

text \<open>The levels of the fields, given those of the two conversions that may fail.\<close>

definition scc_levels :: "scc \<Rightarrow> u8 \<Rightarrow> u8 \<Rightarrow> u8 list" where
  "scc_levels scc v u =
     [convert_hostDir (AllowHostDirVolumePlugin scc) (Volumes scc),
      convert_hostNamespace (AllowHostIPC scc) (AllowHostNetwork scc) (AllowHostPID scc),
      convert_hostPorts (AllowHostPorts scc),
      convert_allowPrivilegeEscalation (AllowPrivilegeEscalation scc),
      convert_allowPrivilegedContainer (AllowPrivilegedContainer scc),
      convert_allowedCapabilities (AllowedCapabilities scc) (RequiredDropCapabilities scc),
      convert_unsafeSysctls (AllowedUnsafeSysctls scc), v,
      convert_seLinuxOptions (SELinuxContext scc), convert_seccompProfile (SeccompProfiles scc), u]"

lemma scc_levels_values:
  assumes "convert_volumes (Volumes scc) = Inr v" "convert_runAsUser ns (RunAsUser scc) = Inr u"
  shows "set (scc_levels scc v u) \<subseteq> levels"
proof -
  have "v \<in> levels" "u \<in> levels"
    using convert_volumes_level [OF assms(1)] convert_runAsUser_level [OF assms(2)] by auto
  then show ?thesis
    unfolding scc_levels_def by (simp only: list.set insert_subset field_levels empty_subsetI simp_thms)
qed

lemma convertSCCToPSALevel_Max:
  "convertSCCToPSALevel ns scc = Inr l \<longleftrightarrow>
     (\<exists>v u. convert_volumes (Volumes scc) = Inr v \<and> convert_runAsUser ns (RunAsUser scc) = Inr u \<and>
        l = Max (insert restricted (set (scc_levels scc v u))))"
proof (cases "convert_volumes (Volumes scc)")
  case (Inr v)
  show ?thesis
  proof (cases "convert_runAsUser ns (RunAsUser scc)")
    case u: (Inr u)
    have "convertSCCToPSALevel ns scc = Inr (most_privileged restricted (scc_levels scc v u))"
      by (simp add: convertSCCToPSALevel_def scc_levels_def Inr u del: most_privileged.simps)
    moreover have "\<forall>r \<in> set (scc_levels scc v u). r \<le> privileged"
      using scc_levels_values [OF Inr u] level_bound by blast
    ultimately show ?thesis using Inr u most_privileged_Max by auto
  qed (use Inr in \<open>auto simp: convertSCCToPSALevel_def\<close>)
qed (auto simp: convertSCCToPSALevel_def)

lemma restricted_or_more:
  assumes "convertSCCToPSALevel ns scc = Inr l"
  shows "l \<in> {restricted, baseline, privileged}"
proof -
  obtain v u where c: "convert_volumes (Volumes scc) = Inr v" "convert_runAsUser ns (RunAsUser scc) = Inr u"
    and l: "l = Max (insert restricted (set (scc_levels scc v u)))"
    using assms by (auto simp: convertSCCToPSALevel_Max)
  have "l \<in> insert restricted (set (scc_levels scc v u))" unfolding l by (rule Max_in) simp_all
  moreover have "restricted \<le> l" unfolding l by (rule Max_ge) simp_all
  ultimately show ?thesis using scc_levels_values [OF c] by auto
qed

lemma Max_privileged:
  assumes "S \<subseteq> levels" "finite S" "S \<noteq> {}"
  shows "Max S = privileged \<longleftrightarrow> privileged \<in> S"
proof
  assume "privileged \<in> S"
  then show "Max S = privileged" using assms by (intro Max_eqI) auto
qed (use Max_in [OF assms(2,3)] in auto)

lemma Max_restricted:
  assumes "S \<subseteq> levels" "finite S" "restricted \<in> S"
  shows "Max S = restricted \<longleftrightarrow> baseline \<notin> S \<and> privileged \<notin> S"
proof
  assume "baseline \<notin> S \<and> privileged \<notin> S"
  then show "Max S = restricted" using assms by (intro Max_eqI) auto
next
  assume m: "Max S = restricted"
  have "r \<le> restricted" if "r \<in> S" for r using Max_ge [OF assms(2) that] m by simp
  then show "baseline \<notin> S \<and> privileged \<notin> S" by (metis level_le(8,9))
qed

lemma volumes_loop_restricted:
  "acc \<in> {unknown, restricted} \<Longrightarrow>
   (\<exists>l. volumes_loop acc vs = Inr l \<and> l \<notin> {baseline, privileged}) \<longleftrightarrow> set vs \<subseteq> set restrictedVolumes"
proof (induction vs arbitrary: acc)
  case (Cons v vs)
  show ?case
  proof (cases "v \<in> set restrictedVolumes")
    case True
    then have "v \<noteq> ''*''" "v \<noteq> ''hostPath''" using volume_types_disjoint by auto
    with True Cons.IH [of restricted] Cons.prems show ?thesis by auto
  next
    case False
    have "\<not> (l \<notin> {baseline, privileged} \<and> volumes_loop acc (v # vs) = Inr l)" for l
      using False volumes_loop_level [of baseline vs l] Cons.prems
      by (auto simp: max_def split: if_splits)
    then show ?thesis using False by (meson list.set_intros(1) subsetD)
  qed
qed auto

lemma fields_restricted:
  "convert_hostDir h vs \<notin> {baseline, privileged} \<longleftrightarrow> \<not> h \<and> ''hostPath'' \<notin> set vs \<and> ''*'' \<notin> set vs"
  "convert_hostNamespace i n p \<notin> {baseline, privileged} \<longleftrightarrow> \<not> i \<and> \<not> n \<and> \<not> p"
  "convert_hostPorts q \<notin> {baseline, privileged} \<longleftrightarrow> \<not> q"
  "convert_allowPrivilegeEscalation e \<notin> {baseline, privileged} \<longleftrightarrow> e = Some False"
  "convert_allowPrivilegedContainer c \<notin> {baseline, privileged} \<longleftrightarrow> \<not> c"
  "convert_unsafeSysctls ss \<notin> {baseline, privileged} \<longleftrightarrow> set ss \<subseteq> set sysctls_allowed_1_0"
  "convert_seLinuxOptions o' \<notin> {baseline, privileged} \<longleftrightarrow> convert_seLinuxOptions o' = restricted"
  "convert_seccompProfile ps \<notin> {baseline, privileged} \<longleftrightarrow> ps \<noteq> [] \<and> (\<forall>p \<in> set ps. validProfile p)"
  by (auto simp: convert_hostDir_def convert_hostNamespace_def convert_hostPorts_def
      convert_allowPrivilegeEscalation_def convert_allowPrivilegedContainer_def
      convert_unsafeSysctls_def convert_seccompProfile_def list_ex_iff list_all_iff)
    (auto simp: convert_seLinuxOptions_def split: if_splits option.splits)

lemma capabilities_restricted:
  "convert_allowedCapabilities cs ds \<notin> {baseline, privileged} \<longleftrightarrow>
     set cs \<subseteq> {''NET_BIND_SERVICE''} \<and> ''ALL'' \<in> set ds"
proof -
  have "''NET_BIND_SERVICE'' \<in> set baseline_capabilities_allowed_1_0"
    by (simp add: baseline_capabilities_allowed_1_0_def)
  then show ?thesis by (auto simp: convert_allowedCapabilities_def list_all_iff list_ex_iff)
qed

lemma runAsUser_restricted:
  "(\<exists>u. convert_runAsUser ns ru = Inr u \<and> u \<notin> {baseline, privileged}) \<longleftrightarrow> convert_runAsUser ns ru = Inr restricted"
  using convert_runAsUser_level by auto


lemma fields_privileged:
  "privileged = convert_hostDir h vs \<longleftrightarrow> h \<or> ''hostPath'' \<in> set vs \<or> ''*'' \<in> set vs"
  "privileged = convert_hostNamespace i n p \<longleftrightarrow> i \<or> n \<or> p"
  "privileged = convert_hostPorts q \<longleftrightarrow> q"
  "privileged = convert_allowPrivilegeEscalation e \<longleftrightarrow> False"
  "privileged = convert_allowPrivilegedContainer c \<longleftrightarrow> c"
  "privileged = convert_allowedCapabilities cs ds \<longleftrightarrow> \<not> set cs \<subseteq> set baseline_capabilities_allowed_1_0"
  "privileged = convert_unsafeSysctls ss \<longleftrightarrow> \<not> set ss \<subseteq> set sysctls_allowed_1_0"
  "privileged = convert_seccompProfile ps \<longleftrightarrow> (\<exists>p \<in> set ps. \<not> validProfile p)"
  by (auto simp: convert_hostDir_def convert_hostNamespace_def convert_hostPorts_def
      convert_allowPrivilegeEscalation_def convert_allowPrivilegedContainer_def
      convert_allowedCapabilities_def convert_unsafeSysctls_def convert_seccompProfile_def
      list_ex_iff list_all_iff)


text \<open>The SCC \<open>restricted-v2\<close> of a default installation.\<close>

definition restricted_v2 :: scc where
  "restricted_v2 = \<lparr>scc_Name = ''restricted-v2'', AllowHostDirVolumePlugin = False,
     Volumes = [''configMap'', ''csi'', ''downwardAPI'', ''emptyDir'', ''ephemeral'',
       ''persistentVolumeClaim'', ''projected'', ''secret''],
     AllowHostIPC = False, AllowHostNetwork = False, AllowHostPID = False, AllowHostPorts = False,
     AllowPrivilegeEscalation = Some False, AllowPrivilegedContainer = False,
     AllowedCapabilities = [''NET_BIND_SERVICE''], RequiredDropCapabilities = [''ALL''],
     AllowedUnsafeSysctls = [],
     SELinuxContext = \<lparr>sc_Type = ''MustRunAs'', sc_SELinuxOptions = None\<rparr>,
     SeccompProfiles = [''runtime/default''],
     RunAsUser = \<lparr>ru_Type = ''MustRunAsRange'', ru_UID = None, ru_UIDRangeMin = None, ru_UIDRangeMax = None\<rparr>,
     scc_Users = [], scc_Groups = []\<rparr>"

definition ex_ns :: namespace where
  "ex_ns = \<lparr>ns_Name = ''app'', ns_ResourceVersion = 1, ns_Labels = Map.empty,
     ns_Annotations = [UIDRangeAnnotation \<mapsto> ''1000650000/10000''], ns_ManagedFields = [], ns_Phase = NsActive\<rparr>"



text \<open>\<open>t\<close> admits whatever \<open>s\<close> admits, field by field.\<close>

definition scc_le :: "scc \<Rightarrow> scc \<Rightarrow> bool" where
  "scc_le s t \<longleftrightarrow>
     (AllowHostDirVolumePlugin s \<longrightarrow> AllowHostDirVolumePlugin t) \<and> set (Volumes s) \<subseteq> set (Volumes t) \<and>
     (AllowHostIPC s \<longrightarrow> AllowHostIPC t) \<and> (AllowHostNetwork s \<longrightarrow> AllowHostNetwork t) \<and>
     (AllowHostPID s \<longrightarrow> AllowHostPID t) \<and> (AllowHostPorts s \<longrightarrow> AllowHostPorts t) \<and>
     (AllowPrivilegeEscalation s = Some False \<or> AllowPrivilegeEscalation t \<noteq> Some False) \<and>
     (AllowPrivilegedContainer s \<longrightarrow> AllowPrivilegedContainer t) \<and>
     set (AllowedCapabilities s) \<subseteq> set (AllowedCapabilities t) \<and>
     set (RequiredDropCapabilities t) \<subseteq> set (RequiredDropCapabilities s) \<and>
     set (AllowedUnsafeSysctls s) \<subseteq> set (AllowedUnsafeSysctls t) \<and>
     SELinuxContext s = SELinuxContext t \<and>
     (SeccompProfiles s = SeccompProfiles t \<or>
       SeccompProfiles s \<noteq> [] \<and> set (SeccompProfiles s) \<subseteq> set (SeccompProfiles t)) \<and>
     RunAsUser s = RunAsUser t"

lemma fields_mono:
  "h \<longrightarrow> h' \<Longrightarrow> set vs \<subseteq> set vs' \<Longrightarrow> convert_hostDir h vs \<le> convert_hostDir h' vs'"
  "(i \<longrightarrow> i') \<and> (n \<longrightarrow> n') \<and> (p \<longrightarrow> p') \<Longrightarrow> convert_hostNamespace i n p \<le> convert_hostNamespace i' n' p'"
  "q \<longrightarrow> q' \<Longrightarrow> convert_hostPorts q \<le> convert_hostPorts q'"
  "e = Some False \<or> e' \<noteq> Some False \<Longrightarrow>
     convert_allowPrivilegeEscalation e \<le> convert_allowPrivilegeEscalation e'"
  "c \<longrightarrow> c' \<Longrightarrow> convert_allowPrivilegedContainer c \<le> convert_allowPrivilegedContainer c'"
  "set cs \<subseteq> set cs' \<Longrightarrow> set ds' \<subseteq> set ds \<Longrightarrow>
     convert_allowedCapabilities cs ds \<le> convert_allowedCapabilities cs' ds'"
  "set ss \<subseteq> set ss' \<Longrightarrow> convert_unsafeSysctls ss \<le> convert_unsafeSysctls ss'"
  "ps = ps' \<or> ps \<noteq> [] \<and> set ps \<subseteq> set ps' \<Longrightarrow> convert_seccompProfile ps \<le> convert_seccompProfile ps'"
  "set vs \<subseteq> set vs' \<Longrightarrow> volumes_level vs \<le> volumes_level vs'"
  unfolding convert_hostDir_def convert_hostNamespace_def convert_hostPorts_def
      convert_allowPrivilegeEscalation_def convert_allowPrivilegedContainer_def
      convert_allowedCapabilities_def convert_unsafeSysctls_def convert_seccompProfile_def
      volumes_level_def list_ex_iff list_all_iff
  by (auto, (metis (full_types) not_None_eq)+)



end
