(* ===== verification/Scc_Role_Cache.thy ===== *)
theory Scc_Role_Cache
  imports Scc_To_Psa
begin

text \<open>
  Which SCCs a service account may use: \<open>src/pkg/psalabelsyncer/sccrolecache.go\<close>. The cache
  \<open>usefulRoles\<close> holds, per role, the names of the SCCs its rules allow; informer events keep it up to
  date, and \<open>SCCsFor\<close> combines it with the role bindings of a service account. The lemmas show that the
  event handlers keep the cache equal to what the listed roles allow on the listed SCCs, and that on
  such a cache \<open>SCCsFor\<close> returns exactly the SCCs that the account is granted directly or by RBAC.

  The RBAC rule evaluation (\<open>RulesAllow\<close>) and the service account names are those of the vendored
  Kubernetes packages. A lister is a result value, since its \<open>List\<close> may fail.
\<close>

section \<open>RBAC objects\<close>

record policy_rule =
  Verbs :: "string list"
  APIGroups :: "string list"
  Resources :: "string list"
  ResourceNames :: "string list"

text \<open>\<open>rbacv1.Role\<close> and \<open>rbacv1.ClusterRole\<close>.\<close>

record role =
  ro_Name :: string
  ro_Namespace :: string
  ro_Rules :: "policy_rule list"

record subject =
  sub_Kind :: string
  sub_APIGroup :: string
  sub_Name :: string
  sub_Namespace :: string

record role_ref =
  rr_APIGroup :: string
  rr_Kind :: string
  rr_Name :: string

text \<open>\<open>rbacv1.RoleBinding\<close> and \<open>rbacv1.ClusterRoleBinding\<close>.\<close>

record binding =
  bi_Namespace :: string
  bi_RoleRef :: role_ref
  bi_Subjects :: "subject list"

datatype roleBindingObj = RoleBinding binding | ClusterRoleBinding binding

datatype roleObj = Role role | ClusterRole role

text \<open>The \<open>interface{}\<close> values that reach the handlers; a service account by its namespace and name.\<close>

datatype object =
    RoleBindingO binding
  | ClusterRoleBindingO binding
  | RoleO role
  | ClusterRoleO role
  | RoleObjO roleObj
  | SccO scc
  | NamespaceO namespace
  | ServiceAccountO string string
  | Tombstone object
  | OtherO

definition newRoleBindingObj :: "object \<Rightarrow> roleBindingObj option" where
  "newRoleBindingObj obj =
     (case obj of
        ClusterRoleBindingO b \<Rightarrow> Some (ClusterRoleBinding b)
      | RoleBindingO b \<Rightarrow> Some (RoleBinding b)
      | _ \<Rightarrow> None)"

fun rb_RoleRef :: "roleBindingObj \<Rightarrow> role_ref" where
  "rb_RoleRef (ClusterRoleBinding b) = bi_RoleRef b"
| "rb_RoleRef (RoleBinding b) = bi_RoleRef b"

fun rb_Subjects :: "roleBindingObj \<Rightarrow> subject list" where
  "rb_Subjects (ClusterRoleBinding b) = bi_Subjects b"
| "rb_Subjects (RoleBinding b) = bi_Subjects b"

fun rb_Namespace :: "roleBindingObj \<Rightarrow> string" where
  "rb_Namespace (ClusterRoleBinding b) = []"
| "rb_Namespace (RoleBinding b) = bi_Namespace b"

definition NewRoleObj :: "object \<Rightarrow> roleObj option" where
  "NewRoleObj obj =
     (case obj of
        ClusterRoleO r \<Rightarrow> Some (ClusterRole r)
      | RoleO r \<Rightarrow> Some (Role r)
      | RoleObjO r \<Rightarrow> Some r
      | _ \<Rightarrow> None)"

fun role_Rules :: "roleObj \<Rightarrow> policy_rule list" where
  "role_Rules (ClusterRole r) = ro_Rules r"
| "role_Rules (Role r) = ro_Rules r"

fun role_Name :: "roleObj \<Rightarrow> string" where
  "role_Name (ClusterRole r) = ro_Name r"
| "role_Name (Role r) = ro_Name r"

fun role_Namespace :: "roleObj \<Rightarrow> string" where
  "role_Namespace (ClusterRole r) = ro_Namespace r"
| "role_Namespace (Role r) = ro_Namespace r"

definition usefulRolesKey :: "roleObj \<Rightarrow> string" where
  "usefulRolesKey r = role_Namespace r @ ''/'' @ role_Name r"

section \<open>RBAC rules\<close>

text \<open>\<open>pkg/apis/rbac/v1/evaluation_helpers.go\<close> and \<open>RulesAllow\<close>, for a request without subresource.\<close>

definition VerbMatches :: "policy_rule \<Rightarrow> string \<Rightarrow> bool" where
  "VerbMatches rule requestedVerb \<longleftrightarrow> list_ex (\<lambda>v. v = ''*'' \<or> v = requestedVerb) (Verbs rule)"

definition APIGroupMatches :: "policy_rule \<Rightarrow> string \<Rightarrow> bool" where
  "APIGroupMatches rule requestedGroup \<longleftrightarrow> list_ex (\<lambda>g. g = ''*'' \<or> g = requestedGroup) (APIGroups rule)"

definition ResourceMatches :: "policy_rule \<Rightarrow> string \<Rightarrow> bool" where
  "ResourceMatches rule combinedRequestedResource \<longleftrightarrow>
     list_ex (\<lambda>r. r = ''*'' \<or> r = combinedRequestedResource) (Resources rule)"

definition ResourceNameMatches :: "policy_rule \<Rightarrow> string \<Rightarrow> bool" where
  "ResourceNameMatches rule requestedName \<longleftrightarrow>
     ResourceNames rule = [] \<or> list_ex (\<lambda>n. n = requestedName) (ResourceNames rule)"

definition RuleAllows :: "string \<Rightarrow> string \<Rightarrow> string \<Rightarrow> string \<Rightarrow> policy_rule \<Rightarrow> bool" where
  "RuleAllows verb apiGroup resource name rule \<longleftrightarrow>
     VerbMatches rule verb \<and> APIGroupMatches rule apiGroup \<and> ResourceMatches rule resource \<and>
     ResourceNameMatches rule name"

definition RulesAllow :: "string \<Rightarrow> string \<Rightarrow> string \<Rightarrow> string \<Rightarrow> policy_rule list \<Rightarrow> bool" where
  "RulesAllow verb apiGroup resource name rules \<longleftrightarrow> list_ex (RuleAllows verb apiGroup resource name) rules"

definition sccAllowedByPolicyRules :: "scc \<Rightarrow> policy_rule list \<Rightarrow> bool" where
  "sccAllowedByPolicyRules scc rules =
     RulesAllow ''use'' ''security.openshift.io'' ''securitycontextconstraints'' (scc_Name scc) rules"

section \<open>Service accounts and the binding index\<close>

definition MakeUsername :: "string \<Rightarrow> string \<Rightarrow> string" where
  "MakeUsername namespace name = ''system:serviceaccount:'' @ namespace @ '':'' @ name"

record user_info =
  ui_Name :: string
  ui_Groups :: "string list"

text \<open>\<open>serviceaccount.UserInfo\<close> with the group \<open>system:authenticated\<close> added.\<close>

definition realSAUserInfo :: "string \<Rightarrow> string \<Rightarrow> user_info" where
  "realSAUserInfo namespace name =
     \<lparr>ui_Name = MakeUsername namespace name,
      ui_Groups = [''system:serviceaccounts'', ''system:serviceaccounts:'' @ namespace] @ [''system:authenticated'']\<rparr>"

definition subject_keys :: "string \<Rightarrow> subject \<Rightarrow> string list" where
  "subject_keys ns subject =
     (if sub_APIGroup subject = [] \<and> sub_Kind subject = ''ServiceAccount'' then
        [MakeUsername (if sub_Namespace subject = [] then ns else sub_Namespace subject) (sub_Name subject)]
      else if sub_APIGroup subject = ''rbac.authorization.k8s.io'' \<and> sub_Kind subject = ''Group'' then
        (if sub_Name subject = ''system:serviceaccounts'' \<or> sub_Name subject = ''system:authenticated'' \<or>
            HasPrefix (sub_Name subject) ''system:serviceaccounts:''
         then [sub_Name subject] else [])
      else [])"

definition BySAIndexKeys :: "object \<Rightarrow> string list option" where
  "BySAIndexKeys obj =
     (case newRoleBindingObj obj of
        None \<Rightarrow> None
      | Some rb \<Rightarrow> Some (concat (map (subject_keys (rb_Namespace rb)) (rb_Subjects rb))))"

text \<open>
  \<open>cache.Indexer.ByIndex\<close>: the stored objects whose index function returns the key, or an error when
  the index does not exist. \<open>indexed\<close> is whether \<open>AddIndexers\<close> has been called.
\<close>

record indexer =
  ix_indexed :: bool
  ix_objects :: "object list"

definition ByIndex :: "indexer \<Rightarrow> string \<Rightarrow> object list option" where
  "ByIndex ix key =
     (if ix_indexed ix
      then Some (filter (\<lambda>o'. case BySAIndexKeys o' of None \<Rightarrow> False | Some ks \<Rightarrow> key \<in> set ks) (ix_objects ix))
      else None)"

fun group_bindings :: "indexer \<Rightarrow> object list \<Rightarrow> string list \<Rightarrow> object list option" where
  "group_bindings ix objs [] = Some objs"
| "group_bindings ix objs (g # gs) =
     (case ByIndex ix g of
        None \<Rightarrow> None
      | Some groupObjs \<Rightarrow> group_bindings ix (objs @ groupObjs) gs)"

definition getIndexedRolebindings :: "indexer \<Rightarrow> user_info \<Rightarrow> object list option" where
  "getIndexedRolebindings ix saUserInfo =
     (case ByIndex ix (ui_Name saUserInfo) of
        None \<Rightarrow> None
      | Some objs \<Rightarrow> group_bindings ix objs (ui_Groups saUserInfo))"

definition sccAllowsSA :: "scc \<Rightarrow> user_info \<Rightarrow> bool" where
  "sccAllowsSA scc saUserInfo \<longleftrightarrow>
     list_ex (\<lambda>u. u = ui_Name saUserInfo) (scc_Users scc) \<or>
     list_ex (\<lambda>g. g \<in> set (ui_Groups saUserInfo)) (scc_Groups scc)"

definition roleBindingAppliesToNS :: "roleBindingObj \<Rightarrow> string \<Rightarrow> bool" where
  "roleBindingAppliesToNS rb ns =
     (let roleBindingNS = rb_Namespace rb in if roleBindingNS = [] then True else ns = roleBindingNS)"

section \<open>The cache\<close>

text \<open>
  \<open>usefulRoles\<close> and what the external queue function was called with, in order. The listers and
  indexers are read as they are when a handler runs.
\<close>

record listers =
  li_sccs :: "api_error + scc list"
  li_roles :: "api_error + role list"
  li_clusterRoles :: "api_error + role list"
  li_roleBindings :: indexer
  li_clusterRoleBindings :: indexer

record saToSCCCache =
  usefulRoles :: "string \<rightharpoonup> string set"
  hasExternalQueue :: bool
  enqueued :: "object list"

definition NewSAToSCCCache :: saToSCCCache where
  "NewSAToSCCCache = \<lparr>usefulRoles = Map.empty, hasExternalQueue = False, enqueued = []\<rparr>"

definition WithExternalQueueEnqueue :: "saToSCCCache \<Rightarrow> saToSCCCache" where
  "WithExternalQueueEnqueue c = c\<lparr>hasExternalQueue := True\<rparr>"

definition addToExternalJobQueue :: "object \<Rightarrow> saToSCCCache \<Rightarrow> saToSCCCache" where
  "addToExternalJobQueue obj c = (if hasExternalQueue c then c\<lparr>enqueued := enqueued c @ [obj]\<rparr> else c)"

text \<open>Reading an absent key gives the nil set, which is empty.\<close>

definition cached :: "saToSCCCache \<Rightarrow> string \<Rightarrow> string set" where
  "cached c k = (case usefulRoles c k of Some s \<Rightarrow> s | None \<Rightarrow> {})"

definition syncRoleCacheSingleSCCAdded :: "roleObj \<Rightarrow> scc \<Rightarrow> saToSCCCache \<Rightarrow> saToSCCCache" where
  "syncRoleCacheSingleSCCAdded role scc c =
     (if sccAllowedByPolicyRules scc (role_Rules role)
      then c\<lparr>usefulRoles := (usefulRoles c)(usefulRolesKey role \<mapsto> insert (scc_Name scc) (cached c (usefulRolesKey role)))\<rparr>
      else c)"

definition syncRoleCache :: "roleObj \<Rightarrow> scc list \<Rightarrow> saToSCCCache \<Rightarrow> saToSCCCache" where
  "syncRoleCache role sccs c =
     (let allowedSCCs = set (map scc_Name (filter (\<lambda>scc. sccAllowedByPolicyRules scc (role_Rules role)) sccs))
      in c\<lparr>usefulRoles := (usefulRoles c)(usefulRolesKey role \<mapsto> allowedSCCs)\<rparr>)"

definition handleRoleModified :: "listers \<Rightarrow> object \<Rightarrow> saToSCCCache \<Rightarrow> saToSCCCache" where
  "handleRoleModified li obj c =
     (case li_sccs li of
        Inl _ \<Rightarrow> c
      | Inr sccs \<Rightarrow>
          (case NewRoleObj obj of
             None \<Rightarrow> c
           | Some role \<Rightarrow>
               let currentRoleSCCs = cached c (usefulRolesKey role);
                   c' = syncRoleCache role sccs c;
                   updatedRoleSCCs = cached c' (usefulRolesKey role)
               in if currentRoleSCCs \<noteq> updatedRoleSCCs then addToExternalJobQueue (RoleObjO role) c' else c'))"

definition handleRoleRemoved :: "object \<Rightarrow> saToSCCCache \<Rightarrow> saToSCCCache" where
  "handleRoleRemoved obj c =
     (case NewRoleObj obj of
        None \<Rightarrow> c
      | Some role \<Rightarrow>
          if usefulRoles c (usefulRolesKey role) \<noteq> None
          then addToExternalJobQueue obj (c\<lparr>usefulRoles := (usefulRoles c)(usefulRolesKey role := None)\<rparr>)
          else c)"

definition handleSCCAdded :: "listers \<Rightarrow> object \<Rightarrow> saToSCCCache \<Rightarrow> saToSCCCache" where
  "handleSCCAdded li obj c =
     (case obj of
        SccO scc \<Rightarrow>
          (case li_roles li of
             Inl _ \<Rightarrow> c
           | Inr roles \<Rightarrow>
               (case li_clusterRoles li of
                  Inl _ \<Rightarrow> c
                | Inr clusterRoles \<Rightarrow>
                    let c1 = fold (\<lambda>r. syncRoleCacheSingleSCCAdded (Role r) scc) roles c;
                        c2 = fold (\<lambda>r. syncRoleCacheSingleSCCAdded (ClusterRole r) scc) clusterRoles c1
                    in addToExternalJobQueue obj c2))
      | _ \<Rightarrow> c)"

definition handleSCCDeleted :: "object \<Rightarrow> saToSCCCache \<Rightarrow> saToSCCCache" where
  "handleSCCDeleted obj c =
     (case obj of
        SccO scc \<Rightarrow>
          addToExternalJobQueue obj
            (c\<lparr>usefulRoles := (\<lambda>k. case usefulRoles c k of None \<Rightarrow> None | Some s \<Rightarrow> Some (s - {scc_Name scc}))\<rparr>)
      | _ \<Rightarrow> c)"

section \<open>Queries\<close>

datatype cache_error = IndexFailed | ListSCCsFailed api_error | BadBinding

definition binding_sccs :: "saToSCCCache \<Rightarrow> string \<Rightarrow> roleBindingObj \<Rightarrow> string set" where
  "binding_sccs c saNamespace rb =
     (let roleCachedKey = ''/'' @ rr_Name (rb_RoleRef rb);
          roleCachedKey' = (if rr_Kind (rb_RoleRef rb) = ''Role'' then rb_Namespace rb @ roleCachedKey else roleCachedKey);
          cachedAllowedSCCs = cached c roleCachedKey'
      in if cachedAllowedSCCs = {} then {}
         else if roleBindingAppliesToNS rb saNamespace \<and>
                 rr_APIGroup (rb_RoleRef rb) = ''rbac.authorization.k8s.io''
         then cachedAllowedSCCs else {})"

fun bindings_loop :: "saToSCCCache \<Rightarrow> string \<Rightarrow> string set \<Rightarrow> object list \<Rightarrow> cache_error + string set" where
  "bindings_loop c saNamespace allowedSCCs [] = Inr allowedSCCs"
| "bindings_loop c saNamespace allowedSCCs (o' # objs) =
     (case newRoleBindingObj o' of
        None \<Rightarrow> Inl BadBinding
      | Some rb \<Rightarrow> bindings_loop c saNamespace (allowedSCCs \<union> binding_sccs c saNamespace rb) objs)"

definition SCCsFor :: "listers \<Rightarrow> saToSCCCache \<Rightarrow> string \<Rightarrow> string \<Rightarrow> cache_error + string set" where
  "SCCsFor li c saNamespace saName =
     (let ui = realSAUserInfo saNamespace saName
      in case getIndexedRolebindings (li_roleBindings li) ui of
           None \<Rightarrow> Inl IndexFailed
         | Some bindingObjs \<Rightarrow>
             (case getIndexedRolebindings (li_clusterRoleBindings li) ui of
                None \<Rightarrow> Inl IndexFailed
              | Some clusterBindingObjs \<Rightarrow>
                  (case li_sccs li of
                     Inl e \<Rightarrow> Inl (ListSCCsFailed e)
                   | Inr sccs \<Rightarrow>
                       bindings_loop c saNamespace
                         (set (map scc_Name (filter (\<lambda>scc. sccAllowsSA scc ui) sccs)))
                         (bindingObjs @ clusterBindingObjs))))"

text \<open>\<open>roleLister.Roles(ns).Get\<close> and \<open>clusterRoleLister.Get\<close> on the listed objects.\<close>

definition getRoleFromRoleRef :: "listers \<Rightarrow> string \<Rightarrow> role_ref \<Rightarrow> roleObj option" where
  "getRoleFromRoleRef li ns roleRef =
     (if rr_Kind roleRef = ''Role'' then
        (case li_roles li of
           Inl _ \<Rightarrow> None
         | Inr rs \<Rightarrow> map_option Role (find (\<lambda>r. ro_Namespace r = ns \<and> ro_Name r = rr_Name roleRef) rs))
      else if rr_Kind roleRef = ''ClusterRole'' then
        (case li_clusterRoles li of
           Inl _ \<Rightarrow> None
         | Inr rs \<Rightarrow> map_option ClusterRole (find (\<lambda>r. ro_Name r = rr_Name roleRef) rs))
      else None)"

definition IsRoleBindingRelevant :: "listers \<Rightarrow> saToSCCCache \<Rightarrow> object \<Rightarrow> bool" where
  "IsRoleBindingRelevant li c obj =
     (case newRoleBindingObj obj of
        None \<Rightarrow> False
      | Some rb \<Rightarrow>
          (case getRoleFromRoleRef li (rb_Namespace rb) (rb_RoleRef rb) of
             None \<Rightarrow> False
           | Some role \<Rightarrow> cached c (usefulRolesKey role) \<noteq> {}))"

section \<open>Informer events\<close>

text \<open>
  The stored objects, and the events that change them. \<open>dispatch\<close> is \<open>AddEventHandlers\<close>: which handler
  an event reaches, after the store has been updated. Updates of SCCs reach none.
\<close>

record store =
  st_sccs :: "scc list"
  st_roles :: "role list"
  st_clusterRoles :: "role list"
  st_roleBindings :: "binding list"
  st_clusterRoleBindings :: "binding list"

definition listers_of :: "store \<Rightarrow> listers" where
  "listers_of st =
     \<lparr>li_sccs = Inr (st_sccs st), li_roles = Inr (st_roles st), li_clusterRoles = Inr (st_clusterRoles st),
      li_roleBindings = \<lparr>ix_indexed = True, ix_objects = map RoleBindingO (st_roleBindings st)\<rparr>,
      li_clusterRoleBindings =
        \<lparr>ix_indexed = True, ix_objects = map ClusterRoleBindingO (st_clusterRoleBindings st)\<rparr>\<rparr>"

datatype event =
    SetRole role
  | DeleteRole role
  | SetClusterRole role
  | DeleteClusterRole role
  | AddScc scc
  | UpdateScc scc
  | DeleteScc scc
  | SetBindings "binding list" "binding list"

definition same_role :: "role \<Rightarrow> role \<Rightarrow> bool" where
  "same_role r r' \<longleftrightarrow> ro_Namespace r = ro_Namespace r' \<and> ro_Name r = ro_Name r'"

fun store_step :: "event \<Rightarrow> store \<Rightarrow> store" where
  "store_step (SetRole r) st = st\<lparr>st_roles := filter (\<lambda>x. \<not> same_role r x) (st_roles st) @ [r]\<rparr>"
| "store_step (DeleteRole r) st = st\<lparr>st_roles := filter (\<lambda>x. \<not> same_role r x) (st_roles st)\<rparr>"
| "store_step (SetClusterRole r) st =
     st\<lparr>st_clusterRoles := filter (\<lambda>x. \<not> same_role r x) (st_clusterRoles st) @ [r]\<rparr>"
| "store_step (DeleteClusterRole r) st =
     st\<lparr>st_clusterRoles := filter (\<lambda>x. \<not> same_role r x) (st_clusterRoles st)\<rparr>"
| "store_step (AddScc s) st = st\<lparr>st_sccs := st_sccs st @ [s]\<rparr>"
| "store_step (UpdateScc s) st = st\<lparr>st_sccs := map (\<lambda>x. if scc_Name x = scc_Name s then s else x) (st_sccs st)\<rparr>"
| "store_step (DeleteScc s) st = st\<lparr>st_sccs := filter (\<lambda>x. scc_Name x \<noteq> scc_Name s) (st_sccs st)\<rparr>"
| "store_step (SetBindings bs cbs) st = st\<lparr>st_roleBindings := bs, st_clusterRoleBindings := cbs\<rparr>"

fun dispatch :: "listers \<Rightarrow> event \<Rightarrow> saToSCCCache \<Rightarrow> saToSCCCache" where
  "dispatch li (SetRole r) c = handleRoleModified li (RoleO r) c"
| "dispatch li (DeleteRole r) c = handleRoleRemoved (RoleO r) c"
| "dispatch li (SetClusterRole r) c = handleRoleModified li (ClusterRoleO r) c"
| "dispatch li (DeleteClusterRole r) c = handleRoleRemoved (ClusterRoleO r) c"
| "dispatch li (AddScc s) c = handleSCCAdded li (SccO s) c"
| "dispatch li (UpdateScc s) c = c"
| "dispatch li (DeleteScc s) c = handleSCCDeleted (SccO s) c"
| "dispatch li (SetBindings bs cbs) c = c"

definition cache_step :: "event \<Rightarrow> store \<times> saToSCCCache \<Rightarrow> store \<times> saToSCCCache" where
  "cache_step e s = (case s of (st, c) \<Rightarrow> let st' = store_step e st in (st', dispatch (listers_of st') e c))"

section \<open>Coherence of the cache\<close>

text \<open>Names as the API server admits them: no slash in a namespace, none at all for a cluster role.\<close>

fun wf_event :: "event \<Rightarrow> bool" where
  "wf_event (SetRole r) \<longleftrightarrow> ro_Namespace r \<noteq> [] \<and> CHR ''/'' \<notin> set (ro_Namespace r)"
| "wf_event (DeleteRole r) \<longleftrightarrow> ro_Namespace r \<noteq> [] \<and> CHR ''/'' \<notin> set (ro_Namespace r)"
| "wf_event (SetClusterRole r) \<longleftrightarrow> ro_Namespace r = []"
| "wf_event (DeleteClusterRole r) \<longleftrightarrow> ro_Namespace r = []"
| "wf_event (SetBindings bs cbs) \<longleftrightarrow> (\<forall>b \<in> set bs. bi_Namespace b \<noteq> [] \<and> CHR ''/'' \<notin> set (bi_Namespace b))"
| "wf_event _ \<longleftrightarrow> True"

definition wf_store :: "store \<Rightarrow> bool" where
  "wf_store st \<longleftrightarrow>
     (\<forall>r \<in> set (st_roles st). ro_Namespace r \<noteq> [] \<and> CHR ''/'' \<notin> set (ro_Namespace r)) \<and>
     (\<forall>r \<in> set (st_clusterRoles st). ro_Namespace r = []) \<and>
     (\<forall>b \<in> set (st_roleBindings st). bi_Namespace b \<noteq> [] \<and> CHR ''/'' \<notin> set (bi_Namespace b))"

definition all_roles :: "store \<Rightarrow> roleObj set" where
  "all_roles st = Role ` set (st_roles st) \<union> ClusterRole ` set (st_clusterRoles st)"

definition allowed_by :: "store \<Rightarrow> string \<Rightarrow> string set" where
  "allowed_by st k = {scc_Name s | s r. s \<in> set (st_sccs st) \<and> r \<in> all_roles st \<and>
     usefulRolesKey r = k \<and> sccAllowedByPolicyRules s (role_Rules r)}"

definition coherent :: "store \<Rightarrow> saToSCCCache \<Rightarrow> bool" where
  "coherent st c \<longleftrightarrow> (\<forall>k. cached c k = allowed_by st k)"

lemma append_slash_eq:
  "CHR ''/'' \<notin> set a \<Longrightarrow> CHR ''/'' \<notin> set b \<Longrightarrow> a @ CHR ''/'' # x = b @ CHR ''/'' # y \<longleftrightarrow> a = b \<and> x = y"
  by (induction a arbitrary: b) (auto simp: Cons_eq_append_conv, (case_tac b; auto)+)

lemma usefulRolesKey_eq:
  assumes "CHR ''/'' \<notin> set (role_Namespace r)" "CHR ''/'' \<notin> set (role_Namespace r')"
  shows "usefulRolesKey r = usefulRolesKey r' \<longleftrightarrow>
    role_Namespace r = role_Namespace r' \<and> role_Name r = role_Name r'"
  using append_slash_eq [OF assms] by (simp add: usefulRolesKey_def)

lemma all_roles_slash: "wf_store st \<Longrightarrow> r \<in> all_roles st \<Longrightarrow> CHR ''/'' \<notin> set (role_Namespace r)"
  by (auto simp: wf_store_def all_roles_def)

lemma cached_enqueue [simp]: "cached (addToExternalJobQueue x c) k = cached c k"
  by (simp add: addToExternalJobQueue_def cached_def)

lemma sccAllowedByPolicyRules_name:
  "scc_Name s = scc_Name s' \<Longrightarrow> sccAllowedByPolicyRules s rules = sccAllowedByPolicyRules s' rules"
  by (simp add: sccAllowedByPolicyRules_def)

lemma cached_syncRoleCache:
  "cached (syncRoleCache r sccs c) k =
     (if k = usefulRolesKey r
      then {scc_Name s | s. s \<in> set sccs \<and> sccAllowedByPolicyRules s (role_Rules r)} else cached c k)"
  by (auto simp: syncRoleCache_def cached_def)

lemma cached_handleRoleModified:
  "li_sccs li = Inr sccs \<Longrightarrow> NewRoleObj obj = Some r \<Longrightarrow>
   cached (handleRoleModified li obj c) k = cached (syncRoleCache r sccs c) k"
  by (simp add: handleRoleModified_def Let_def)

lemma cached_handleRoleRemoved:
  "NewRoleObj obj = Some r \<Longrightarrow>
   cached (handleRoleRemoved obj c) k = (if k = usefulRolesKey r then {} else cached c k)"
  by (simp add: handleRoleRemoved_def) (auto simp: cached_def split: option.split)

lemma cached_single_added:
  "cached (syncRoleCacheSingleSCCAdded r s c) k =
     cached c k \<union> (if usefulRolesKey r = k \<and> sccAllowedByPolicyRules s (role_Rules r) then {scc_Name s} else {})"
  by (auto simp: syncRoleCacheSingleSCCAdded_def cached_def split: option.split)

lemma cached_fold_added:
  "cached (fold (\<lambda>r. syncRoleCacheSingleSCCAdded (f r) s) rs c) k =
     cached c k \<union> {scc_Name s | r. r \<in> set rs \<and> usefulRolesKey (f r) = k \<and>
       sccAllowedByPolicyRules s (role_Rules (f r))}"
  by (induction rs arbitrary: c) (auto simp: cached_single_added)

lemma cached_handleSCCDeleted:
  "cached (handleSCCDeleted (SccO s) c) k = cached c k - {scc_Name s}"
  by (simp add: handleSCCDeleted_def) (simp add: cached_def split: option.split)

lemma wf_store_step: "wf_store st \<Longrightarrow> wf_event e \<Longrightarrow> wf_store (store_step e st)"
  by (cases e) (auto simp: wf_store_def)

text \<open>An event on a role replaces or removes exactly the roles with its key.\<close>

lemma key_Role_iff:
  assumes "wf_store st" "x \<in> all_roles st" "ro_Namespace r \<noteq> []" "CHR ''/'' \<notin> set (ro_Namespace r)"
  shows "usefulRolesKey x = usefulRolesKey (Role r) \<longleftrightarrow> (\<exists>y \<in> set (st_roles st). x = Role y \<and> same_role r y)"
  using usefulRolesKey_eq [OF all_roles_slash [OF assms(1,2)], of "Role r"] assms
  by (auto simp: all_roles_def wf_store_def same_role_def)

lemma key_ClusterRole_iff:
  assumes "wf_store st" "x \<in> all_roles st" "ro_Namespace r = []"
  shows "usefulRolesKey x = usefulRolesKey (ClusterRole r) \<longleftrightarrow>
    (\<exists>y \<in> set (st_clusterRoles st). x = ClusterRole y \<and> same_role r y)"
  using usefulRolesKey_eq [OF all_roles_slash [OF assms(1,2)], of "ClusterRole r"] assms
  by (auto simp: all_roles_def wf_store_def same_role_def)

lemma all_roles_Set:
  assumes "wf_store st"
  shows "wf_event (SetRole r) \<Longrightarrow> all_roles (store_step (SetRole r) st) =
      insert (Role r) {x \<in> all_roles st. usefulRolesKey x \<noteq> usefulRolesKey (Role r)}"
    and "wf_event (SetClusterRole r) \<Longrightarrow> all_roles (store_step (SetClusterRole r) st) =
      insert (ClusterRole r) {x \<in> all_roles st. usefulRolesKey x \<noteq> usefulRolesKey (ClusterRole r)}"
    and "wf_event (DeleteRole r) \<Longrightarrow> all_roles (store_step (DeleteRole r) st) =
      {x \<in> all_roles st. usefulRolesKey x \<noteq> usefulRolesKey (Role r)}"
    and "wf_event (DeleteClusterRole r) \<Longrightarrow> all_roles (store_step (DeleteClusterRole r) st) =
      {x \<in> all_roles st. usefulRolesKey x \<noteq> usefulRolesKey (ClusterRole r)}"
  using key_Role_iff [OF assms, of _ r] key_ClusterRole_iff [OF assms, of _ r]
  by (auto simp: all_roles_def)

lemma coherent_role_set:
  assumes "coherent st c" "st_sccs st' = st_sccs st"
    and "all_roles st' = insert r {x \<in> all_roles st. usefulRolesKey x \<noteq> usefulRolesKey r}"
    and "\<And>k. cached c' k = cached (syncRoleCache r (st_sccs st) c) k"
  shows "coherent st' c'"
  using assms unfolding coherent_def cached_syncRoleCache allowed_by_def by auto

lemma coherent_role_deleted:
  assumes "coherent st c" "st_sccs st' = st_sccs st"
    and "all_roles st' = {x \<in> all_roles st. usefulRolesKey x \<noteq> usefulRolesKey r}"
    and "\<And>k. cached c' k = (if k = usefulRolesKey r then {} else cached c k)"
  shows "coherent st' c'"
  using assms unfolding coherent_def allowed_by_def by auto

lemma all_roles_sccs [simp]: "all_roles (st\<lparr>st_sccs := x\<rparr>) = all_roles st"
  by (simp add: all_roles_def)

lemma cached_handleSCCAdded:
  "cached (handleSCCAdded (listers_of st) (SccO s) c) k =
     cached c k \<union> {scc_Name s | r. r \<in> all_roles st \<and> usefulRolesKey r = k \<and>
       sccAllowedByPolicyRules s (role_Rules r)}"
  unfolding handleSCCAdded_def listers_of_def all_roles_def
  by (auto simp: Let_def cached_fold_added)

lemma coherent_scc_added:
  assumes "coherent st c"
  shows "coherent (store_step (AddScc s) st) (dispatch (listers_of (store_step (AddScc s) st)) (AddScc s) c)"
  using assms unfolding coherent_def allowed_by_def by (auto simp: cached_handleSCCAdded)

lemma coherent_scc_deleted:
  assumes "coherent st c"
  shows "coherent (store_step (DeleteScc s) st) (handleSCCDeleted (SccO s) c)"
  using assms unfolding coherent_def allowed_by_def cached_handleSCCDeleted by auto

lemma coherent_scc_updated:
  assumes "coherent st c"
  shows "coherent (store_step (UpdateScc s) st) c"
proof -
  have "allowed_by (store_step (UpdateScc s) st) k = allowed_by st k" for k
    unfolding allowed_by_def
    by (auto simp: sccAllowedByPolicyRules_def image_iff split: if_splits) (metis (full_types))+
  with assms show ?thesis by (simp add: coherent_def)
qed

lemma coherent_modified:
  assumes "coherent st c" "st_sccs st' = st_sccs st" "NewRoleObj obj = Some r"
    and "all_roles st' = insert r {x \<in> all_roles st. usefulRolesKey x \<noteq> usefulRolesKey r}"
  shows "coherent st' (handleRoleModified (listers_of st') obj c)"
  by (rule coherent_role_set [OF assms(1,2,4)])
    (simp add: cached_handleRoleModified [OF _ assms(3)] listers_of_def assms(2))

lemma coherent_removed:
  assumes "coherent st c" "st_sccs st' = st_sccs st" "NewRoleObj obj = Some r"
    and "all_roles st' = {x \<in> all_roles st. usefulRolesKey x \<noteq> usefulRolesKey r}"
  shows "coherent st' (handleRoleRemoved obj c)"
  by (rule coherent_role_deleted [OF assms(1,2,4)]) (rule cached_handleRoleRemoved [OF assms(3)])

lemma coherent_step:
  assumes "wf_store st" "wf_event e" "coherent st c" "cache_step e (st, c) = (st', c')"
  shows "wf_store st' \<and> coherent st' c'"
proof -
  have st': "st' = store_step e st" "c' = dispatch (listers_of st') e c"
    using assms(4) by (auto simp: cache_step_def Let_def)
  note roles = all_roles_Set [OF assms(1)]
  have "coherent st' c'"
  proof (cases e)
    case (SetRole r)
    show ?thesis using coherent_modified [OF assms(3), of st' "RoleO r" "Role r"] roles(1) [of r] assms(2) SetRole st'
      by (simp add: NewRoleObj_def)
  next
    case (SetClusterRole r)
    show ?thesis using coherent_modified [OF assms(3), of st' "ClusterRoleO r" "ClusterRole r"] roles(2) [of r]
        assms(2) SetClusterRole st' by (simp add: NewRoleObj_def)
  next
    case (DeleteRole r)
    show ?thesis using coherent_removed [OF assms(3), of st' "RoleO r" "Role r"] roles(3) [of r] assms(2) DeleteRole st'
      by (simp add: NewRoleObj_def)
  next
    case (DeleteClusterRole r)
    show ?thesis using coherent_removed [OF assms(3), of st' "ClusterRoleO r" "ClusterRole r"] roles(4) [of r]
        assms(2) DeleteClusterRole st' by (simp add: NewRoleObj_def)
  next
    case (SetBindings bs cbs)
    then show ?thesis using st' assms(3) by (simp add: coherent_def allowed_by_def all_roles_def)
  qed (use st' assms(3) coherent_scc_added coherent_scc_deleted coherent_scc_updated in auto)
  with st' wf_store_step [OF assms(1,2)] show ?thesis by simp
qed

section \<open>What SCCsFor returns\<close>

text \<open>The specification: who is a subject of a binding, which role it refers to, what that grants.\<close>

definition subject_is :: "string \<Rightarrow> user_info \<Rightarrow> subject \<Rightarrow> bool" where
  "subject_is ns ui sub \<longleftrightarrow>
     (sub_APIGroup sub = [] \<and> sub_Kind sub = ''ServiceAccount'' \<and>
        MakeUsername (if sub_Namespace sub = [] then ns else sub_Namespace sub) (sub_Name sub) = ui_Name ui) \<or>
     (sub_APIGroup sub = ''rbac.authorization.k8s.io'' \<and> sub_Kind sub = ''Group'' \<and>
        sub_Name sub \<in> set (ui_Groups ui))"

definition refers :: "roleBindingObj \<Rightarrow> roleObj \<Rightarrow> bool" where
  "refers rb r \<longleftrightarrow> role_Name r = rr_Name (rb_RoleRef rb) \<and>
     role_Namespace r = (if rr_Kind (rb_RoleRef rb) = ''Role'' then rb_Namespace rb else [])"

definition bindings :: "store \<Rightarrow> roleBindingObj set" where
  "bindings st = RoleBinding ` set (st_roleBindings st) \<union> ClusterRoleBinding ` set (st_clusterRoleBindings st)"

definition rbac_grants :: "store \<Rightarrow> string \<Rightarrow> user_info \<Rightarrow> scc \<Rightarrow> bool" where
  "rbac_grants st ns ui s \<longleftrightarrow> (\<exists>rb \<in> bindings st. \<exists>r \<in> all_roles st.
     (\<exists>sub \<in> set (rb_Subjects rb). subject_is (rb_Namespace rb) ui sub) \<and>
     (rb_Namespace rb = [] \<or> rb_Namespace rb = ns) \<and>
     rr_APIGroup (rb_RoleRef rb) = ''rbac.authorization.k8s.io'' \<and>
     refers rb r \<and> sccAllowedByPolicyRules s (role_Rules r))"

definition granted :: "store \<Rightarrow> string \<Rightarrow> string \<Rightarrow> string set" where
  "granted st ns name = {scc_Name s | s. s \<in> set (st_sccs st) \<and>
     (sccAllowsSA s (realSAUserInfo ns name) \<or> rbac_grants st ns (realSAUserInfo ns name) s)}"

lemma group_bindings_set:
  "ix_indexed ix \<Longrightarrow> \<exists>objs'. group_bindings ix objs gs = Some objs' \<and> set objs' = set objs \<union>
     {o' \<in> set (ix_objects ix). \<exists>ks. BySAIndexKeys o' = Some ks \<and> set gs \<inter> set ks \<noteq> {}}"
  by (induction gs arbitrary: objs) (force simp: ByIndex_def split: option.splits)+

lemma getIndexedRolebindings_set:
  assumes "ix_indexed ix"
  obtains objs where "getIndexedRolebindings ix ui = Some objs"
    "set objs = {o' \<in> set (ix_objects ix). \<exists>ks. BySAIndexKeys o' = Some ks \<and>
       insert (ui_Name ui) (set (ui_Groups ui)) \<inter> set ks \<noteq> {}}"
proof -
  let ?f = "\<lambda>o'. case BySAIndexKeys o' of None \<Rightarrow> False | Some ks \<Rightarrow> ui_Name ui \<in> set ks"
  have by_name: "ByIndex ix (ui_Name ui) = Some (filter ?f (ix_objects ix))"
    using assms by (simp add: ByIndex_def)
  obtain objs where o: "group_bindings ix (filter ?f (ix_objects ix)) (ui_Groups ui) = Some objs"
    "set objs = set (filter ?f (ix_objects ix)) \<union>
       {o' \<in> set (ix_objects ix). \<exists>ks. BySAIndexKeys o' = Some ks \<and> set (ui_Groups ui) \<inter> set ks \<noteq> {}}"
    using group_bindings_set [OF assms] by metis
  show thesis
    by (rule that [of objs]) (use by_name o in \<open>auto simp: getIndexedRolebindings_def split: option.splits\<close>)
qed

definition sa_group :: "string \<Rightarrow> bool" where
  "sa_group g \<longleftrightarrow> g = ''system:serviceaccounts'' \<or> g = ''system:authenticated'' \<or>
     HasPrefix g ''system:serviceaccounts:''"

lemma MakeUsername_not_group: "\<not> sa_group (MakeUsername ns name)"
  by (simp add: sa_group_def MakeUsername_def HasPrefix_def)

lemma realSAUserInfo_groups: "g \<in> set (ui_Groups (realSAUserInfo ns name)) \<Longrightarrow> sa_group g"
  by (auto simp: realSAUserInfo_def sa_group_def HasPrefix_def)

text \<open>The index of a binding finds exactly the accounts it has as subjects.\<close>

lemma subject_keys_subject:
  fixes ns name
  defines "ui \<equiv> realSAUserInfo ns name"
  shows "insert (ui_Name ui) (set (ui_Groups ui)) \<inter> set (subject_keys bns sub) \<noteq> {} \<longleftrightarrow> subject_is bns ui sub"
proof -
  have n: "\<not> sa_group (ui_Name ui)"
    using MakeUsername_not_group by (simp add: ui_def realSAUserInfo_def)
  have g: "sa_group k" if "k \<in> set (ui_Groups ui)" for k
    using realSAUserInfo_groups that unfolding ui_def by blast
  let ?sa = "sub_APIGroup sub = [] \<and> sub_Kind sub = ''ServiceAccount''"
  let ?grp = "sub_APIGroup sub = ''rbac.authorization.k8s.io'' \<and> sub_Kind sub = ''Group''"
  consider (sa) ?sa | (grp) "\<not> ?sa" ?grp | (none) "\<not> ?sa" "\<not> ?grp" by blast
  then show ?thesis
  proof cases
    case sa
    then have k: "subject_keys bns sub =
        [MakeUsername (if sub_Namespace sub = [] then bns else sub_Namespace sub) (sub_Name sub)]"
      by (simp add: subject_keys_def)
    have "MakeUsername x y \<notin> set (ui_Groups ui)" for x y using g MakeUsername_not_group by blast
    then show ?thesis using sa unfolding k by (auto simp: subject_is_def)
  next
    case grp
    then have k: "subject_keys bns sub = (if sa_group (sub_Name sub) then [sub_Name sub] else [])"
      by (simp add: subject_keys_def sa_group_def)
    then show ?thesis using grp n g unfolding k by (auto simp: subject_is_def)
  next
    case none
    then have "subject_keys bns sub = []" unfolding subject_keys_def by (simp only: if_False)
    moreover have "\<not> subject_is bns ui sub" using none unfolding subject_is_def by blast
    ultimately show ?thesis by simp
  qed
qed

lemma bindings_loop_result:
  "\<forall>o' \<in> set objs. newRoleBindingObj o' \<noteq> None \<Longrightarrow>
   bindings_loop c ns A objs =
     Inr (A \<union> (\<Union>rb \<in> {rb. \<exists>o' \<in> set objs. newRoleBindingObj o' = Some rb}. binding_sccs c ns rb))"
  by (induction objs arbitrary: A) (auto split: option.splits)

text \<open>The key under which the cache has the role of a binding, and when a binding counts for a service account.\<close>

definition binding_key :: "roleBindingObj \<Rightarrow> string" where
  "binding_key rb =
     (if rr_Kind (rb_RoleRef rb) = ''Role'' then rb_Namespace rb else []) @ ''/'' @ rr_Name (rb_RoleRef rb)"

definition in_force :: "string \<Rightarrow> user_info \<Rightarrow> roleBindingObj \<Rightarrow> bool" where
  "in_force ns ui rb \<longleftrightarrow> (\<exists>sub \<in> set (rb_Subjects rb). subject_is (rb_Namespace rb) ui sub) \<and>
     (rb_Namespace rb = [] \<or> rb_Namespace rb = ns) \<and> rr_APIGroup (rb_RoleRef rb) = ''rbac.authorization.k8s.io''"

lemma binding_sccs_key:
  "binding_sccs c ns rb =
    (if (rb_Namespace rb = [] \<or> rb_Namespace rb = ns) \<and> rr_APIGroup (rb_RoleRef rb) = ''rbac.authorization.k8s.io''
     then cached c (binding_key rb) else {})"
  by (simp add: binding_sccs_def binding_key_def roleBindingAppliesToNS_def Let_def)

lemma binding_key_slash:
  assumes "wf_store st" "rb \<in> bindings st" "r \<in> all_roles st"
  shows "usefulRolesKey r = binding_key rb \<longleftrightarrow> refers rb r"
proof -
  let ?ns = "if rr_Kind (rb_RoleRef rb) = ''Role'' then rb_Namespace rb else []"
  have "CHR ''/'' \<notin> set ?ns" using assms(1,2) by (auto simp: wf_store_def bindings_def)
  from append_slash_eq [OF all_roles_slash [OF assms(1,3)] this] show ?thesis
    by (auto simp: usefulRolesKey_def binding_key_def refers_def)
qed

lemma cached_binding_key:
  assumes "wf_store st" "coherent st c" "rb \<in> bindings st"
  shows "cached c (binding_key rb) = {scc_Name s | s r. s \<in> set (st_sccs st) \<and> r \<in> all_roles st \<and> refers rb r \<and>
    sccAllowedByPolicyRules s (role_Rules r)}"
proof -
  have "cached c (binding_key rb) = allowed_by st (binding_key rb)" using assms(2) by (simp only: coherent_def)
  also have "\<dots> = {scc_Name s | s r. s \<in> set (st_sccs st) \<and> r \<in> all_roles st \<and> refers rb r \<and>
    sccAllowedByPolicyRules s (role_Rules r)}"
    unfolding allowed_by_def using binding_key_slash [OF assms(1,3)] by blast
  finally show ?thesis .
qed

text \<open>What is granted, in terms of the cache.\<close>

lemma granted_cached:
  assumes "wf_store st" "coherent st c"
  shows "granted st ns name = scc_Name ` {s \<in> set (st_sccs st). sccAllowsSA s (realSAUserInfo ns name)} \<union>
    (\<Union>rb \<in> {rb \<in> bindings st. in_force ns (realSAUserInfo ns name) rb}. cached c (binding_key rb))"
proof -
  let ?ui = "realSAUserInfo ns name"
  have "x \<in> (\<Union>rb \<in> {rb \<in> bindings st. in_force ns ?ui rb}. cached c (binding_key rb)) \<longleftrightarrow>
      (\<exists>s. x = scc_Name s \<and> s \<in> set (st_sccs st) \<and> rbac_grants st ns ?ui s)" for x
  proof -
    have "x \<in> (\<Union>rb \<in> {rb \<in> bindings st. in_force ns ?ui rb}. cached c (binding_key rb)) \<longleftrightarrow>
        (\<exists>rb \<in> bindings st. in_force ns ?ui rb \<and> x \<in> cached c (binding_key rb))" by blast
    also have "\<dots> \<longleftrightarrow> (\<exists>s. x = scc_Name s \<and> s \<in> set (st_sccs st) \<and> rbac_grants st ns ?ui s)"
      unfolding rbac_grants_def in_force_def by (simp add: cached_binding_key [OF assms] cong: conj_cong bex_cong) blast
    finally show ?thesis .
  qed
  then show ?thesis unfolding granted_def by blast
qed

lemma indexed_bindings:
  fixes ns name
  defines "ui \<equiv> realSAUserInfo ns name"
  assumes "\<And>b. BySAIndexKeys (f b) = Some (concat (map (subject_keys (at b)) (bi_Subjects b)))"
  obtains objs where "getIndexedRolebindings \<lparr>ix_indexed = True, ix_objects = map f bs\<rparr> ui = Some objs"
    "set objs = f ` {b \<in> set bs. \<exists>sub \<in> set (bi_Subjects b). subject_is (at b) ui sub}"
proof -
  let ?K = "insert (ui_Name ui) (set (ui_Groups ui))"
  obtain objs where o: "getIndexedRolebindings \<lparr>ix_indexed = True, ix_objects = map f bs\<rparr> ui = Some objs"
    "set objs = {o' \<in> set (map f bs). \<exists>ks. BySAIndexKeys o' = Some ks \<and> ?K \<inter> set ks \<noteq> {}}"
    by (rule getIndexedRolebindings_set [of "\<lparr>ix_indexed = True, ix_objects = map f bs\<rparr>" ui]) auto
  have keys: "?K \<inter> set (concat (map (subject_keys bns) subs)) \<noteq> {} \<longleftrightarrow> (\<exists>sub \<in> set subs. subject_is bns ui sub)"
    for bns subs
    using subject_keys_subject [of ns name bns] unfolding ui_def by fastforce
  have img: "{o' \<in> f ` A. P o'} = f ` {b \<in> A. P (f b)}" for A and P :: "object \<Rightarrow> bool" by blast
  have "set objs = f ` {b \<in> set bs. \<exists>sub \<in> set (bi_Subjects b). subject_is (at b) ui sub}"
    unfolding o(2) set_map img assms(2) option.inject ex_simps simp_thms keys by (simp add: keys)
  with o(1) show thesis by (rule that)
qed

lemma index_bindings:
  fixes ns name
  defines "ui \<equiv> realSAUserInfo ns name"
  obtains o1 o2 where
    "getIndexedRolebindings (li_roleBindings (listers_of st)) ui = Some o1"
    "getIndexedRolebindings (li_clusterRoleBindings (listers_of st)) ui = Some o2"
    "\<forall>o' \<in> set (o1 @ o2). newRoleBindingObj o' \<noteq> None"
    "{rb. \<exists>o' \<in> set (o1 @ o2). newRoleBindingObj o' = Some rb} =
       {rb \<in> bindings st. \<exists>sub \<in> set (rb_Subjects rb). subject_is (rb_Namespace rb) ui sub}"
proof -
  obtain o1 where o1: "getIndexedRolebindings (li_roleBindings (listers_of st)) ui = Some o1"
    "set o1 = RoleBindingO ` {b \<in> set (st_roleBindings st). \<exists>sub \<in> set (bi_Subjects b). subject_is (bi_Namespace b) ui sub}"
    using indexed_bindings [where f = RoleBindingO and at = bi_Namespace and bs = "st_roleBindings st" and ns = ns and name = name]
    unfolding ui_def listers_of_def by (auto simp: BySAIndexKeys_def newRoleBindingObj_def)
  obtain o2 where o2: "getIndexedRolebindings (li_clusterRoleBindings (listers_of st)) ui = Some o2"
    "set o2 = ClusterRoleBindingO ` {b \<in> set (st_clusterRoleBindings st). \<exists>sub \<in> set (bi_Subjects b). subject_is [] ui sub}"
    using indexed_bindings [where f = ClusterRoleBindingO and at = "\<lambda>_. []" and bs = "st_clusterRoleBindings st" and ns = ns and name = name]
    unfolding ui_def listers_of_def by (auto simp: BySAIndexKeys_def newRoleBindingObj_def)
  have objs: "{rb. \<exists>o' \<in> RoleBindingO ` A \<union> ClusterRoleBindingO ` B. newRoleBindingObj o' = Some rb} =
      RoleBinding ` A \<union> ClusterRoleBinding ` B" for A B
    by (auto simp: newRoleBindingObj_def bex_Un)
  have img: "{rb \<in> RoleBinding ` A \<union> ClusterRoleBinding ` B. P rb} =
      RoleBinding ` {b \<in> A. P (RoleBinding b)} \<union> ClusterRoleBinding ` {b \<in> B. P (ClusterRoleBinding b)}" for A B P
    by blast
  show thesis
  proof (rule that [OF o1(1) o2(1)])
    show "\<forall>o' \<in> set (o1 @ o2). newRoleBindingObj o' \<noteq> None"
      using o1(2) o2(2) by (auto simp: newRoleBindingObj_def)
    show "{rb. \<exists>o' \<in> set (o1 @ o2). newRoleBindingObj o' = Some rb} =
       {rb \<in> bindings st. \<exists>sub \<in> set (rb_Subjects rb). subject_is (rb_Namespace rb) ui sub}"
      unfolding set_append o1(2) o2(2) objs bindings_def img by simp
  qed
qed

lemma SCCsFor_granted:
  assumes "wf_store st" "coherent st c"
  shows "SCCsFor (listers_of st) c ns name = Inr (granted st ns name)"
proof -
  let ?ui = "realSAUserInfo ns name"
  let ?B = "{rb \<in> bindings st. \<exists>sub \<in> set (rb_Subjects rb). subject_is (rb_Namespace rb) ?ui sub}"
  obtain o1 o2 where ix: "getIndexedRolebindings (li_roleBindings (listers_of st)) ?ui = Some o1"
    "getIndexedRolebindings (li_clusterRoleBindings (listers_of st)) ?ui = Some o2"
    and ok: "\<forall>o' \<in> set (o1 @ o2). newRoleBindingObj o' \<noteq> None"
    and rbs: "{rb. \<exists>o' \<in> set (o1 @ o2). newRoleBindingObj o' = Some rb} = ?B"
    by (rule index_bindings)
  let ?A = "set (map scc_Name (filter (\<lambda>scc. sccAllowsSA scc ?ui) (st_sccs st)))"
  have sccs: "li_sccs (listers_of st) = Inr (st_sccs st)" by (simp add: listers_of_def)
  have "SCCsFor (listers_of st) c ns name = bindings_loop c ns ?A (o1 @ o2)"
    by (simp only: SCCsFor_def Let_def ix sccs option.case sum.case)
  also have "\<dots> = Inr (?A \<union> (\<Union>rb \<in> ?B. binding_sccs c ns rb))"
    unfolding bindings_loop_result [OF ok] rbs ..
  also have "(\<Union>rb \<in> ?B. binding_sccs c ns rb) =
      (\<Union>rb \<in> {rb \<in> bindings st. in_force ns ?ui rb}. cached c (binding_key rb))"
    by (auto simp: binding_sccs_key in_force_def split: if_splits)
  also have "?A \<union> \<dots> = granted st ns name" unfolding granted_cached [OF assms] by auto
  finally show ?thesis .
qed

section \<open>Correctness over event sequences\<close>

definition empty_store :: store where
  "empty_store = \<lparr>st_sccs = [], st_roles = [], st_clusterRoles = [], st_roleBindings = [],
     st_clusterRoleBindings = []\<rparr>"

lemma coherent_start: "wf_store empty_store" "coherent empty_store (WithExternalQueueEnqueue NewSAToSCCCache)"
  by (simp_all add: empty_store_def wf_store_def coherent_def allowed_by_def cached_def
      WithExternalQueueEnqueue_def NewSAToSCCCache_def)

lemma coherent_events:
  "wf_store st \<Longrightarrow> coherent st c \<Longrightarrow> \<forall>e \<in> set es. wf_event e \<Longrightarrow> fold cache_step es (st, c) = (st', c') \<Longrightarrow>
   wf_store st' \<and> coherent st' c'"
proof (induction es arbitrary: st c)
  case (Cons e es)
  obtain st1 c1 where s: "cache_step e (st, c) = (st1, c1)" by fastforce
  then have "wf_store st1" "coherent st1 c1" using coherent_step [of st e c st1 c1] Cons.prems by auto
  with Cons s show ?case by simp
qed simp


lemma hasExternalQueue_enqueue [simp]: "hasExternalQueue (addToExternalJobQueue x c) = hasExternalQueue c"
  by (simp add: addToExternalJobQueue_def)

lemma fold_added_queue:
  "enqueued (fold (\<lambda>r. syncRoleCacheSingleSCCAdded (f r) s) rs c) = enqueued c"
  "hasExternalQueue (fold (\<lambda>r. syncRoleCacheSingleSCCAdded (f r) s) rs c) = hasExternalQueue c"
  by (induction rs arbitrary: c) (simp_all add: syncRoleCacheSingleSCCAdded_def)

text \<open>No change of the cache goes unnoticed: whenever an event changes the SCCs cached for some role,
  exactly one object is handed to the external queue, so the namespaces concerned are resynced.\<close>

lemma cache_change_enqueued:
  assumes "hasExternalQueue c" and "cached (dispatch (listers_of st) e c) k \<noteq> cached c k"
  shows "\<exists>obj. enqueued (dispatch (listers_of st) e c) = enqueued c @ [obj]"
proof (cases e)
  case (SetRole r)
  let ?c = "syncRoleCache (Role r) (st_sccs st) c"
  have "k = usefulRolesKey (Role r)"
    using assms(2) SetRole by (auto simp: cached_handleRoleModified listers_of_def NewRoleObj_def
        cached_syncRoleCache split: if_splits)
  then have "cached c (usefulRolesKey (Role r)) \<noteq> cached ?c (usefulRolesKey (Role r))"
    using assms(2) SetRole by (auto simp: cached_handleRoleModified listers_of_def NewRoleObj_def)
  then show ?thesis using SetRole assms(1)
    by (auto simp: handleRoleModified_def listers_of_def NewRoleObj_def Let_def addToExternalJobQueue_def
        syncRoleCache_def)
next
  case (SetClusterRole r)
  let ?c = "syncRoleCache (ClusterRole r) (st_sccs st) c"
  have "k = usefulRolesKey (ClusterRole r)"
    using assms(2) SetClusterRole by (auto simp: cached_handleRoleModified listers_of_def NewRoleObj_def
        cached_syncRoleCache split: if_splits)
  then have "cached c (usefulRolesKey (ClusterRole r)) \<noteq> cached ?c (usefulRolesKey (ClusterRole r))"
    using assms(2) SetClusterRole by (auto simp: cached_handleRoleModified listers_of_def NewRoleObj_def)
  then show ?thesis using SetClusterRole assms(1)
    by (auto simp: handleRoleModified_def listers_of_def NewRoleObj_def Let_def addToExternalJobQueue_def
        syncRoleCache_def)
next
  case (AddScc x)
  then show ?thesis using assms(1)
    by (simp add: fold_added_queue handleSCCAdded_def listers_of_def addToExternalJobQueue_def Let_def)
qed (use assms in \<open>auto simp: handleRoleRemoved_def NewRoleObj_def addToExternalJobQueue_def
    handleSCCDeleted_def split: if_splits\<close>)

section \<open>The interface SAToSCCCache\<close>

text \<open>
  What the label controller relies on: in an acceptable state the cache answers for every service
  account with the SCCs it is entitled to. \<open>collect_sccs\<close> is the controller's loop over the service
  accounts of a namespace (\<open>syncNamespace\<close>).
\<close>

fun collect_sccs :: "(string \<Rightarrow> 'e + string set) \<Rightarrow> string set \<Rightarrow> string list \<Rightarrow> 'e + string set" where
  "collect_sccs sccsFor nsSCCs [] = Inr nsSCCs"
| "collect_sccs sccsFor nsSCCs (sa # sas) =
     (case sccsFor sa of
        Inl e \<Rightarrow> Inl e
      | Inr allowedSCCs \<Rightarrow> collect_sccs sccsFor (nsSCCs \<union> allowedSCCs) sas)"

locale sa_to_scc_cache =
  fixes ok :: "'c \<Rightarrow> bool"
    and sccs_for :: "'c \<Rightarrow> string \<Rightarrow> string \<Rightarrow> 'e + string set"
    and entitled :: "'c \<Rightarrow> string \<Rightarrow> string \<Rightarrow> string set"
  assumes sccs_for_entitled: "ok c \<Longrightarrow> sccs_for c ns sa = Inr (entitled c ns sa)"
begin

lemma collect_entitled:
  "ok c \<Longrightarrow> collect_sccs (sccs_for c ns) acc sas = Inr (acc \<union> (\<Union>sa \<in> set sas. entitled c ns sa))"
  by (induction sas arbitrary: acc) (simp_all add: sccs_for_entitled Un_assoc)

end

interpretation rc: sa_to_scc_cache
  "\<lambda>(st, c). wf_store st \<and> coherent st c" "\<lambda>(st, c). SCCsFor (listers_of st) c" "\<lambda>(st, c). granted st"
  by unfold_locales (auto simp: SCCsFor_granted)

section \<open>Runs\<close>

definition use_rule :: policy_rule where
  "use_rule = \<lparr>Verbs = [''use''], APIGroups = [''security.openshift.io''],
     Resources = [''securitycontextconstraints''], ResourceNames = [''restricted-v2'']\<rparr>"

definition ex_cluster_role :: role where
  "ex_cluster_role = \<lparr>ro_Name = ''use-restricted'', ro_Namespace = [], ro_Rules = [use_rule]\<rparr>"

definition ex_binding :: binding where
  "ex_binding = \<lparr>bi_Namespace = ''app'',
     bi_RoleRef = \<lparr>rr_APIGroup = ''rbac.authorization.k8s.io'', rr_Kind = ''ClusterRole'', rr_Name = ''use-restricted''\<rparr>,
     bi_Subjects = [\<lparr>sub_Kind = ''ServiceAccount'', sub_APIGroup = [], sub_Name = ''builder'', sub_Namespace = []\<rparr>]\<rparr>"

definition ex_events :: "event list" where
  "ex_events = [SetClusterRole ex_cluster_role, AddScc restricted_v2, SetBindings [ex_binding] []]"

definition ex_final :: "store \<times> saToSCCCache" where
  "ex_final = fold cache_step ex_events (empty_store, WithExternalQueueEnqueue NewSAToSCCCache)"


text \<open>The handler for deleted roles does not unwrap the tombstone an informer delivers when it missed
  the deletion: the role stays in the cache, and the service account keeps an SCC that no stored role
  grants it.\<close>

lemma tombstone_keeps_role:
  "SCCsFor (listers_of (store_step (DeleteClusterRole ex_cluster_role) (fst ex_final)))
       (handleRoleRemoved (Tombstone (ClusterRoleO ex_cluster_role)) (snd ex_final)) ''app'' ''builder'' =
     Inr {''restricted-v2''} \<and>
   granted (store_step (DeleteClusterRole ex_cluster_role) (fst ex_final)) ''app'' ''builder'' = {}"
proof
  show "SCCsFor (listers_of (store_step (DeleteClusterRole ex_cluster_role) (fst ex_final)))
       (handleRoleRemoved (Tombstone (ClusterRoleO ex_cluster_role)) (snd ex_final)) ''app'' ''builder'' =
     Inr {''restricted-v2''}" by code_simp
  let ?st = "store_step (DeleteClusterRole ex_cluster_role) (fst ex_final)"
  let ?c = "handleRoleRemoved (ClusterRoleO ex_cluster_role) (snd ex_final)"
  have ok: "wf_store (fst ex_final) \<and> coherent (fst ex_final) (snd ex_final)"
    by (rule coherent_events [OF coherent_start, of ex_events])
      (simp_all add: ex_events_def ex_final_def ex_cluster_role_def ex_binding_def)
  have "cache_step (DeleteClusterRole ex_cluster_role) (fst ex_final, snd ex_final) = (?st, ?c)"
    by (simp add: cache_step_def Let_def split_beta)
  moreover have "wf_event (DeleteClusterRole ex_cluster_role)" by (simp add: ex_cluster_role_def)
  ultimately have "SCCsFor (listers_of ?st) ?c ''app'' ''builder'' = Inr (granted ?st ''app'' ''builder'')"
    using coherent_step ok SCCsFor_granted by blast
  moreover have "SCCsFor (listers_of ?st) ?c ''app'' ''builder'' = Inr {}" by code_simp
  ultimately show "granted ?st ''app'' ''builder'' = {}" by simp
qed

end
