(* ===== verification/Psa_Label_Sync.thy ===== *)
theory Psa_Label_Sync
  imports Scc_Role_Cache "HOL-Library.List_Lexorder" "HOL-Library.Char_ord"
begin

text \<open>
  The pod security label controllers: \<open>src/pkg/psalabelsyncer/podsecurity_label_sync_controller.go\<close>,
  \<open>nsexemptions/nsexemptions.go\<close> and \<open>privileged_namespaces_controller.go\<close>. The first keeps the pod
  security labels of a namespace at the level of the most privileged SCC that a service account of
  the namespace may use, except for labels somebody else manages; the second keeps three system
  namespaces privileged.

  Go iterates maps and sets in an order of its own choosing. Where that order can matter it is an
  argument: \<open>unsorted\<close> for \<open>sets.String.UnsortedList\<close>, \<open>ord\<close> for the iteration of \<open>getManagerForLabel\<close>
  over the managers (a function of the label, since every call iterates anew).
\<close>

section \<open>Exempted namespaces\<close>

definition systemNSSyncExemptions :: "string list" where
  "systemNSSyncExemptions =
     [''default'', ''kube-node-lease'', ''kube-public'', ''kube-system'', ''openshift'',
      ''openshift-apiserver'', ''openshift-apiserver-operator'', ''openshift-authentication'',
      ''openshift-authentication-operator'', ''openshift-cloud-controller-manager'',
      ''openshift-cloud-controller-manager-operator'', ''openshift-cloud-credential-operator'',
      ''openshift-cloud-network-config-controller'', ''openshift-cluster-csi-drivers'',
      ''openshift-cluster-machine-approver'', ''openshift-cluster-node-tuning-operator'',
      ''openshift-cluster-samples-operator'', ''openshift-cluster-storage-operator'',
      ''openshift-cluster-version'', ''openshift-config'', ''openshift-config-managed'',
      ''openshift-config-operator'', ''openshift-console'', ''openshift-console-operator'',
      ''openshift-console-user-settings'', ''openshift-controller-manager'',
      ''openshift-controller-manager-operator'', ''openshift-dns'', ''openshift-dns-operator'',
      ''openshift-etcd'', ''openshift-etcd-operator'', ''openshift-host-network'',
      ''openshift-image-registry'', ''openshift-infra'', ''openshift-ingress'',
      ''openshift-ingress-canary'', ''openshift-ingress-operator'', ''openshift-insights'',
      ''openshift-kni-infra'', ''openshift-kube-apiserver'', ''openshift-kube-apiserver-operator'',
      ''openshift-kube-controller-manager'', ''openshift-kube-controller-manager-operator'',
      ''openshift-kube-scheduler'', ''openshift-kube-scheduler-operator'',
      ''openshift-kube-storage-version-migrator'',
      ''openshift-kube-storage-version-migrator-operator'', ''openshift-machine-api'',
      ''openshift-machine-config-operator'', ''openshift-marketplace'', ''openshift-monitoring'',
      ''openshift-multus'', ''openshift-network-diagnostics'', ''openshift-network-operator'',
      ''openshift-node'', ''openshift-nutanix-infra'', ''openshift-oauth-apiserver'',
      ''openshift-openstack-infra'', ''openshift-operator-lifecycle-manager'',
      ''openshift-ovirt-infra'', ''openshift-sdn'', ''openshift-service-ca'',
      ''openshift-service-ca-operator'', ''openshift-user-workload-monitoring'',
      ''openshift-vsphere-infra'']"

definition IsNamespacePSALabelSyncExemptedInVendoredOCPVersion :: "string \<Rightarrow> bool" where
  "IsNamespacePSALabelSyncExemptedInVendoredOCPVersion namespace \<longleftrightarrow> namespace \<in> set systemNSSyncExemptions"

section \<open>Label names\<close>

definition controllerName :: string where
  "controllerName = ''pod-security-admission-label-synchronization-controller''"

definition cpcManager :: string where
  "cpcManager = ''cluster-policy-controller''"

definition labelSyncControlLabel :: string where
  "labelSyncControlLabel = ''security.openshift.io/scc.podSecurityLabelSync''"

definition currentPSaVersion :: string where
  "currentPSaVersion = ''latest''"

definition EnforceLevelLabel :: string where "EnforceLevelLabel = ''pod-security.kubernetes.io/enforce''"
definition EnforceVersionLabel :: string where "EnforceVersionLabel = ''pod-security.kubernetes.io/enforce-version''"
definition WarnLevelLabel :: string where "WarnLevelLabel = ''pod-security.kubernetes.io/warn''"
definition WarnVersionLabel :: string where "WarnVersionLabel = ''pod-security.kubernetes.io/warn-version''"
definition AuditLevelLabel :: string where "AuditLevelLabel = ''pod-security.kubernetes.io/audit''"
definition AuditVersionLabel :: string where "AuditVersionLabel = ''pod-security.kubernetes.io/audit-version''"

lemmas label_name_defs = EnforceLevelLabel_def EnforceVersionLabel_def WarnLevelLabel_def
  WarnVersionLabel_def AuditLevelLabel_def AuditVersionLabel_def

definition allPSaLabels :: "(string \<times> string) list" where
  "allPSaLabels = [(EnforceLevelLabel, EnforceVersionLabel), (WarnLevelLabel, WarnVersionLabel),
     (AuditLevelLabel, AuditVersionLabel)]"

definition loggingLabels :: "(string \<times> string) list" where
  "loggingLabels = [(WarnLevelLabel, WarnVersionLabel), (AuditLevelLabel, AuditVersionLabel)]"

section \<open>Label ownership\<close>

datatype sync_error =
    GetNamespaceFailed api_error
  | UnmarshalFailed
  | NestedMapFailed
  | ExtractFailed string
  | UpdateFailed api_error
  | ForceOwnershipFailed sync_error
  | ApplyFailed api_error
  | ListServiceAccountsFailed api_error
  | SCCsForFailed cache_error
  | GetSCCFailed api_error
  | ConvertFailed psa_error
  | UnknownPSaLevel

text \<open>\<open>strings.Replace(l, "f:", "", 1)\<close>: the first occurrence is dropped.\<close>

fun drop_first_f :: "string \<Rightarrow> string" where
  "drop_first_f (a # b # s) = (if a = CHR ''f'' \<and> b = CHR '':'' then s else a # drop_first_f (b # s))"
| "drop_first_f s = s"

text \<open>\<open>unstructured.NestedMap\<close>: \<open>Inr None\<close> when a key is absent (or null on the way).\<close>

fun NestedMap :: "json \<Rightarrow> string list \<Rightarrow> sync_error + (string \<times> json) list option" where
  "NestedMap (JObj m) [] = Inr (Some m)"
| "NestedMap _ [] = Inl NestedMapFailed"
| "NestedMap (JObj m) (f # fs) = (case map_of m f of None \<Rightarrow> Inr None | Some v \<Rightarrow> NestedMap v fs)"
| "NestedMap JNull (f # fs) = Inr None"
| "NestedMap JOther (f # fs) = Inl NestedMapFailed"

definition managedLabels :: "managed_fields_entry \<Rightarrow> sync_error + string set" where
  "managedLabels fieldsEntry =
     (case mf_FieldsV1 fieldsEntry of
        None \<Rightarrow> Inl UnmarshalFailed
      | Some JOther \<Rightarrow> Inl UnmarshalFailed
      | Some j \<Rightarrow>
          (case NestedMap (case j of JNull \<Rightarrow> JObj [] | _ \<Rightarrow> j) [''f:metadata'', ''f:labels''] of
             Inl e \<Rightarrow> Inl e
           | Inr None \<Rightarrow> Inr {}
           | Inr (Some labels) \<Rightarrow> Inr (set (map (drop_first_f \<circ> fst) labels))))"

type_synonym extractedNamespaces = "(string \<times> string set) list"

text \<open>\<open>ret[manager] = ret[manager].Union(labels)\<close>, or a new entry.\<close>

fun add_managed :: "string \<Rightarrow> string set \<Rightarrow> extractedNamespaces \<Rightarrow> extractedNamespaces" where
  "add_managed manager ls [] = [(manager, ls)]"
| "add_managed manager ls ((m, cur) # rest) =
     (if m = manager then (m, cur \<union> ls) # rest else (m, cur) # add_managed manager ls rest)"

fun extract_loop :: "extractedNamespaces \<Rightarrow> managed_fields_entry list \<Rightarrow> sync_error + extractedNamespaces" where
  "extract_loop ret [] = Inr ret"
| "extract_loop ret (fieldEntry # fs) =
     (case managedLabels fieldEntry of
        Inl e \<Rightarrow> Inl e
      | Inr ls \<Rightarrow> extract_loop (add_managed (mf_Manager fieldEntry) ls ret) fs)"

definition extractNSFieldsPerManager :: "namespace \<Rightarrow> sync_error + extractedNamespaces" where
  "extractNSFieldsPerManager ns = extract_loop [] (ns_ManagedFields ns)"

definition getManagerForLabel ::
    "(string \<Rightarrow> extractedNamespaces \<Rightarrow> extractedNamespaces) \<Rightarrow> extractedNamespaces \<Rightarrow> string \<Rightarrow> string" where
  "getManagerForLabel ord n labelName =
     (case find (\<lambda>(manager, ls). labelName \<in> ls) (ord labelName n) of
        Some (manager, _) \<Rightarrow> manager
      | None \<Rightarrow> [])"

section \<open>Which namespaces are controlled\<close>

text \<open>A label that is not set, or that nobody else manages.\<close>

definition label_ours ::
    "(string \<Rightarrow> extractedNamespaces \<Rightarrow> extractedNamespaces) \<Rightarrow> extractedNamespaces \<Rightarrow> namespace \<Rightarrow> string \<Rightarrow> bool" where
  "label_ours ord ex ns labelName =
     (if ns_Labels ns labelName \<noteq> None
      then let manager = getManagerForLabel ord ex labelName
           in \<not> (manager \<noteq> [] \<and> manager \<noteq> cpcManager \<and> manager \<noteq> controllerName)
      else True)"

definition isNSControlled ::
    "(string \<Rightarrow> extractedNamespaces \<Rightarrow> extractedNamespaces) \<Rightarrow> namespace \<Rightarrow> bool" where
  "isNSControlled ord ns =
     (let nsName = ns_Name ns
      in if IsNamespacePSALabelSyncExemptedInVendoredOCPVersion nsName then False
         else if str_at (ns_Labels ns) labelSyncControlLabel = ''true'' then True
         else if HasPrefix nsName ''openshift-'' then False
         else case extractNSFieldsPerManager ns of
                Inl _ \<Rightarrow> False
              | Inr extractedPerManager \<Rightarrow>
                  let owningAtLeastOneLabel =
                        list_ex (label_ours ord extractedPerManager ns)
                          [EnforceLevelLabel, EnforceVersionLabel, WarnLevelLabel, WarnVersionLabel,
                           AuditLevelLabel, AuditVersionLabel]
                  in if \<not> owningAtLeastOneLabel then False
                     else str_at (ns_Labels ns) labelSyncControlLabel \<noteq> ''false'')"

text \<open>\<open>labels.NewRequirement(labelSyncControlLabel, selection.NotEquals, {"false"})\<close>.\<close>

definition controlledNamespacesLabelSelector :: "namespace \<Rightarrow> bool" where
  "controlledNamespacesLabelSelector ns \<longleftrightarrow> ns_Labels ns labelSyncControlLabel \<noteq> Some ''false''"

section \<open>Queue keys\<close>

text \<open>The namespace in the metadata of an object; \<open>None\<close> for what is no \<open>ObjectMetaAccessor\<close>.\<close>

fun object_namespace :: "object \<Rightarrow> string option" where
  "object_namespace (RoleBindingO b) = Some (bi_Namespace b)"
| "object_namespace (ClusterRoleBindingO b) = Some (bi_Namespace b)"
| "object_namespace (RoleO r) = Some (ro_Namespace r)"
| "object_namespace (ClusterRoleO r) = Some (ro_Namespace r)"
| "object_namespace (RoleObjO r) = Some (role_Namespace r)"
| "object_namespace (SccO s) = Some []"
| "object_namespace (NamespaceO ns) = Some []"
| "object_namespace (ServiceAccountO ns name) = Some ns"
| "object_namespace (Tombstone _) = None"
| "object_namespace OtherO = None"

text \<open>\<open>namespaceLister.List\<close> with a selector; a failing list gives none.\<close>

definition allWatchedNamespacesAsQueueKeys ::
    "(string \<Rightarrow> extractedNamespaces \<Rightarrow> extractedNamespaces) \<Rightarrow> api_error + namespace list \<Rightarrow> string list" where
  "allWatchedNamespacesAsQueueKeys ord nsList =
     (case nsList of
        Inl _ \<Rightarrow> []
      | Inr nss \<Rightarrow> map ns_Name (filter (isNSControlled ord) (filter controlledNamespacesLabelSelector nss)))"

text \<open>The method \<open>isNSControlled\<close> of the controller, on the name of a namespace.\<close>

definition c_isNSControlled ::
    "(string \<Rightarrow> extractedNamespaces \<Rightarrow> extractedNamespaces) \<Rightarrow> (string \<Rightarrow> api_error + namespace) \<Rightarrow>
     string \<Rightarrow> api_error + bool" where
  "c_isNSControlled ord nsGet nsName =
     (case nsGet nsName of Inl err \<Rightarrow> Inl err | Inr ns \<Rightarrow> Inr (isNSControlled ord ns))"

definition queueKeysForObj ::
    "(string \<Rightarrow> extractedNamespaces \<Rightarrow> extractedNamespaces) \<Rightarrow> (string \<Rightarrow> api_error + namespace) \<Rightarrow>
     api_error + namespace list \<Rightarrow> object \<Rightarrow> string list" where
  "queueKeysForObj ord nsGet nsList obj =
     (case object_namespace obj of
        None \<Rightarrow> []
      | Some ns \<Rightarrow>
          if ns \<noteq> [] then
            (case c_isNSControlled ord nsGet ns of
               Inl _ \<Rightarrow> []
             | Inr controlled \<Rightarrow> if \<not> controlled then [] else [ns])
          else allWatchedNamespacesAsQueueKeys ord nsList)"

text \<open>\<open>add\<close> is \<open>workQueue.Add\<close>.\<close>

definition saToSCCCAcheEnqueueFunc ::
    "(string \<Rightarrow> 'q \<Rightarrow> 'q) \<Rightarrow> (string \<Rightarrow> extractedNamespaces \<Rightarrow> extractedNamespaces) \<Rightarrow>
     (string \<Rightarrow> api_error + namespace) \<Rightarrow> api_error + namespace list \<Rightarrow> object \<Rightarrow> 'q \<Rightarrow> 'q" where
  "saToSCCCAcheEnqueueFunc add ord nsGet nsList obj workQueue =
     fold add (queueKeysForObj ord nsGet nsList obj) workQueue"

section \<open>Synchronising a namespace\<close>

text \<open>
  The calls the controller makes: listers as functions of the world, the writing calls with the field
  manager and the force flag. \<open>pc_Extract\<close> is \<open>corev1apply.ExtractNamespace\<close> of the vendored client.
\<close>

record 'w psa_client =
  pc_nsGet :: "'w \<Rightarrow> string \<Rightarrow> api_error + namespace"
  pc_saList :: "'w \<Rightarrow> string \<Rightarrow> api_error + string list"
  pc_sccGet :: "'w \<Rightarrow> string \<Rightarrow> api_error + scc"
  pc_SCCsFor :: "'w \<Rightarrow> string \<Rightarrow> string \<Rightarrow> cache_error + string set"
  pc_Extract :: "namespace \<Rightarrow> string \<Rightarrow> string + ns_apply"
  pc_Update :: "'w \<Rightarrow> namespace \<Rightarrow> string \<Rightarrow> (api_error + namespace) \<times> 'w"
  pc_Apply :: "'w \<Rightarrow> ns_apply \<Rightarrow> string \<Rightarrow> bool \<Rightarrow> (api_error + namespace) \<times> 'w"

fun cpc_owned :: "string set \<Rightarrow> managed_fields_entry list \<Rightarrow> sync_error + string set" where
  "cpc_owned acc [] = Inr acc"
| "cpc_owned acc (f # fs) =
     (if mf_Manager f \<noteq> cpcManager then cpc_owned acc fs
      else case managedLabels f of
             Inl e \<Rightarrow> Inl e
           | Inr newCPCLabels \<Rightarrow> cpc_owned (acc \<union> newCPCLabels) fs)"

text \<open>The labels of \<open>allPSaLabels\<close>, levels and versions, that are in the set, with their present values.\<close>

definition owned_psa_labels :: "namespace \<Rightarrow> string set \<Rightarrow> (string \<times> string) list" where
  "owned_psa_labels ns owned =
     concat (map (\<lambda>(labelType, labelVersion).
       (if labelType \<in> owned then [(labelType, str_at (ns_Labels ns) labelType)] else []) @
       (if labelVersion \<in> owned then [(labelVersion, str_at (ns_Labels ns) labelVersion)] else [])) allPSaLabels)"

definition forceHistoricalLabelsOwnership ::
    "'w psa_client \<Rightarrow> 'w \<Rightarrow> namespace \<Rightarrow> (sync_error + namespace) \<times> 'w" where
  "forceHistoricalLabelsOwnership cl w ns =
     (case cpc_owned {} (ns_ManagedFields ns) of
        Inl e \<Rightarrow> (Inl e, w)
      | Inr cpcOwnedLabelKeys \<Rightarrow>
          if cpcOwnedLabelKeys = {} then (Inr ns, w)
          else
            let cpcOwnedPSaLabels = owned_psa_labels ns cpcOwnedLabelKeys
            in if cpcOwnedPSaLabels = [] then (Inr ns, w)
               else
                 (case pc_Extract cl ns controllerName of
                    Inl e \<Rightarrow> (Inl (ExtractFailed e), w)
                  | Inr ourOwned \<Rightarrow>
                      let ourOwned' = ourOwned\<lparr>na_Labels := na_Labels ourOwned ++ map_of cpcOwnedPSaLabels\<rparr>;
                          nsCopy = ns\<lparr>ns_Labels := (ns_Labels ns) |` (- fst ` set cpcOwnedPSaLabels)\<rparr>
                      in case pc_Update cl w nsCopy cpcManager of
                           (Inl e, w') \<Rightarrow> (Inl (UpdateFailed e), w')
                         | (Inr _, w') \<Rightarrow>
                             (case pc_Apply cl w' ourOwned' controllerName False of
                                (Inl e, w'') \<Rightarrow> (Inl (ApplyFailed e), w'')
                              | (Inr n, w'') \<Rightarrow> (Inr n, w''))))"

text \<open>The loop over the names of the SCCs: the most privileged level met, stopping at privileged.\<close>

fun level_loop :: "(string \<Rightarrow> api_error + scc) \<Rightarrow> namespace \<Rightarrow> u8 \<Rightarrow> string list \<Rightarrow> sync_error + u8" where
  "level_loop sccGet ns currentNSLevel [] = Inr currentNSLevel"
| "level_loop sccGet ns currentNSLevel (sccName # rest) =
     (case sccGet sccName of
        Inl e \<Rightarrow> Inl (GetSCCFailed e)
      | Inr scc \<Rightarrow>
          (case convertSCCToPSALevel ns scc of
             Inl e \<Rightarrow> Inl (ConvertFailed e)
           | Inr sccPSaLevel \<Rightarrow>
               let currentNSLevel' = (if sccPSaLevel > currentNSLevel then sccPSaLevel else currentNSLevel)
               in if currentNSLevel' = privileged then Inr currentNSLevel'
                  else level_loop sccGet ns currentNSLevel' rest))"

text \<open>
  The label part of the apply configuration, and whether a label changes: a label is set when nobody,
  or this controller, manages it, or when the namespace asks to be synced.
\<close>

definition may_set ::
    "(string \<Rightarrow> extractedNamespaces \<Rightarrow> extractedNamespaces) \<Rightarrow> extractedNamespaces \<Rightarrow> bool \<Rightarrow> string \<Rightarrow> bool" where
  "may_set ord managedNamespaces mustSync l =
     (let manager = getManagerForLabel ord managedNamespaces l
      in manager = [] \<or> manager = controllerName \<or> mustSync)"

definition set_label :: "(string \<Rightarrow> bool) \<Rightarrow> namespace \<Rightarrow> string \<Rightarrow> string \<Rightarrow> str_map \<times> bool \<Rightarrow> str_map \<times> bool" where
  "set_label may ns l v acc =
     (case acc of (labels, shouldUpdate) \<Rightarrow>
        if may l then (labels(l \<mapsto> v), shouldUpdate \<or> str_at (ns_Labels ns) l \<noteq> v) else (labels, shouldUpdate))"

definition label_loop ::
    "(string \<Rightarrow> bool) \<Rightarrow> namespace \<Rightarrow> string \<Rightarrow> (string \<times> string) list \<Rightarrow> str_map \<times> bool \<Rightarrow> str_map \<times> bool" where
  "label_loop may ns psaLevel syncedLabels =
     fold (\<lambda>(typeLabel, versionLabel) acc.
       set_label may ns versionLabel currentPSaVersion (set_label may ns typeLabel psaLevel acc)) syncedLabels"

definition psa_patch ::
    "(string \<Rightarrow> bool) \<Rightarrow> (string \<times> string) list \<Rightarrow> namespace \<Rightarrow> string \<Rightarrow> ns_apply \<times> bool" where
  "psa_patch may syncedLabels ns psaLevel =
     (case label_loop may ns psaLevel syncedLabels (Map.empty, False) of (labels, shouldUpdate) \<Rightarrow>
        let annotate = str_at (ns_Annotations ns) MinimallySufficientPodSecurityStandard \<noteq> psaLevel
        in (\<lparr>na_Name = ns_Name ns, na_ResourceVersion = None, na_Labels = labels,
             na_Annotations = (if annotate then [MinimallySufficientPodSecurityStandard \<mapsto> psaLevel] else Map.empty)\<rparr>,
            shouldUpdate \<or> annotate))"

text \<open>The rest of \<open>syncNamespace\<close> once the level is known: compare, and apply if something differs.\<close>

definition apply_level ::
    "'w psa_client \<Rightarrow> (string \<Rightarrow> extractedNamespaces \<Rightarrow> extractedNamespaces) \<Rightarrow> (string \<times> string) list \<Rightarrow>
     'w \<Rightarrow> namespace \<Rightarrow> string \<Rightarrow> sync_error option \<times> 'w" where
  "apply_level cl ord syncedLabels w ns psaLevel =
     (case extractNSFieldsPerManager ns of
        Inl e \<Rightarrow> (Some e, w)
      | Inr managedNamespaces \<Rightarrow>
          let mustSync = (str_at (ns_Labels ns) labelSyncControlLabel = ''true'');
              (nsApplyConfig, shouldUpdate) =
                psa_patch (may_set ord managedNamespaces mustSync) syncedLabels ns psaLevel
          in if \<not> shouldUpdate then (None, w)
             else (case pc_Apply cl w nsApplyConfig controllerName mustSync of
                     (Inl ConflictErr, w') \<Rightarrow> (None, w')
                   | (Inl e, w') \<Rightarrow> (Some (ApplyFailed e), w')
                   | (Inr _, w') \<Rightarrow> (None, w')))"

definition psa_syncNamespace ::
    "'w psa_client \<Rightarrow> (string set \<Rightarrow> string list) \<Rightarrow> (string \<Rightarrow> extractedNamespaces \<Rightarrow> extractedNamespaces) \<Rightarrow>
     (string \<times> string) list \<Rightarrow> 'w \<Rightarrow> namespace \<Rightarrow> sync_error option \<times> 'w" where
  "psa_syncNamespace cl unsorted ord syncedLabels w ns =
     (if str_at (ns_Annotations ns) UIDRangeAnnotation = [] then (None, w)
      else case pc_saList cl w (ns_Name ns) of
        Inl e \<Rightarrow> (Some (ListServiceAccountsFailed e), w)
      | Inr serviceAccounts \<Rightarrow>
          if serviceAccounts = [] then (None, w)
          else case collect_sccs (pc_SCCsFor cl w (ns_Name ns)) {} serviceAccounts of
            Inl e \<Rightarrow> (Some (SCCsForFailed e), w)
          | Inr nsSCCs \<Rightarrow>
              (case level_loop (pc_sccGet cl w) ns 0 (unsorted nsSCCs) of
                 Inl e \<Rightarrow> (Some e, w)
               | Inr currentNSLevel \<Rightarrow>
                   let psaLevel = internalRestrictivnessToPSaLevel currentNSLevel
                   in if psaLevel = [] then (Some UnknownPSaLevel, w)
                      else apply_level cl ord syncedLabels w ns psaLevel))"

definition psa_sync ::
    "'w psa_client \<Rightarrow> (string set \<Rightarrow> string list) \<Rightarrow> (string \<Rightarrow> extractedNamespaces \<Rightarrow> extractedNamespaces) \<Rightarrow>
     (string \<times> string) list \<Rightarrow> 'w \<Rightarrow> string \<Rightarrow> sync_error option \<times> 'w" where
  "psa_sync cl unsorted ord syncedLabels w qKey =
     (case pc_nsGet cl w qKey of
        Inl NotFound \<Rightarrow> (None, w)
      | Inl e \<Rightarrow> (Some (GetNamespaceFailed e), w)
      | Inr ns \<Rightarrow>
          if \<not> isNSControlled ord ns then (None, w)
          else if ns_Phase ns = NsTerminating then (None, w)
          else (case forceHistoricalLabelsOwnership cl w ns of
                  (Inl e, w') \<Rightarrow> (Some (ForceOwnershipFailed e), w')
                | (Inr ns', w') \<Rightarrow> psa_syncNamespace cl unsorted ord syncedLabels w' ns'))"

section \<open>Privileged namespaces\<close>

definition privilegedControllerName :: string where
  "privilegedControllerName = ''privileged-namespaces-psa-label-syncer''"

text \<open>\<open>factory.NamesFilter("default", "kube-system", "kube-public")\<close> in front of the event handlers.\<close>

definition privileged_names :: "string list" where
  "privileged_names = [''default'', ''kube-system'', ''kube-public'']"

definition privileged_patch :: "string \<Rightarrow> ns_apply" where
  "privileged_patch name =
     \<lparr>na_Name = name, na_ResourceVersion = None,
      na_Labels = [EnforceLevelLabel \<mapsto> ''privileged'', WarnLevelLabel \<mapsto> ''privileged'',
                   AuditLevelLabel \<mapsto> ''privileged''],
      na_Annotations = Map.empty\<rparr>"

definition privileged_sync ::
    "('w \<Rightarrow> string \<Rightarrow> api_error + namespace) \<Rightarrow>
     ('w \<Rightarrow> ns_apply \<Rightarrow> string \<Rightarrow> bool \<Rightarrow> (api_error + namespace) \<times> 'w) \<Rightarrow> 'w \<Rightarrow> string \<Rightarrow> api_error option \<times> 'w" where
  "privileged_sync nsGet nsApply w nsName =
     (case nsGet w nsName of
        Inl e \<Rightarrow> (Some e, w)
      | Inr ns \<Rightarrow>
          if str_at (ns_Labels ns) EnforceLevelLabel = ''privileged'' \<and>
             str_at (ns_Labels ns) WarnLevelLabel = ''privileged'' \<and>
             str_at (ns_Labels ns) AuditLevelLabel = ''privileged''
          then (None, w)
          else (case nsApply w (privileged_patch (ns_Name ns)) privilegedControllerName True of
                  (Inl e, w') \<Rightarrow> (Some e, w')
                | (Inr _, w') \<Rightarrow> (None, w')))"

section \<open>The level of a namespace\<close>

lemma level_loop_Max:
  assumes "\<forall>n \<in> set names. \<exists>scc. sccGet n = Inr scc \<and> convertSCCToPSALevel ns scc = Inr (lev n)"
    and "acc \<in> {unknown, restricted, baseline}"
  shows "level_loop sccGet ns acc names = Inr (Max (insert acc (lev ` set names)))"
  using assms
proof (induction names arbitrary: acc)
  case (Cons n names)
  obtain scc where n: "sccGet n = Inr scc" "convertSCCToPSALevel ns scc = Inr (lev n)"
    using Cons.prems(1) by auto
  have others: "lev m \<le> privileged" if "m \<in> set (n # names)" for m
  proof -
    obtain s where "convertSCCToPSALevel ns s = Inr (lev m)" using Cons.prems(1) \<open>m \<in> set (n # names)\<close> by blast
    from restricted_or_more [OF this] show ?thesis by auto
  qed
  have ins: "Max (insert acc (lev ` set (n # names))) = Max (insert (max (lev n) acc) (lev ` set names))"
    by (cases "set names = {}") (simp_all add: max.assoc max.left_commute max.commute)
  have mx: "(if lev n > acc then lev n else acc) = max (lev n) acc" by (auto simp: max_def not_less)
  show ?case
  proof (cases "max (lev n) acc = privileged")
    case True
    then have "Max (insert (max (lev n) acc) (lev ` set names)) = privileged"
      using others by (intro Max_eqI) auto
    with True show ?thesis using n ins mx by (simp add: Let_def)
  next
    case False
    have "lev n \<in> {restricted, baseline, privileged}" by (rule restricted_or_more [OF n(2)])
    then have "max (lev n) acc \<in> {unknown, restricted, baseline}"
      using False Cons.prems(2) by (auto simp: max_def split: if_splits)
    with Cons.IH [of "max (lev n) acc"] Cons.prems(1) False show ?thesis
      using n ins mx by (simp add: Let_def)
  qed
qed simp

lemma level_loop_known:
  "level_loop sccGet ns acc names = Inr l \<Longrightarrow>
    (if names = [] then l = acc else l \<in> {acc, restricted, baseline, privileged} \<and> (acc = 0 \<longrightarrow> l \<noteq> 0))"
proof (induction names arbitrary: acc)
  case (Cons n names)
  then obtain scc k where c: "sccGet n = Inr scc" "convertSCCToPSALevel ns scc = Inr k"
    by (auto split: sum.splits)
  have k: "k \<in> {restricted, baseline, privileged}" by (rule restricted_or_more [OF c(2)])
  let ?a = "if k > acc then k else acc"
  show ?case
  proof (cases "?a = privileged")
    case True then show ?thesis using Cons.prems c by (auto simp: Let_def level_defs split: if_splits)
  next
    case False
    then have "level_loop sccGet ns ?a names = Inr l" using Cons.prems c by (simp add: Let_def split: if_splits)
    from Cons.IH [OF this] show ?thesis using k by (auto simp: level_defs split: if_splits)
  qed
qed simp

lemma level_loop_error:
  "level_loop sccGet ns acc names = Inl e \<Longrightarrow> (\<exists>e'. e = GetSCCFailed e') \<or> (\<exists>e'. e = ConvertFailed e')"
  by (induction names arbitrary: acc) (auto simp: Let_def split: sum.splits if_splits)

lemma granted_finite: "finite (granted st ns sa)"
  by (rule finite_subset [of _ "scc_Name ` set (st_sccs st)"]) (auto simp: granted_def)

lemma level_name_nonempty: "l \<in> {restricted, baseline, privileged} \<Longrightarrow> internalRestrictivnessToPSaLevel l \<noteq> []"
  by (auto simp: internalRestrictivnessToPSaLevel_def)

text \<open>C32: The outcomes of a sync that gets to the SCCs. When the namespace has its UID range and service
  accounts and their SCCs were found, \<open>syncNamespace\<close> fails because an SCC cannot be read or converted, or
  because there is no SCC at all, or goes on to apply one of the three levels of the pod security standard;
  \<open>unknown\<close> never becomes a label.\<close>

theorem synced_level_is_known:
  assumes "str_at (ns_Annotations ns) UIDRangeAnnotation \<noteq> []"
    and "pc_saList cl w (ns_Name ns) = Inr sas" and "sas \<noteq> []"
    and "collect_sccs (pc_SCCsFor cl w (ns_Name ns)) {} sas = Inr nsSCCs"
    and "set (unsorted nsSCCs) = nsSCCs"
    and "psa_syncNamespace cl unsorted ord syncedLabels w ns = r"
  shows "(\<exists>e. r = (Some (GetSCCFailed e), w)) \<or> (\<exists>e. r = (Some (ConvertFailed e), w)) \<or>
    (nsSCCs = {} \<and> r = (Some UnknownPSaLevel, w)) \<or>
    (nsSCCs \<noteq> {} \<and> (\<exists>l. (l = ''restricted'' \<or> l = ''baseline'' \<or> l = ''privileged'') \<and>
       r = apply_level cl ord syncedLabels w ns l))"
proof -
  let ?lvl = "level_loop (pc_sccGet cl w) ns 0 (unsorted nsSCCs)"
  have r: "r = (case ?lvl of Inl e \<Rightarrow> (Some e, w)
      | Inr l \<Rightarrow> if internalRestrictivnessToPSaLevel l = [] then (Some UnknownPSaLevel, w)
               else apply_level cl ord syncedLabels w ns (internalRestrictivnessToPSaLevel l))"
    using assms(1-4,6) by (auto simp: psa_syncNamespace_def Let_def split: sum.splits)
  show ?thesis
  proof (cases ?lvl)
    case (Inl e)
    then show ?thesis using r level_loop_error [OF Inl] by auto
  next
    case (Inr l)
    show ?thesis
    proof (cases "nsSCCs = {}")
      case True
      then have "l = 0" using Inr assms(5) by simp
      then show ?thesis using r Inr True by (simp add: internalRestrictivnessToPSaLevel_def level_defs)
    next
      case False
      then have "unsorted nsSCCs \<noteq> []" using assms(5) by auto
      then have "l \<in> {restricted, baseline, privileged}" using level_loop_known [OF Inr] by auto
      then have "internalRestrictivnessToPSaLevel l \<in> {''restricted'', ''baseline'', ''privileged''}"
        by (auto simp: internalRestrictivnessToPSaLevel_def level_defs)
      moreover from this have "r = apply_level cl ord syncedLabels w ns (internalRestrictivnessToPSaLevel l)"
        using r Inr by auto
      ultimately show ?thesis using False by blast
    qed
  qed
qed


lemma syncNamespace_level:
  assumes "wf_store st" and "coherent st c"
    and "\<And>ns sa. pc_SCCsFor cl w ns sa = SCCsFor (listers_of st) c ns sa"
    and "\<And>T. finite T \<Longrightarrow> set (unsorted T) = T"
    and "str_at (ns_Annotations ns) UIDRangeAnnotation \<noteq> []"
    and "pc_saList cl w (ns_Name ns) = Inr sas" and "sas \<noteq> []"
    and "S = (\<Union>sa \<in> set sas. granted st (ns_Name ns) sa)" and "S \<noteq> {}"
    and "\<forall>n \<in> S. \<exists>scc. pc_sccGet cl w n = Inr scc \<and> convertSCCToPSALevel ns scc = Inr (lev n)"
  shows "psa_syncNamespace cl unsorted ord syncedLabels w ns =
    apply_level cl ord syncedLabels w ns (internalRestrictivnessToPSaLevel (Max (lev ` S)))"
proof -
  have "pc_SCCsFor cl w (ns_Name ns) = SCCsFor (listers_of st) c (ns_Name ns)" using assms(3) by blast
  then have col: "collect_sccs (pc_SCCsFor cl w (ns_Name ns)) {} sas = Inr S"
    using rc.collect_entitled [of "(st, c)" "ns_Name ns" "{}" sas] assms(1,2,8) by simp
  have fin: "finite S" unfolding assms(8) by (simp add: granted_finite)
  have "level_loop (pc_sccGet cl w) ns 0 (unsorted S) = Inr (Max (insert unknown (lev ` S)))"
    using level_loop_Max [of "unsorted S" "pc_sccGet cl w" ns lev unknown] assms(4) [OF fin] assms(10)
    by (simp add: unknown_def)
  also have "Max (insert unknown (lev ` S)) = Max (lev ` S)"
    using assms(9) fin by (simp add: max_def)
  finally have lvl: "level_loop (pc_sccGet cl w) ns 0 (unsorted S) = Inr (Max (lev ` S))" .
  have "Max (lev ` S) \<in> lev ` S" using fin assms(9) by simp
  then obtain n where "n \<in> S" "Max (lev ` S) = lev n" by blast
  then have "Max (lev ` S) \<in> {restricted, baseline, privileged}"
    using assms(10) restricted_or_more by metis
  then have "internalRestrictivnessToPSaLevel (Max (lev ` S)) \<noteq> []" by (rule level_name_nonempty)
  then show ?thesis
    using assms(5-7) col lvl by (simp add: psa_syncNamespace_def Let_def)
qed

text \<open>C2: The namespace gets the level of the most privileged SCC within reach. When the role cache is
  coherent with the stored objects, the namespace has its UID range and at least one service account,
  and every SCC granted to one of its service accounts is stored and converts, then \<open>syncNamespace\<close>
  continues with the maximum of the levels of all SCCs granted to any service account of the
  namespace, whatever order the set iteration has.\<close>

theorem synced_level_is_most_privileged:
  assumes "wf_store st" and "coherent st c"
    and "\<And>ns sa. pc_SCCsFor cl w ns sa = SCCsFor (listers_of st) c ns sa"
    and "\<And>T. finite T \<Longrightarrow> set (unsorted T) = T"
    and "str_at (ns_Annotations ns) UIDRangeAnnotation \<noteq> []"
    and "pc_saList cl w (ns_Name ns) = Inr sas" and "sas \<noteq> []"
    and "S = (\<Union>sa \<in> set sas. granted st (ns_Name ns) sa)" and "S \<noteq> {}"
    and "\<forall>n \<in> S. \<exists>scc. pc_sccGet cl w n = Inr scc \<and> convertSCCToPSALevel ns scc = Inr (lev n)"
  shows "psa_syncNamespace cl unsorted ord syncedLabels w ns =
    apply_level cl ord syncedLabels w ns (internalRestrictivnessToPSaLevel (Max (lev ` S)))"
  by (rule syncNamespace_level [OF assms])

section \<open>What the controller writes\<close>

text \<open>The labels and values the controller is after.\<close>

definition label_targets :: "string \<Rightarrow> (string \<times> string) list \<Rightarrow> (string \<times> string) list" where
  "label_targets psaLevel syncedLabels = concat (map (\<lambda>(t, v). [(t, psaLevel), (v, currentPSaVersion)]) syncedLabels)"

lemma label_loop_targets:
  "label_loop may ns psaLevel syncedLabels acc =
     fold (\<lambda>(l, v). set_label may ns l v) (label_targets psaLevel syncedLabels) acc"
  by (induction syncedLabels arbitrary: acc) (auto simp: label_loop_def label_targets_def)

lemma fold_set_label:
  "fold (\<lambda>(l, v). set_label may ns l v) ps (m, u) =
     (m ++ map_of (rev (filter (may \<circ> fst) ps)), u \<or> (\<exists>(l, v) \<in> set ps. may l \<and> str_at (ns_Labels ns) l \<noteq> v))"
  by (induction ps arbitrary: m u) (auto simp: set_label_def)

lemma map_of_rev_distinct: "distinct (map fst xs) \<Longrightarrow> map_of (rev xs) = map_of xs"
proof (rule ext)
  fix k
  assume d: "distinct (map fst xs)"
  then have "distinct (map fst (rev xs))" by (simp add: rev_map [symmetric])
  then show "map_of (rev xs) k = map_of xs k"
    using d by (metis map_of_eq_Some_iff not_Some_eq set_rev)
qed

lemma map_of_filter_key: "map_of (filter (P \<circ> fst) xs) k = (if P k then map_of xs k else None)"
  by (induction xs) auto

text \<open>The patch, label by label, and when there is something to write.\<close>

lemma psa_patch_labels:
  assumes "distinct (map fst (label_targets lvl syn))" "psa_patch may syn ns lvl = (p, upd)"
  shows "na_Labels p l = (if may l then map_of (label_targets lvl syn) l else None)"
proof -
  let ?ps = "label_targets lvl syn"
  have "na_Labels p = map_of (rev (filter (may \<circ> fst) ?ps))"
    using assms(2) by (auto simp: psa_patch_def label_loop_targets fold_set_label Let_def)
  moreover have "distinct (map fst (filter (may \<circ> fst) ?ps))"
    using assms(1) by (simp add: distinct_map_filter)
  ultimately have "na_Labels p = map_of (filter (may \<circ> fst) ?ps)" by (simp add: map_of_rev_distinct)
  then show ?thesis by (simp add: map_of_filter_key)
qed

lemma psa_patch_update:
  assumes "psa_patch may syn ns lvl = (p, upd)"
  shows "upd \<longleftrightarrow> (\<exists>(l, v) \<in> set (label_targets lvl syn). may l \<and> str_at (ns_Labels ns) l \<noteq> v) \<or>
      str_at (ns_Annotations ns) MinimallySufficientPodSecurityStandard \<noteq> lvl"
    and "na_Annotations p = (if str_at (ns_Annotations ns) MinimallySufficientPodSecurityStandard \<noteq> lvl
      then [MinimallySufficientPodSecurityStandard \<mapsto> lvl] else Map.empty)"
    and "na_Name p = ns_Name ns"
  using assms by (auto simp: psa_patch_def label_loop_targets fold_set_label Let_def)

lemma getManagerForLabel_owner:
  assumes "set (ord l ex) = set ex" "(m0, ls0) \<in> set ex" "l \<in> ls0"
  shows "\<exists>m ls. getManagerForLabel ord ex l = m \<and> (m, ls) \<in> set ex \<and> l \<in> ls"
proof -
  have "find (\<lambda>(manager, ls). l \<in> ls) (ord l ex) \<noteq> None"
    unfolding find_None_iff using assms by auto
  then obtain m ls where f: "find (\<lambda>(manager, ls). l \<in> ls) (ord l ex) = Some (m, ls)" by fastforce
  then have "(m, ls) \<in> set ex" "l \<in> ls" using assms(1) by (auto simp: find_Some_iff dest: nth_mem)
  with f show ?thesis by (auto simp: getManagerForLabel_def)
qed

lemma label_targets_distinct:
  "distinct (map fst (label_targets lvl allPSaLabels))" "distinct (map fst (label_targets lvl loggingLabels))"
  by (simp_all add: label_targets_def allPSaLabels_def loggingLabels_def label_name_defs)

lemma apply_level_calls:
  assumes "apply_level cl ord syn w ns lvl = (e, w')"
  shows "w' = w \<or> (\<exists>ex p. extractNSFieldsPerManager ns = Inr ex \<and>
    psa_patch (may_set ord ex (str_at (ns_Labels ns) labelSyncControlLabel = ''true'')) syn ns lvl = (p, True) \<and>
    w' = snd (pc_Apply cl w p controllerName (str_at (ns_Labels ns) labelSyncControlLabel = ''true'')))"
  using assms unfolding apply_level_def Let_def
  by (auto split: sum.splits prod.splits if_splits api_error.splits)

text \<open>Without an error, nothing had to be written, or the server took the patch or reported a conflict.\<close>

lemma apply_level_ok:
  assumes "fst (apply_level cl ord syn w ns lvl) = None"
  obtains ex p upd where "extractNSFieldsPerManager ns = Inr ex"
    "psa_patch (may_set ord ex (str_at (ns_Labels ns) labelSyncControlLabel = ''true'')) syn ns lvl = (p, upd)"
    "upd \<Longrightarrow> \<exists>r w'. pc_Apply cl w p controllerName (str_at (ns_Labels ns) labelSyncControlLabel = ''true'') = (r, w') \<and>
      (r = Inl ConflictErr \<or> (\<exists>n. r = Inr n))"
  using assms unfolding apply_level_def Let_def
  by (auto split: sum.splits prod.splits if_splits api_error.splits)

text \<open>A sync changes nothing that updates and applies leave alone.\<close>

lemma psa_sync_frame:
  assumes "\<And>w n m. f (snd (pc_Update cl w n m)) = f w" and "\<And>w p m b. f (snd (pc_Apply cl w p m b)) = f w"
  shows "f (snd (psa_sync cl unsorted ord syn w k)) = f w"
proof -
  have u: "f w' = f w" if "pc_Update cl w n m = (r, w')" for w n m r w' using assms(1) [of w n m] that by simp
  have a: "f w' = f w" if "pc_Apply cl w p m b = (r, w')" for w p m b r w' using assms(2) [of w p m b] that by simp
  have force: "f w' = f w" if "forceHistoricalLabelsOwnership cl w ns = (r, w')" for w ns r w'
    using that unfolding forceHistoricalLabelsOwnership_def Let_def
    by (auto split: sum.splits prod.splits if_splits dest!: u a)
  have level: "f w' = f w" if "apply_level cl ord syn w ns lvl = (r, w')" for w ns lvl r w'
    using apply_level_calls [OF that] assms(2) by auto
  have ns: "f w' = f w" if "psa_syncNamespace cl unsorted ord syn w ns = (r, w')" for w ns r w'
    using that unfolding psa_syncNamespace_def Let_def by (auto split: sum.splits if_splits dest!: level)
  obtain r w' where s: "psa_sync cl unsorted ord syn w k = (r, w')" by fastforce
  then show ?thesis unfolding psa_sync_def
    by (auto split: sum.splits prod.splits if_splits api_error.splits dest!: force ns)
qed

text \<open>Without labels of the old field manager, a controlled and living namespace is synced as it is.\<close>

lemma psa_sync_current:
  assumes "pc_nsGet cl w k = Inr ns" "isNSControlled ord ns" "ns_Phase ns \<noteq> NsTerminating"
    and "cpc_owned {} (ns_ManagedFields ns) = Inr {}"
  shows "psa_sync cl unsorted ord syn w k = psa_syncNamespace cl unsorted ord syn w ns"
  using assms by (simp add: psa_sync_def forceHistoricalLabelsOwnership_def)


text \<open>C23: System namespaces and namespaces that opted out are never written: for an exempted name, for an
  \<open>openshift-\<close> name without the opt-in label, for the label value \<open>false\<close>, and for a terminating
  namespace, \<open>sync\<close> returns without an error and without a call that changes anything.\<close>

theorem uncontrolled_namespace_untouched:
  assumes "pc_nsGet cl w qKey = Inr ns"
    and "IsNamespacePSALabelSyncExemptedInVendoredOCPVersion (ns_Name ns) \<or>
      (HasPrefix (ns_Name ns) ''openshift-'' \<and> str_at (ns_Labels ns) labelSyncControlLabel \<noteq> ''true'') \<or>
      str_at (ns_Labels ns) labelSyncControlLabel = ''false'' \<or> ns_Phase ns = NsTerminating"
  shows "psa_sync cl unsorted ord syncedLabels w qKey = (None, w)"
  using assms by (auto simp: psa_sync_def isNSControlled_def Let_def split: sum.splits)

text \<open>Synchronising settles: once the namespace carries the labels and the annotation of the patch,
  and the controller may set no label it could not set before, a further run at the same level finds
  nothing to write, so the controller does not loop on its own updates.\<close>

lemma psa_patch_settles:
  assumes "syn = allPSaLabels \<or> syn = loggingLabels" and "psa_patch may syn ns lvl = (p, upd)"
    and "\<forall>l. may' l \<longrightarrow> may l"
    and "ns_Labels ns' = ns_Labels ns ++ na_Labels p"
    and "ns_Annotations ns' = ns_Annotations ns ++ na_Annotations p"
    and "psa_patch may' syn ns' lvl = (p', upd')"
  shows "\<not> upd'"
proof -
  have dist: "distinct (map fst (label_targets lvl syn))" using assms(1) label_targets_distinct by auto
  have "str_at (ns_Labels ns') l = v" if "(l, v) \<in> set (label_targets lvl syn)" "may' l" for l v
    using that assms(3,4) psa_patch_labels [OF dist assms(2), of l] dist
    by (auto simp: str_at_def map_add_def)
  moreover have "str_at (ns_Annotations ns') MinimallySufficientPodSecurityStandard = lvl"
    using assms(5) psa_patch_update(2) [OF assms(2)] by (auto simp: str_at_def map_add_def)
  ultimately show ?thesis using psa_patch_update(1) [OF assms(6)] by fastforce
qed

text \<open>The patch does not keep the annotation the controller owns: when the annotation already holds
  the level but a label must be changed, the apply configuration has no annotation at all (and a
  server-side apply by the owner without a field removes the field).\<close>

lemma patch_omits_current_annotation:
  assumes "syn = allPSaLabels \<or> syn = loggingLabels"
    and "str_at (ns_Annotations ns) MinimallySufficientPodSecurityStandard = lvl"
    and "may WarnLevelLabel" and "str_at (ns_Labels ns) WarnLevelLabel \<noteq> lvl"
  shows "snd (psa_patch may syn ns lvl) \<and> na_Annotations (fst (psa_patch may syn ns lvl)) = Map.empty"
proof -
  obtain p upd where p: "psa_patch may syn ns lvl = (p, upd)" by fastforce
  have "(WarnLevelLabel, lvl) \<in> set (label_targets lvl syn)"
    using assms(1) by (auto simp: label_targets_def allPSaLabels_def loggingLabels_def)
  then have upd using psa_patch_update(1) [OF p] assms(3,4) by blast
  with psa_patch_update(2) [OF p] assms(2) p show ?thesis by simp
qed

section \<open>Queue keys\<close>

text \<open>
  A cluster-wide change resyncs every controlled namespace: the label selector drops no namespace that
  \<open>isNSControlled\<close> accepts.
\<close>

lemma watched_controlled:
  "allWatchedNamespacesAsQueueKeys ord (Inr nss) = map ns_Name (filter (isNSControlled ord) nss)"
proof -
  have "controlledNamespacesLabelSelector ns" if "isNSControlled ord ns" for ns
    using that by (auto simp: isNSControlled_def controlledNamespacesLabelSelector_def str_at_def Let_def
        split: if_splits sum.splits)
  then have "filter (isNSControlled ord) (filter controlledNamespacesLabelSelector nss) =
      filter (isNSControlled ord) nss"
    by (induction nss) auto
  then show ?thesis by (simp add: allWatchedNamespacesAsQueueKeys_def)
qed

section \<open>Privileged namespaces stay privileged\<close>

lemma na_Name_privileged_patch: "na_Name (privileged_patch n) = n"
  by (simp add: privileged_patch_def)

text \<open>After a sync without error the namespace is privileged in all three modes, if the server sets
  the labels of an accepted apply: either it was so already and nothing is written, or the forced patch
  sets all three labels.\<close>

lemma privileged_sync_labels:
  assumes "nsGet w nsName = Inr ns" and "ns_Name ns = nsName"
    and "\<forall>p n w2. nsApply w p privilegedControllerName True = (Inr n, w2) \<longrightarrow>
      nsGet w2 (na_Name p) = Inr n \<and> ns_Labels n = ns_Labels ns ++ na_Labels p"
    and "privileged_sync nsGet nsApply w nsName = (None, w')"
  shows "\<exists>n. nsGet w' nsName = Inr n \<and>
    (\<forall>l \<in> {EnforceLevelLabel, WarnLevelLabel, AuditLevelLabel}. ns_Labels n l = Some ''privileged'')"
proof (cases "w' = w \<and> (\<forall>l \<in> {EnforceLevelLabel, WarnLevelLabel, AuditLevelLabel}. ns_Labels ns l = Some ''privileged'')")
  case True
  then show ?thesis using assms(1) by auto
next
  case False
  have "str_at (ns_Labels ns) l = ''privileged'' \<longleftrightarrow> ns_Labels ns l = Some ''privileged''" for l
    by (auto simp: str_at_def split: option.splits)
  then obtain n where n: "nsApply w (privileged_patch nsName) privilegedControllerName True = (Inr n, w')"
    using False assms(1,2,4) by (auto simp: privileged_sync_def split: if_splits sum.splits prod.splits)
  then have "nsGet w' nsName = Inr n" "ns_Labels n = ns_Labels ns ++ na_Labels (privileged_patch nsName)"
    using assms(3) na_Name_privileged_patch by metis+
  then show ?thesis by (auto simp: privileged_patch_def map_add_def label_name_defs)
qed

section \<open>Runs\<close>

text \<open>A client over a namespace store, with the roles and SCCs of the run in theory \<open>Scc_Role_Cache\<close>.\<close>

definition merge_apply :: "(string \<rightharpoonup> namespace) \<Rightarrow> ns_apply \<Rightarrow> string \<Rightarrow> bool \<Rightarrow> (api_error + namespace) \<times> (string \<rightharpoonup> namespace)" where
  "merge_apply w p manager force =
     (case w (na_Name p) of
        None \<Rightarrow> (Inl NotFound, w)
      | Some n \<Rightarrow>
          let n' = n\<lparr>ns_Labels := ns_Labels n ++ na_Labels p, ns_Annotations := ns_Annotations n ++ na_Annotations p\<rparr>
          in (Inr n', w(na_Name p \<mapsto> n')))"

definition lookup_ns :: "(string \<rightharpoonup> namespace) \<Rightarrow> string \<Rightarrow> api_error + namespace" where
  "lookup_ns w name = (case w name of Some n \<Rightarrow> Inr n | None \<Rightarrow> Inl NotFound)"

definition ex_psa_client :: "(string \<rightharpoonup> namespace) psa_client" where
  "ex_psa_client = \<lparr>pc_nsGet = lookup_ns, pc_saList = \<lambda>w n. Inr [''builder''],
     pc_sccGet = \<lambda>w n. if n = ''restricted-v2'' then Inr restricted_v2 else Inl NotFound,
     pc_SCCsFor = \<lambda>w. SCCsFor (listers_of (fst ex_final)) (snd ex_final),
     pc_Extract = \<lambda>n m. Inl ''none'', pc_Update = \<lambda>w n m. (Inl NotFound, w), pc_Apply = merge_apply\<rparr>"

lemma ex_final_coherent: "wf_store (fst ex_final) \<and> coherent (fst ex_final) (snd ex_final)"
  by (rule coherent_events [OF coherent_start, of ex_events])
    (simp_all add: ex_events_def ex_final_def ex_cluster_role_def ex_binding_def)

lemma ex_granted: "granted (fst ex_final) ''app'' ''builder'' = {''restricted-v2''}"
proof -
  have "SCCsFor (listers_of (fst ex_final)) (snd ex_final) ''app'' ''builder'' = Inr {''restricted-v2''}" by code_simp
  then show ?thesis using SCCsFor_granted ex_final_coherent by simp
qed

theorem synced_level_is_most_privileged_witness:
  "psa_syncNamespace ex_psa_client sorted_list_of_set (\<lambda>l xs. xs) allPSaLabels [''app'' \<mapsto> ex_ns] ex_ns =
     apply_level ex_psa_client (\<lambda>l xs. xs) allPSaLabels [''app'' \<mapsto> ex_ns] ex_ns ''restricted''"
proof -
  have lv: "convertSCCToPSALevel ex_ns restricted_v2 = Inr restricted" by code_simp
  have n: "ns_Name ex_ns = ''app''" "str_at (ns_Annotations ex_ns) UIDRangeAnnotation \<noteq> []" by code_simp+
  have "psa_syncNamespace ex_psa_client sorted_list_of_set (\<lambda>l xs. xs) allPSaLabels [''app'' \<mapsto> ex_ns] ex_ns =
      apply_level ex_psa_client (\<lambda>l xs. xs) allPSaLabels [''app'' \<mapsto> ex_ns] ex_ns
        (internalRestrictivnessToPSaLevel (Max ((\<lambda>_. restricted) ` {''restricted-v2''})))"
    using ex_final_coherent n lv ex_granted
    by (intro synced_level_is_most_privileged [where st = "fst ex_final" and c = "snd ex_final"
          and sas = "[''builder'']"])
      (simp_all add: ex_psa_client_def)
  moreover have "internalRestrictivnessToPSaLevel restricted = ''restricted''" by code_simp
  ultimately show ?thesis by simp
qed

text \<open>The same service account when nothing is granted to it: no level is known.\<close>

theorem synced_level_is_known_witness:
  "psa_syncNamespace (ex_psa_client\<lparr>pc_SCCsFor := \<lambda>w n sa. Inr {}\<rparr>) sorted_list_of_set (\<lambda>l xs. xs) allPSaLabels
     [''app'' \<mapsto> ex_ns] ex_ns = (Some UnknownPSaLevel, [''app'' \<mapsto> ex_ns])"
proof -
  let ?cl = "ex_psa_client\<lparr>pc_SCCsFor := \<lambda>w n sa. Inr {}\<rparr>" and ?w = "[''app'' \<mapsto> ex_ns]"
  have n: "str_at (ns_Annotations ex_ns) UIDRangeAnnotation \<noteq> []" by code_simp
  have "level_loop (pc_sccGet ?cl ?w) ex_ns 0 (sorted_list_of_set {}) = Inr 0" by simp
  then have "fst (psa_syncNamespace ?cl sorted_list_of_set (\<lambda>l xs. xs) allPSaLabels ?w ex_ns) = Some UnknownPSaLevel"
    using n by (simp add: psa_syncNamespace_def ex_psa_client_def internalRestrictivnessToPSaLevel_def level_defs)
  with synced_level_is_known [OF n, of ?cl ?w "[''builder'']" "{}" sorted_list_of_set "\<lambda>l xs. xs" allPSaLabels, OF _ _ _ _ refl]
  show ?thesis by (auto simp: ex_psa_client_def)
qed

text \<open>A namespace whose enforce label somebody set with \<open>kubectl\<close>.\<close>

definition ex_foreign_ns :: namespace where
  "ex_foreign_ns = ex_ns\<lparr>ns_Labels := [EnforceLevelLabel \<mapsto> ''baseline''],
     ns_ManagedFields := [\<lparr>mf_Manager = ''kubectl'', mf_FieldsV1 =
       Some (JObj [(''f:metadata'', JObj [(''f:labels'', JObj [(''f:pod-security.kubernetes.io/enforce'', JObj [])])])])\<rparr>]\<rparr>"


theorem uncontrolled_namespace_untouched_witness:
  "psa_sync ex_psa_client sorted_list_of_set (\<lambda>l xs. xs) allPSaLabels [''openshift-etcd'' \<mapsto> ex_ns\<lparr>ns_Name := ''openshift-etcd''\<rparr>]
     ''openshift-etcd'' = (None, [''openshift-etcd'' \<mapsto> ex_ns\<lparr>ns_Name := ''openshift-etcd''\<rparr>])"
  by (rule uncontrolled_namespace_untouched [where ns = "ex_ns\<lparr>ns_Name := ''openshift-etcd''\<rparr>"])
    (simp_all add: ex_psa_client_def lookup_ns_def IsNamespacePSALabelSyncExemptedInVendoredOCPVersion_def
      systemNSSyncExemptions_def)

lemma psa_patch_settles_witness:
  "snd (psa_patch (\<lambda>_. True) allPSaLabels ex_ns ''restricted'') \<and>
   \<not> snd (psa_patch (\<lambda>_. True) allPSaLabels
     (ex_ns\<lparr>ns_Labels := ns_Labels ex_ns ++ na_Labels (fst (psa_patch (\<lambda>_. True) allPSaLabels ex_ns ''restricted'')),
       ns_Annotations := ns_Annotations ex_ns ++ na_Annotations (fst (psa_patch (\<lambda>_. True) allPSaLabels ex_ns ''restricted''))\<rparr>)
     ''restricted'')"
proof
  show "snd (psa_patch (\<lambda>_. True) allPSaLabels ex_ns ''restricted'')" by code_simp
  show "\<not> snd (psa_patch (\<lambda>_. True) allPSaLabels
     (ex_ns\<lparr>ns_Labels := ns_Labels ex_ns ++ na_Labels (fst (psa_patch (\<lambda>_. True) allPSaLabels ex_ns ''restricted'')),
       ns_Annotations := ns_Annotations ex_ns ++ na_Annotations (fst (psa_patch (\<lambda>_. True) allPSaLabels ex_ns ''restricted''))\<rparr>)
     ''restricted'')"
    by (rule psa_patch_settles [OF disjI1 [OF refl] prod.collapse [symmetric] _ _ _ prod.collapse [symmetric]]) simp_all
qed

end
