(* ===== verification/Work_Queue.thy ===== *)
theory Work_Queue
  imports Prelude
begin

text \<open>
  The work queue of client-go (\<open>vendor/k8s.io/client-go/util/workqueue/queue.go\<close>) that the controllers
  of this repository use: a FIFO of keys with the set of dirty keys (added since they were last handed
  out) and the set of keys being processed. Every method runs under the queue's own lock, so each is
  one function of the queue's state. \<open>Get\<close> blocks while the queue is empty.

  The locale \<open>work_queue\<close> states what a client may rely on; the bucketing queue of the quota
  controller (theory \<open>Queue_Bucket\<close>) uses the queue through its interpretation \<open>wq\<close> only.
\<close>

record wqueue =
  q_queue :: "string list"
  q_dirty :: "string set"
  q_processing :: "string set"
  q_shuttingDown :: bool

definition wq_New :: wqueue where
  "wq_New = \<lparr>q_queue = [], q_dirty = {}, q_processing = {}, q_shuttingDown = False\<rparr>"

definition wq_Add :: "string \<Rightarrow> wqueue \<Rightarrow> wqueue" where
  "wq_Add item q =
     (if q_shuttingDown q then q
      else if item \<in> q_dirty q then q
      else if item \<in> q_processing q then q\<lparr>q_dirty := insert item (q_dirty q)\<rparr>
      else q\<lparr>q_dirty := insert item (q_dirty q), q_queue := q_queue q @ [item]\<rparr>)"

definition wq_Len :: "wqueue \<Rightarrow> nat" where
  "wq_Len q = length (q_queue q)"

text \<open>The returned key (\<open>None\<close> for the shutdown signal) and the new state; no result while it blocks.\<close>

definition wq_Get :: "wqueue \<Rightarrow> (string option \<times> wqueue) option" where
  "wq_Get q =
     (case q_queue q of
        [] \<Rightarrow> if q_shuttingDown q then Some (None, q) else None
      | item # rest \<Rightarrow>
          Some (Some item, q\<lparr>q_queue := rest, q_processing := insert item (q_processing q),
                             q_dirty := q_dirty q - {item}\<rparr>))"

definition wq_Done :: "string \<Rightarrow> wqueue \<Rightarrow> wqueue" where
  "wq_Done item q =
     (let q' = q\<lparr>q_processing := q_processing q - {item}\<rparr>
      in if item \<in> q_dirty q' then q'\<lparr>q_queue := q_queue q' @ [item]\<rparr> else q')"

definition wq_ShutDown :: "wqueue \<Rightarrow> wqueue" where
  "wq_ShutDown q = q\<lparr>q_shuttingDown := True\<rparr>"

text \<open>The invariant in the comments of \<open>Typed\<close>: the queue holds the dirty keys that are not processed.\<close>

definition wq_inv :: "wqueue \<Rightarrow> bool" where
  "wq_inv q \<longleftrightarrow> distinct (q_queue q) \<and> set (q_queue q) = q_dirty q - q_processing q"

section \<open>The interface\<close>

locale work_queue =
  fixes inv :: "'q \<Rightarrow> bool"
    and dirty processing :: "'q \<Rightarrow> string set"
    and closing :: "'q \<Rightarrow> bool"
    and add :: "string \<Rightarrow> 'q \<Rightarrow> 'q"
    and get :: "'q \<Rightarrow> (string option \<times> 'q) option"
    and done_with :: "string \<Rightarrow> 'q \<Rightarrow> 'q"
  assumes add_inv: "inv q \<Longrightarrow> inv (add k q)"
    and add_dirty: "inv q \<Longrightarrow> \<not> closing q \<Longrightarrow> dirty (add k q) = insert k (dirty q)"
    and add_closing: "inv q \<Longrightarrow> closing q \<Longrightarrow> dirty (add k q) = dirty q"
    and add_processing: "inv q \<Longrightarrow> processing (add k q) = processing q"
    and add_closed: "inv q \<Longrightarrow> closing (add k q) = closing q"
    and get_inv: "inv q \<Longrightarrow> get q = Some (r, q') \<Longrightarrow> inv q'"
    and get_key: "inv q \<Longrightarrow> get q = Some (Some k, q') \<Longrightarrow> k \<in> dirty q - processing q \<and>
      dirty q' = dirty q - {k} \<and> processing q' = insert k (processing q) \<and> closing q' = closing q"
    and get_blocks: "inv q \<Longrightarrow> get q = None \<longleftrightarrow> dirty q \<subseteq> processing q \<and> \<not> closing q"
    and done_inv: "inv q \<Longrightarrow> k \<in> processing q \<Longrightarrow> inv (done_with k q)"
    and done_dirty: "inv q \<Longrightarrow> dirty (done_with k q) = dirty q"
    and done_processing: "inv q \<Longrightarrow> processing (done_with k q) = processing q - {k}"
    and done_closed: "inv q \<Longrightarrow> closing (done_with k q) = closing q"
begin

text \<open>A key is never handed out again before it is done.\<close>

lemma get_not_processing: "inv q \<Longrightarrow> get q = Some (Some k, q') \<Longrightarrow> k \<notin> processing q"
  using get_key by blast

text \<open>A key added while it is processed is handed out again after \<open>Done\<close>.\<close>

lemma requeued:
  assumes "inv q" "\<not> closing q" "k \<in> processing q"
  shows "get (done_with k (add k q)) \<noteq> None"
proof
  let ?q = "add k q"
  assume "get (done_with k ?q) = None"
  moreover have "inv ?q" "k \<in> processing ?q" using assms add_inv add_processing by auto
  ultimately have "dirty ?q \<subseteq> processing ?q - {k}"
    using get_blocks [OF done_inv] done_dirty done_processing by blast
  then show False using add_dirty [OF assms(1,2)] by blast
qed

end

lemma wq_Get_cases:
  assumes "wq_Get q = Some (r, q')"
  obtains "r = None" "q' = q" | k rest where "r = Some k" "q_queue q = k # rest"
    "q' = q\<lparr>q_queue := rest, q_processing := insert k (q_processing q), q_dirty := q_dirty q - {k}\<rparr>"
  using assms by (auto simp: wq_Get_def split: list.splits if_splits)

lemma wq_inv_Get:
  assumes "wq_inv q" "wq_Get q = Some (r, q')"
  shows "wq_inv q'"
  using assms(2)
proof (cases rule: wq_Get_cases)
  case (2 k rest)
  have "k \<notin> set rest" "distinct rest" "insert k (set rest) = q_dirty q - q_processing q"
    using assms(1) 2(2) by (auto simp: wq_inv_def)
  moreover from this have "set rest = q_dirty q - {k} - insert k (q_processing q)" by blast
  ultimately show ?thesis using 2(3) by (simp add: wq_inv_def)
qed (use assms(1) in simp)

lemma wq_Get_key:
  assumes "wq_inv q" "wq_Get q = Some (Some k, q')"
  shows "k \<in> q_dirty q - q_processing q \<and> q_dirty q' = q_dirty q - {k} \<and>
      q_processing q' = insert k (q_processing q) \<and> q_shuttingDown q' = q_shuttingDown q"
  using assms(2)
proof (cases rule: wq_Get_cases)
  case (2 k' rest)
  then have "k \<in> set (q_queue q)" by simp
  then have "k \<in> q_dirty q - q_processing q" using assms(1) by (simp only: wq_inv_def)
  then show ?thesis using 2 by simp
qed simp

interpretation wq: work_queue wq_inv q_dirty q_processing q_shuttingDown wq_Add wq_Get wq_Done
proof
  fix q k assume "wq_inv q"
  then show "wq_inv (wq_Add k q)" by (auto simp: wq_inv_def wq_Add_def)
next
  fix q assume "wq_inv q"
  then have "q_queue q = [] \<longleftrightarrow> q_dirty q \<subseteq> q_processing q" unfolding wq_inv_def by (metis Diff_eq_empty_iff set_empty)
  then show "wq_Get q = None \<longleftrightarrow> q_dirty q \<subseteq> q_processing q \<and> \<not> q_shuttingDown q"
    by (auto simp: wq_Get_def split: list.splits)
next
  fix q k assume "wq_inv q" "k \<in> q_processing q"
  then show "wq_inv (wq_Done k q)" by (auto simp: wq_inv_def wq_Done_def Let_def)
qed (auto simp: wq_Add_def wq_Done_def Let_def intro: wq_inv_Get dest: wq_Get_key)

section \<open>The loop of a worker\<close>

text \<open>
  \<open>for { if quit := workFunc(); quit { return } }\<close>. The function has no result while it blocks, and the loop has
  none when it never ends.
\<close>

partial_function (option) worker_loop :: "('s \<Rightarrow> (bool \<times> 's) option) \<Rightarrow> 's \<Rightarrow> 's option" where
  "worker_loop workFunc s =
     (case workFunc s of
        None \<Rightarrow> None
      | Some (quit, s') \<Rightarrow> if quit then Some s' else worker_loop workFunc s')"

declare worker_loop.simps [code]

text \<open>A loop whose function uses up a list of pending items, and quits when there is none, ends.\<close>

lemma worker_loop_uses_up:
  assumes "\<And>s. good s \<Longrightarrow> todo s = [] \<Longrightarrow> workFunc s = Some (True, s)"
    and "\<And>s k ks. good s \<Longrightarrow> todo s = k # ks \<Longrightarrow> \<exists>s'. workFunc s = Some (False, s') \<and> good s' \<and> todo s' = ks \<and> out s' = f k (out s)"
    and "good s"
  shows "\<exists>s'. worker_loop workFunc s = Some s' \<and> good s' \<and> todo s' = [] \<and> out s' = fold f (todo s) (out s)"
  using assms(3)
proof (induction "todo s" arbitrary: s)
  case Nil
  then show ?case using assms(1) [OF Nil.prems] by (subst worker_loop.simps) simp
next
  case (Cons k ks)
  obtain s' where s': "workFunc s = Some (False, s')" "good s'" "todo s' = ks" "out s' = f k (out s)"
    using assms(2) [OF Cons.prems Cons.hyps(2) [symmetric]] by blast
  have "worker_loop workFunc s = worker_loop workFunc s'" by (subst worker_loop.simps) (simp add: s'(1))
  moreover have "fold f (todo s) (out s) = fold f (todo s') (out s')" by (simp add: Cons.hyps(2) [symmetric] s'(3,4))
  ultimately show ?case using Cons.hyps(1) [OF s'(3) [symmetric] s'(2)] by simp
qed

text \<open>
  After \<open>ShutDown\<close>: taking the first key and finishing it drops it from the queue, even if it should be added
  again in between; a queue without keys says to quit.
\<close>

lemma wq_shut_item:
  assumes "wq_inv q" "q_shuttingDown q" "q_queue q = k # ks"
  shows "wq_Get q = Some (Some k, q\<lparr>q_queue := ks, q_processing := insert k (q_processing q), q_dirty := q_dirty q - {k}\<rparr>)"
    and "wq_Done k (q\<lparr>q_queue := ks, q_processing := insert k (q_processing q), q_dirty := q_dirty q - {k}\<rparr>) =
      q\<lparr>q_queue := ks, q_dirty := q_dirty q - {k}\<rparr>"
    and "wq_inv (q\<lparr>q_queue := ks, q_dirty := q_dirty q - {k}\<rparr>)"
proof -
  show "wq_Get q = Some (Some k, q\<lparr>q_queue := ks, q_processing := insert k (q_processing q), q_dirty := q_dirty q - {k}\<rparr>)"
    using assms(3) by (simp add: wq_Get_def)
  have k: "k \<notin> q_processing q" "k \<notin> set ks" "distinct ks" "insert k (set ks) = q_dirty q - q_processing q"
    using assms(1,3) by (auto simp: wq_inv_def)
  then show "wq_Done k (q\<lparr>q_queue := ks, q_processing := insert k (q_processing q), q_dirty := q_dirty q - {k}\<rparr>) =
      q\<lparr>q_queue := ks, q_dirty := q_dirty q - {k}\<rparr>"
    by (simp add: wq_Done_def)
  have "set ks = q_dirty q - {k} - q_processing q" using k by blast
  then show "wq_inv (q\<lparr>q_queue := ks, q_dirty := q_dirty q - {k}\<rparr>)" using k(3) by (simp add: wq_inv_def)
qed

lemma wq_shut_empty: "q_shuttingDown q \<Longrightarrow> q_queue q = [] \<Longrightarrow> wq_Get q = Some (None, q)"
  by (simp add: wq_Get_def)

lemma wq_ShutDown_simps [simp]:
  "q_queue (wq_ShutDown q) = q_queue q" "q_shuttingDown (wq_ShutDown q)" "wq_inv (wq_ShutDown q) = wq_inv q"
  by (simp_all add: wq_ShutDown_def wq_inv_def)

end
