(* ===== verification/Worker.thy ===== *)
theory Worker
  imports Work_Queue
begin

text \<open>
  The workers of the controllers. The factory of library-go
  (\<open>vendor/github.com/openshift/library-go/pkg/controller/factory\<close>) and the privileged-namespaces syncer take
  keys from a rate-limited queue (\<open>vendor/k8s.io/client-go/util/workqueue\<close>), run the controller's \<open>sync\<close> on
  each, and add the key again after a delay when the sync failed. The controller's \<open>sync\<close> is a parameter: a
  function of the state of everything outside the queue, with an optional error.

  The theory shows that no key is lost between its event and a successful sync. The locale \<open>reconciler\<close> states
  what a controller has to promise about its events and its \<open>sync\<close>, and derives what holds once its queue is at
  rest: everything it wants in order was last synced on what is there now. The loop of a worker ends after the
  queue has been shut down.
\<close>

definition enqueueKeys :: "string list \<Rightarrow> wqueue \<Rightarrow> wqueue" where
  "enqueueKeys keys q = fold wq_Add keys q"

section \<open>Workers\<close>

text \<open>
  A rate-limited queue: the queue proper, the keys whose delayed add has not fired yet, and how often each
  key has failed.
\<close>

record rl_queue =
  rl_queue :: wqueue
  rl_waiting :: "string list"
  rl_failures :: "string \<Rightarrow> nat"

text \<open>A queue that is shutting down takes no delayed keys either; the delays of the rate limiter are positive.\<close>

definition AddAfter :: "string \<Rightarrow> rl_queue \<Rightarrow> rl_queue" where
  "AddAfter key q = (if q_shuttingDown (rl_queue q) then q else q\<lparr>rl_waiting := rl_waiting q @ [key]\<rparr>)"

definition AddRateLimited :: "string \<Rightarrow> rl_queue \<Rightarrow> rl_queue" where
  "AddRateLimited key q = AddAfter key (q\<lparr>rl_failures := (rl_failures q)(key := rl_failures q key + 1)\<rparr>)"

definition Forget :: "string \<Rightarrow> rl_queue \<Rightarrow> rl_queue" where
  "Forget key q = q\<lparr>rl_failures := (rl_failures q)(key := 0)\<rparr>"

definition rl_Done :: "string \<Rightarrow> rl_queue \<Rightarrow> rl_queue" where
  "rl_Done key q = q\<lparr>rl_queue := wq_Done key (rl_queue q)\<rparr>"

definition rl_Get :: "rl_queue \<Rightarrow> (string option \<times> rl_queue) option" where
  "rl_Get q = map_option (\<lambda>(r, q'). (r, q\<lparr>rl_queue := q'\<rparr>)) (wq_Get (rl_queue q))"

text \<open>
  \<open>baseController.processNextWorkItem\<close>: what it does with the result of the sync, all of it after \<open>Get\<close>, and the
  whole of it; it has no result while \<open>Get\<close> blocks.
\<close>

definition conclude_item :: "string \<Rightarrow> 'e option \<Rightarrow> rl_queue \<Rightarrow> rl_queue" where
  "conclude_item key err q =
     (case err of
        Some _ \<Rightarrow> rl_Done key (AddRateLimited key q)
      | None \<Rightarrow> rl_Done key (Forget key q))"

definition finish_item :: "('w \<Rightarrow> string \<Rightarrow> 'e option \<times> 'w) \<Rightarrow> string \<Rightarrow> rl_queue \<times> 'w \<Rightarrow> rl_queue \<times> 'w" where
  "finish_item sync key s =
     (case s of (q, w) \<Rightarrow> case sync w key of (err, w') \<Rightarrow> (conclude_item key err q, w'))"

definition processNextWorkItem :: "('w \<Rightarrow> string \<Rightarrow> 'e option \<times> 'w) \<Rightarrow> rl_queue \<times> 'w \<Rightarrow> (rl_queue \<times> 'w) option" where
  "processNextWorkItem sync s =
     (case rl_Get (fst s) of
        None \<Rightarrow> None
      | Some (None, q) \<Rightarrow> Some (q, snd s)
      | Some (Some key, q) \<Rightarrow> Some (finish_item sync key (q, snd s)))"

lemma conclude_item_queue:
  "rl_queue (conclude_item k err q) = wq_Done k (rl_queue q)"
  "\<not> q_shuttingDown (rl_queue q) \<Longrightarrow>
   rl_waiting (conclude_item k err q) = rl_waiting q @ (if err = None then [] else [k])"
  "q_shuttingDown (rl_queue q) \<Longrightarrow> rl_waiting (conclude_item k err q) = rl_waiting q"
  by (simp_all add: conclude_item_def rl_Done_def AddRateLimited_def AddAfter_def Forget_def split: option.split)

section \<open>No key is lost\<close>

text \<open>
  What happens to keys, newest entry first: a key is asked for by an event, a worker starts on it, and it
  finishes with success or failure.
\<close>

datatype entry = Asked string | Started string | Finished string bool

type_synonym 'w running = "rl_queue \<times> 'w \<times> entry list"

text \<open>Events, workers, delayed adds and changes of the cluster in any order.\<close>

inductive worker_step :: "('w \<Rightarrow> string \<Rightarrow> 'e option \<times> 'w) \<Rightarrow> 'w running \<Rightarrow> 'w running \<Rightarrow> bool"
  for sync :: "'w \<Rightarrow> string \<Rightarrow> 'e option \<times> 'w" where
  asked: "worker_step sync (q, w, l) (q\<lparr>rl_queue := enqueueKeys keys (rl_queue q)\<rparr>, w, rev (map Asked keys) @ l)"
| started: "rl_Get q = Some (Some k, q') \<Longrightarrow> worker_step sync (q, w, l) (q', w, Started k # l)"
| finished: "k \<in> q_processing (rl_queue q) \<Longrightarrow> finish_item sync k (q, w) = (q', w') \<Longrightarrow>
    worker_step sync (q, w, l) (q', w', Finished k (fst (sync w k) = None) # l)"
| fires: "rl_waiting q = xs @ k # ys \<Longrightarrow>
    worker_step sync (q, w, l) (q\<lparr>rl_waiting := xs @ ys, rl_queue := wq_Add k (rl_queue q)\<rparr>, w, l)"
| cluster: "worker_step sync (q, w, l) (q, w', l)"

definition rl_New :: rl_queue where
  "rl_New = \<lparr>rl_queue = wq_New, rl_waiting = [], rl_failures = (\<lambda>_. 0)\<rparr>"

text \<open>A worker is on the key since it was last asked for; the key was last finished with success, by such a worker.\<close>

fun on_it :: "string \<Rightarrow> entry list \<Rightarrow> bool" where
  "on_it k [] = False"
| "on_it k (Asked k' # l) = (k' \<noteq> k \<and> on_it k l)"
| "on_it k (Started k' # l) = (k' = k \<or> on_it k l)"
| "on_it k (Finished k' b # l) = (k' \<noteq> k \<and> on_it k l)"

fun settled :: "string \<Rightarrow> entry list \<Rightarrow> bool" where
  "settled k [] = True"
| "settled k (Asked k' # l) = (k' \<noteq> k \<and> settled k l)"
| "settled k (Started k' # l) = settled k l"
| "settled k (Finished k' b # l) = (if k' = k then b \<and> on_it k l else settled k l)"

definition lost_none :: "'w running \<Rightarrow> bool" where
  "lost_none s \<longleftrightarrow>
     (case s of (q, w, l) \<Rightarrow>
        wq_inv (rl_queue q) \<and> \<not> q_shuttingDown (rl_queue q) \<and>
        (\<forall>k. settled k l \<or> k \<in> q_dirty (rl_queue q) \<or> k \<in> set (rl_waiting q) \<or> k \<in> q_processing (rl_queue q)) \<and>
        (\<forall>k \<in> q_processing (rl_queue q). on_it k l \<or> k \<in> q_dirty (rl_queue q)))"

lemma enqueueKeys_queue:
  assumes "wq_inv q" "\<not> q_shuttingDown q"
  shows "wq_inv (enqueueKeys keys q) \<and> \<not> q_shuttingDown (enqueueKeys keys q) \<and>
    q_dirty (enqueueKeys keys q) = q_dirty q \<union> set keys \<and> q_processing (enqueueKeys keys q) = q_processing q"
  unfolding enqueueKeys_def using assms
proof (induction keys arbitrary: q)
  case (Cons k keys)
  have "wq_inv (wq_Add k q)" "\<not> q_shuttingDown (wq_Add k q)"
    using Cons.prems wq.add_inv wq.add_closed by simp_all
  from Cons.IH [OF this] show ?case
    using Cons.prems by (simp add: wq.add_dirty wq.add_processing)
qed simp

lemma log_asked:
  "settled k (rev (map Asked keys) @ l) \<longleftrightarrow> k \<notin> set keys \<and> settled k l"
  "on_it k (rev (map Asked keys) @ l) \<longleftrightarrow> k \<notin> set keys \<and> on_it k l"
  by (induction keys arbitrary: l) auto

lemma lost_none_step: "worker_step sync s s' \<Longrightarrow> lost_none s \<Longrightarrow> lost_none s'"
proof (induction rule: worker_step.induct)
  case (asked q w l keys)
  then show ?case
    using enqueueKeys_queue [of "rl_queue q" keys] by (auto simp: lost_none_def log_asked)
next
  case (started q k q' w l)
  then obtain iq where g: "wq_Get (rl_queue q) = Some (Some k, iq)" "q' = q\<lparr>rl_queue := iq\<rparr>"
    by (auto simp: rl_Get_def)
  have "wq_inv (rl_queue q)" using started by (simp add: lost_none_def)
  from wq.get_inv [OF this g(1)] wq.get_key [OF this g(1)] show ?case
    using started g(2) by (auto simp: lost_none_def)
next
  case (finished k q w q' w' l)
  let ?iq = "rl_queue q"
  have inv: "wq_inv ?iq" using finished by (simp add: lost_none_def)
  have q': "rl_queue q' = wq_Done k ?iq"
    "rl_waiting q' = rl_waiting q @ (if fst (sync w k) = None then [] else [k])"
    using finished(2,3) by (auto simp: lost_none_def finish_item_def conclude_item_queue split: prod.splits)
  have iq': "wq_inv (wq_Done k ?iq)" "q_dirty (wq_Done k ?iq) = q_dirty ?iq"
    "q_processing (wq_Done k ?iq) = q_processing ?iq - {k}" "q_shuttingDown (wq_Done k ?iq) = q_shuttingDown ?iq"
    using inv finished(1) by (simp_all add: wq.done_inv wq.done_dirty wq.done_processing wq.done_closed)
  show ?case using finished(1,3) unfolding lost_none_def prod.case q' iq'
    by (auto simp: iq'(1))
next
  case (fires q xs k ys w l)
  have inv: "wq_inv (rl_queue q)" "\<not> q_shuttingDown (rl_queue q)" using fires by (simp_all add: lost_none_def)
  then show ?case using fires
    by (auto simp: lost_none_def wq.add_inv wq.add_dirty wq.add_processing wq.add_closed)
qed (simp add: lost_none_def)

lemma lost_none_start: "lost_none (rl_New, w, [])"
  by (simp add: lost_none_def rl_New_def wq_New_def wq_inv_def)

lemma lost_none_run: "(worker_step sync)\<^sup>*\<^sup>* s s' \<Longrightarrow> lost_none s \<Longrightarrow> lost_none s'"
  by (induction rule: rtranclp_induct) (blast intro: lost_none_step)+

lemma on_it_split:
  "on_it k l \<Longrightarrow> \<exists>l2 l3. l = l2 @ Started k # l3 \<and> Asked k \<notin> set l2"
proof (induction l)
  case (Cons e l)
  show ?case
  proof (cases "e = Started k")
    case True then show ?thesis by (metis append_Nil list.set(1) empty_iff)
  next
    case False
    with Cons.prems have "on_it k l" "e \<noteq> Asked k" by (cases e; auto)+
    with Cons.IH obtain l2 l3 where "l = l2 @ Started k # l3" "Asked k \<notin> set l2" by blast
    then show ?thesis using \<open>e \<noteq> Asked k\<close> by (intro exI [of _ "e # l2"] exI [of _ l3]) simp
  qed
qed simp

lemma settled_split:
  "settled k l \<Longrightarrow> Asked k \<in> set l \<Longrightarrow>
   \<exists>l1 l2 l3. l = l1 @ Finished k True # l2 @ Started k # l3 \<and>
     Asked k \<notin> set (l1 @ l2) \<and> Finished k False \<notin> set l1"
proof (induction l)
  case (Cons e l)
  show ?case
  proof (cases "\<exists>b. e = Finished k b")
    case True
    with Cons.prems have "e = Finished k True" "on_it k l" by auto
    moreover obtain l2 l3 where "l = l2 @ Started k # l3" "Asked k \<notin> set l2"
      using on_it_split \<open>on_it k l\<close> by blast
    ultimately show ?thesis by (intro exI [of _ "[]"] exI [of _ l2] exI [of _ l3]) simp
  next
    case False
    with Cons.prems have s: "settled k l" "e \<noteq> Asked k" by (cases e; auto)+
    with Cons.prems(2) have "Asked k \<in> set l" by auto
    with Cons.IH s(1) obtain l1 l2 l3 where "l = l1 @ Finished k True # l2 @ Started k # l3"
      "Asked k \<notin> set (l1 @ l2)" "Finished k False \<notin> set l1" by blast
    then show ?thesis using False s(2)
      by (intro exI [of _ "e # l1"] exI [of _ l2] exI [of _ l3]) auto
  qed
qed simp

text \<open>C12: No key is lost. However events, several workers, delayed retries and changes of the cluster
  interleave, once the queue has come to rest (nothing queued, processed or waiting for a retry), every key
  that was ever asked for was synced without error by a worker that took it after it was last asked for,
  and no later sync of it failed.\<close>

theorem no_key_lost:
  assumes "(worker_step sync)\<^sup>*\<^sup>* (rl_New, w0, []) (q, w, l)"
    and "rl_Get q = None" and "rl_waiting q = []" and "q_processing (rl_queue q) = {}"
    and "Asked k \<in> set l"
  shows "\<exists>l1 l2 l3. l = l1 @ Finished k True # l2 @ Started k # l3 \<and>
    Asked k \<notin> set (l1 @ l2) \<and> Finished k False \<notin> set l1"
proof -
  have i: "lost_none (q, w, l)" by (rule lost_none_run [OF assms(1) lost_none_start])
  then have "q_dirty (rl_queue q) = {}"
    using assms(2,4) wq.get_blocks [of "rl_queue q"] by (simp add: lost_none_def rl_Get_def)
  then have "settled k l" using i assms(3,4) by (simp add: lost_none_def)
  then show ?thesis using assms(5) by (rule settled_split)
qed

text \<open>A worker that takes and finishes an item at once makes two steps of the interleaved system.\<close>

lemma processNextWorkItem_steps:
  assumes "processNextWorkItem sync (q, w) = Some (q', w')" "\<not> q_shuttingDown (rl_queue q)"
  shows "\<exists>l'. (worker_step sync)\<^sup>*\<^sup>* (q, w, l) (q', w', l')"
proof -
  obtain k iq where g: "wq_Get (rl_queue q) = Some (Some k, iq)" "k \<in> q_processing iq"
    using assms by (auto simp: processNextWorkItem_def rl_Get_def wq_Get_def split: list.splits)
  then have r: "rl_Get q = Some (Some k, q\<lparr>rl_queue := iq\<rparr>)" by (simp add: rl_Get_def)
  then have "finish_item sync k (q\<lparr>rl_queue := iq\<rparr>, w) = (q', w')"
    using assms(1) by (simp add: processNextWorkItem_def)
  moreover have "k \<in> q_processing (rl_queue (q\<lparr>rl_queue := iq\<rparr>))" using g(2) by simp
  ultimately have "worker_step sync (q\<lparr>rl_queue := iq\<rparr>, w, Started k # l)
      (q', w', Finished k (fst (sync w k) = None) # Started k # l)"
    by (blast intro: worker_step.finished)
  with worker_step.started [OF r, of sync w l] have "(worker_step sync)\<^sup>*\<^sup>* (q, w, l)
      (q', w', Finished k (fst (sync w k) = None) # Started k # l)"
    by (rule converse_rtranclp_into_rtranclp [OF _ r_into_rtranclp])
  then show ?thesis by blast
qed

section \<open>Controllers at rest\<close>

text \<open>
  A controller with its surroundings: the queue, everything outside it, the results of syncs that have run but
  are not yet concluded, and, for the specification, what the last successful sync of each key ran on. An event
  changes the surroundings and enqueues keys. Several workers run; a sync reads and writes in one step, and
  events may happen between the steps of a worker.
\<close>

type_synonym ('w, 'e) run = "rl_queue \<times> 'w \<times> (string \<rightharpoonup> 'e option) \<times> (string \<rightharpoonup> 'w)"

inductive run_step :: "('w \<Rightarrow> string \<Rightarrow> 'e option \<times> 'w) \<Rightarrow> ('w \<Rightarrow> string list \<Rightarrow> 'w \<Rightarrow> bool) \<Rightarrow>
    ('w, 'e) run \<Rightarrow> ('w, 'e) run \<Rightarrow> bool"
  for sync :: "'w \<Rightarrow> string \<Rightarrow> 'e option \<times> 'w" and env :: "'w \<Rightarrow> string list \<Rightarrow> 'w \<Rightarrow> bool" where
  event: "env w keys w' \<Longrightarrow>
    run_step sync env (q, w, res, seen) (q\<lparr>rl_queue := enqueueKeys keys (rl_queue q)\<rparr>, w', res, seen)"
| started: "rl_Get q = Some (Some k, q') \<Longrightarrow> run_step sync env (q, w, res, seen) (q', w, res(k := None), seen)"
| synced: "k \<in> q_processing (rl_queue q) \<Longrightarrow> res k = None \<Longrightarrow> sync w k = (err, w') \<Longrightarrow>
    run_step sync env (q, w, res, seen) (q, w', res(k \<mapsto> err), if err = None then seen(k \<mapsto> w) else seen)"
| concluded: "k \<in> q_processing (rl_queue q) \<Longrightarrow> res k = Some err \<Longrightarrow>
    run_step sync env (q, w, res, seen) (conclude_item k err q, w, res(k := None), seen)"
| fires: "rl_waiting q = xs @ k # ys \<Longrightarrow>
    run_step sync env (q, w, res, seen) (q\<lparr>rl_waiting := xs @ ys, rl_queue := wq_Add k (rl_queue q)\<rparr>, w, res, seen)"

definition run_start :: "'w \<Rightarrow> ('w, 'e) run" where
  "run_start w = (rl_New, w, Map.empty, Map.empty)"

definition at_rest :: "rl_queue \<Rightarrow> bool" where
  "at_rest q \<longleftrightarrow> rl_Get q = None \<and> rl_waiting q = [] \<and> q_processing (rl_queue q) = {}"

definition queue_ok :: "rl_queue \<Rightarrow> bool" where
  "queue_ok q \<longleftrightarrow> wq_inv (rl_queue q) \<and> \<not> q_shuttingDown (rl_queue q) \<and> finite (q_processing (rl_queue q))"

text \<open>A key that will be synced again: it is dirty or waiting, or a worker has it and the sync has not succeeded.\<close>

definition to_sync :: "rl_queue \<Rightarrow> (string \<rightharpoonup> 'e option) \<Rightarrow> string \<Rightarrow> bool" where
  "to_sync q res k \<longleftrightarrow> k \<in> q_dirty (rl_queue q) \<or> k \<in> set (rl_waiting q) \<or>
     k \<in> q_processing (rl_queue q) \<and> res k \<noteq> Some None"

text \<open>What each step does to the queue, in terms of its sets.\<close>

lemma event_queue:
  assumes "queue_ok q" "q' = q\<lparr>rl_queue := enqueueKeys keys (rl_queue q)\<rparr>"
  shows "queue_ok q'" "q_dirty (rl_queue q') = q_dirty (rl_queue q) \<union> set keys"
    "q_processing (rl_queue q') = q_processing (rl_queue q)" "rl_waiting q' = rl_waiting q"
  using assms enqueueKeys_queue [of "rl_queue q" keys] by (simp_all add: queue_ok_def)

lemma started_queue:
  assumes "queue_ok q" "rl_Get q = Some (Some k, q')"
  shows "queue_ok q'" "k \<in> q_dirty (rl_queue q)" "k \<notin> q_processing (rl_queue q)"
    "q_dirty (rl_queue q') = q_dirty (rl_queue q) - {k}"
    "q_processing (rl_queue q') = insert k (q_processing (rl_queue q))" "rl_waiting q' = rl_waiting q"
proof -
  obtain iq where iq: "wq_Get (rl_queue q) = Some (Some k, iq)" "q' = q\<lparr>rl_queue := iq\<rparr>"
    using assms(2) by (auto simp: rl_Get_def)
  have inv: "wq_inv (rl_queue q)" using assms(1) by (simp add: queue_ok_def)
  from wq.get_inv [OF inv iq(1)] wq.get_key [OF inv iq(1)] assms(1) iq(2)
  show "queue_ok q'" "k \<in> q_dirty (rl_queue q)" "k \<notin> q_processing (rl_queue q)"
    "q_dirty (rl_queue q') = q_dirty (rl_queue q) - {k}"
    "q_processing (rl_queue q') = insert k (q_processing (rl_queue q))" "rl_waiting q' = rl_waiting q"
    by (simp_all add: queue_ok_def)
qed

lemma concluded_queue:
  assumes "queue_ok q" "k \<in> q_processing (rl_queue q)" "q' = conclude_item k err q"
  shows "queue_ok q'" "q_dirty (rl_queue q') = q_dirty (rl_queue q)"
    "q_processing (rl_queue q') = q_processing (rl_queue q) - {k}"
    "rl_waiting q' = rl_waiting q @ (if err = None then [] else [k])"
  using assms by (simp_all add: queue_ok_def conclude_item_queue wq.done_inv wq.done_dirty wq.done_processing wq.done_closed)

lemma fires_queue:
  assumes "queue_ok q" "rl_waiting q = xs @ k # ys" "q' = q\<lparr>rl_waiting := xs @ ys, rl_queue := wq_Add k (rl_queue q)\<rparr>"
  shows "queue_ok q'" "q_dirty (rl_queue q') = insert k (q_dirty (rl_queue q))"
    "q_processing (rl_queue q') = q_processing (rl_queue q)" "rl_waiting q' = xs @ ys"
  using assms by (simp_all add: queue_ok_def wq.add_inv wq.add_dirty wq.add_processing wq.add_closed)

lemma at_rest_none: "queue_ok q \<Longrightarrow> at_rest q \<Longrightarrow> \<not> to_sync q res k"
  using wq.get_blocks [of "rl_queue q"] by (auto simp: queue_ok_def at_rest_def to_sync_def rl_Get_def)

lemma rl_New_ok: "queue_ok rl_New"
  by (simp add: queue_ok_def rl_New_def wq_New_def wq_inv_def)

subsection \<open>What is in order when a controller is at rest\<close>

text \<open>
  What a controller promises: its events and its syncs keep its surroundings acceptable; an event enqueues every
  wanted key whose view it changes, or that becomes wanted by it; and a sync changes neither what is wanted nor
  a view (it writes to the API server, and the change comes back as an event).
\<close>

locale reconciler =
  fixes sync :: "'w \<Rightarrow> string \<Rightarrow> 'e option \<times> 'w"
    and env :: "'w \<Rightarrow> string list \<Rightarrow> 'w \<Rightarrow> bool"
    and ok :: "'w \<Rightarrow> bool"
    and wanted :: "'w \<Rightarrow> string \<Rightarrow> bool"
    and view :: "'w \<Rightarrow> string \<Rightarrow> 'v"
  assumes env_ok: "ok w \<Longrightarrow> env w keys w' \<Longrightarrow> ok w'"
    and sync_ok: "ok w \<Longrightarrow> ok (snd (sync w j))"
    and env_covers: "ok w \<Longrightarrow> env w keys w' \<Longrightarrow> wanted w' k \<Longrightarrow> k \<notin> set keys \<Longrightarrow>
      wanted w k \<and> view w' k = view w k"
    and sync_wanted: "ok w \<Longrightarrow> wanted (snd (sync w j)) k \<longleftrightarrow> wanted w k"
    and sync_view: "ok w \<Longrightarrow> view (snd (sync w j)) k = view w k"
begin

definition in_order :: "'w \<Rightarrow> (string \<rightharpoonup> 'w) \<Rightarrow> string \<Rightarrow> bool" where
  "in_order w seen k \<longleftrightarrow> (\<exists>w1. seen k = Some w1 \<and> ok w1 \<and> fst (sync w1 k) = None \<and> wanted w1 k \<and> view w1 k = view w k)"

definition run_inv :: "('w, 'e) run \<Rightarrow> bool" where
  "run_inv s \<longleftrightarrow> (case s of (q, w, res, seen) \<Rightarrow>
     queue_ok q \<and> ok w \<and> (\<forall>k. wanted w k \<longrightarrow> to_sync q res k \<or> in_order w seen k))"

lemma run_inv_event:
  assumes "run_inv (q, w, res, seen)" "env w keys w'"
  shows "run_inv (q\<lparr>rl_queue := enqueueKeys keys (rl_queue q)\<rparr>, w', res, seen)"
proof -
  let ?q = "q\<lparr>rl_queue := enqueueKeys keys (rl_queue q)\<rparr>"
  have inv: "queue_ok q" "ok w" "wanted w k \<Longrightarrow> to_sync q res k \<or> in_order w seen k" for k
    using assms(1) by (auto simp: run_inv_def)
  have "to_sync ?q res k \<or> in_order w' seen k" if "wanted w' k" for k
  proof (cases "k \<in> set keys")
    case True
    then show ?thesis by (simp only: to_sync_def event_queue [OF inv(1) refl]) blast
  next
    case False
    from env_covers [OF inv(2) assms(2) that False] inv(3) [of k] show ?thesis
      by (simp only: to_sync_def in_order_def event_queue [OF inv(1) refl]) blast
  qed
  then show ?thesis using event_queue(1) [OF inv(1) refl] env_ok [OF inv(2) assms(2)] by (simp add: run_inv_def)
qed

lemma run_inv_synced:
  assumes "run_inv (q, w, res, seen)" "sync w k = (err, w')"
  shows "run_inv (q, w', res(k \<mapsto> err), if err = None then seen(k \<mapsto> w) else seen)"
proof -
  have inv: "queue_ok q" "ok w" "wanted w j \<Longrightarrow> to_sync q res j \<or> in_order w seen j" for j
    using assms(1) by (auto simp: run_inv_def)
  have w': "ok w'" "wanted w' j = wanted w j" "view w' j = view w j" for j
    using sync_ok [OF inv(2), of k] sync_wanted [OF inv(2), of k] sync_view [OF inv(2), of k] assms(2) by simp_all
  have "to_sync q (res(k \<mapsto> err)) j \<or> in_order w' (if err = None then seen(k \<mapsto> w) else seen) j" if "wanted w j" for j
    using inv(3) [OF that] that inv(2) assms(2) by (auto simp: to_sync_def in_order_def w')
  then show ?thesis using inv(1) w' by (simp add: run_inv_def)
qed

lemma run_inv_step: "run_step sync env s s' \<Longrightarrow> run_inv s \<Longrightarrow> run_inv s'"
proof (induction rule: run_step.induct)
  case (started q k q' w res seen)
  then have "queue_ok q" by (simp add: run_inv_def)
  from started_queue [OF this started(1)] started(2) show ?case by (auto simp: run_inv_def to_sync_def)
next
  case (concluded k q res err w seen)
  then have "queue_ok q" by (simp add: run_inv_def)
  from concluded_queue [OF this concluded(1) refl, of err] concluded(2,3) show ?case
    by (auto simp: run_inv_def to_sync_def)
next
  case (fires q xs k ys w res seen)
  then have "queue_ok q" by (simp add: run_inv_def)
  from fires_queue [OF this fires(1) refl] fires(1,2) show ?case by (auto simp: run_inv_def to_sync_def)
qed (blast intro: run_inv_event run_inv_synced)+

lemma run_inv_start: "ok w \<Longrightarrow> \<forall>k. \<not> wanted w k \<Longrightarrow> run_inv (run_start w)"
  by (simp add: run_inv_def run_start_def rl_New_ok)

lemma run_inv_reachable: "(run_step sync env)\<^sup>*\<^sup>* s s' \<Longrightarrow> run_inv s \<Longrightarrow> run_inv s'"
  by (induction rule: rtranclp_induct) (blast intro: run_inv_step)+

text \<open>At rest, every wanted key was last synced without an error, on what its view is now.\<close>

lemma rest_in_order:
  assumes "ok w0" "\<forall>k. \<not> wanted w0 k" "(run_step sync env)\<^sup>*\<^sup>* (run_start w0) (q, w, res, seen)"
    and "at_rest q" "wanted w k"
  obtains w1 where "seen k = Some w1" "ok w1" "fst (sync w1 k) = None" "wanted w1 k" "view w1 k = view w k"
proof -
  have "run_inv (q, w, res, seen)" by (rule run_inv_reachable [OF assms(3) run_inv_start [OF assms(1,2)]])
  then have "queue_ok q" "to_sync q res k \<or> in_order w seen k" using assms(5) by (auto simp: run_inv_def)
  then show thesis using at_rest_none [OF _ assms(4)] that unfolding in_order_def by blast
qed

end

subsection \<open>Coming to rest\<close>

text \<open>The work a state still has, when events have stopped and syncs succeed.\<close>

fun item_load :: "'e option option \<Rightarrow> nat" where
  "item_load None = 2"
| "item_load (Some None) = 1"
| "item_load (Some (Some _)) = 5"

definition load :: "('w, 'e) run \<Rightarrow> nat" where
  "load s = (case s of (q, w, res, seen) \<Rightarrow>
     4 * length (rl_waiting q) + 3 * card (q_dirty (rl_queue q)) + (\<Sum>k \<in> q_processing (rl_queue q). item_load (res k)))"

abbreviation no_event :: "'w \<Rightarrow> string list \<Rightarrow> 'w \<Rightarrow> bool" where
  "no_event \<equiv> \<lambda>w keys w'. False"

lemma queue_ok_step: "run_step sync env s s' \<Longrightarrow> queue_ok (fst s) \<Longrightarrow> queue_ok (fst s')"
proof (induction rule: run_step.induct)
  case event then show ?case using event_queue(1) by simp
next
  case started then show ?case using started_queue(1) by simp
next
  case (concluded k q res err w seen) then show ?case using concluded_queue(1) [OF _ concluded(1) refl] by simp
next
  case (fires q xs k ys w res seen) then show ?case using fires_queue(1) [OF _ fires(1) refl] by simp
qed simp

lemma queue_ok_reachable: "(run_step sync env)\<^sup>*\<^sup>* s s' \<Longrightarrow> queue_ok (fst s) \<Longrightarrow> queue_ok (fst s')"
  by (induction rule: rtranclp_induct) (blast intro: queue_ok_step)+

lemma finite_dirty: "queue_ok q \<Longrightarrow> finite (q_dirty (rl_queue q))"
  unfolding queue_ok_def wq_inv_def by (metis List.finite_set finite_Diff2)

lemma item_load_upd:
  "finite A \<Longrightarrow> k \<in> A \<Longrightarrow> (\<Sum>j \<in> A. item_load ((res(k := r)) j)) + item_load (res k) = (\<Sum>j \<in> A. item_load (res j)) + item_load r"
  by (simp add: sum.remove [of A k])

definition pending_keys :: "rl_queue \<Rightarrow> string set" where
  "pending_keys q = q_dirty (rl_queue q) \<union> set (rl_waiting q) \<union> q_processing (rl_queue q)"

lemma pending_step:
  assumes "run_step sync no_event s s'" "queue_ok (fst s)"
  shows "pending_keys (fst s') \<subseteq> pending_keys (fst s)"
  using assms
proof (induction rule: run_step.induct)
  case (started q k q' w res seen)
  then show ?case using started_queue [OF _ started(1)] by (auto simp: pending_keys_def)
next
  case (concluded k q res err w seen)
  then show ?case using concluded_queue [OF _ concluded(1) refl, of err] by (auto simp: pending_keys_def)
next
  case (fires q xs k ys w res seen)
  then show ?case using fires_queue [OF _ fires(1) refl] by (auto simp: pending_keys_def)
qed simp_all

lemma load_step:
  assumes "run_step sync no_event s s'" and "queue_ok (fst s)" and "P (fst (snd s))"
    and "pending_keys (fst s) \<subseteq> K"
    and "\<And>w k. P w \<Longrightarrow> k \<in> K \<Longrightarrow> fst (sync w k) = None \<and> P (snd (sync w k))"
  shows "load s' < load s \<and> P (fst (snd s'))"
  using assms(1-4)
proof (induction rule: run_step.induct)
  case (started q k q' w res seen)
  then have q: "queue_ok q" by simp
  note q' = started_queue [OF q started(1)]
  let ?A = "q_processing (rl_queue q)"
  have "finite ?A" using q by (simp add: queue_ok_def)
  moreover have "(\<Sum>j \<in> ?A. item_load ((res(k := None)) j)) = (\<Sum>j \<in> ?A. item_load (res j))"
    by (rule sum.cong) (use q'(3) in auto)
  ultimately have "(\<Sum>j \<in> insert k ?A. item_load ((res(k := None)) j)) = 2 + (\<Sum>j \<in> ?A. item_load (res j))"
    using sum.insert [of ?A k "\<lambda>j. item_load ((res(k := None)) j)"] q'(3) by simp
  moreover have "card (q_dirty (rl_queue q)) = Suc (card (q_dirty (rl_queue q) - {k}))"
    by (rule card.remove [OF finite_dirty [OF q] q'(2)])
  ultimately show ?case using started(3) by (simp add: load_def q'(4-6) del: fun_upd_apply)
next
  case (synced k q res w err w' seen)
  then have "err = None" "P w'" using assms(5) [of w k] by (auto simp: pending_keys_def)
  moreover have "finite (q_processing (rl_queue q))" using synced(4) by (simp add: queue_ok_def)
  ultimately show ?case using synced(2) item_load_upd [OF _ synced(1), of res "Some None"]
    by (simp add: load_def del: fun_upd_apply)
next
  case (concluded k q res err w seen)
  then have q: "queue_ok q" by simp
  have fin: "finite (q_processing (rl_queue q))" using q by (simp add: queue_ok_def)
  have "(\<Sum>j \<in> q_processing (rl_queue q). item_load (res j)) =
      item_load (Some err) + (\<Sum>j \<in> q_processing (rl_queue q) - {k}. item_load ((res(k := None)) j))"
    using sum.remove [OF fin concluded(1), of "\<lambda>j. item_load (res j)"] concluded(2) by simp
  moreover have "4 * length (if err = None then [] else [k]) < item_load (Some err)" by (cases err) simp_all
  ultimately show ?case using concluded(4)
    by (simp add: load_def concluded_queue [OF q concluded(1) refl] del: fun_upd_apply)
next
  case (fires q xs k ys w res seen)
  then have q: "queue_ok q" by simp
  have "card (insert k (q_dirty (rl_queue q))) \<le> Suc (card (q_dirty (rl_queue q)))" by (simp add: card_insert_if finite_dirty [OF q])
  then show ?case using fires(1,3) fires_queue(2-4) [OF q fires(1) refl] by (simp add: load_def)
qed simp

lemma stuck_at_rest:
  assumes "queue_ok q" "\<nexists>s'. run_step sync env (q, w, res, seen) s'"
  shows "at_rest q"
proof -
  have "rl_waiting q = []"
  proof (rule ccontr)
    assume "rl_waiting q \<noteq> []"
    then obtain k ys where "rl_waiting q = [] @ k # ys" by (cases "rl_waiting q") auto
    from run_step.fires [OF this, of sync env w res seen] assms(2) show False by blast
  qed
  moreover have "q_processing (rl_queue q) = {}"
  proof (rule ccontr)
    assume "q_processing (rl_queue q) \<noteq> {}"
    then obtain k where k: "k \<in> q_processing (rl_queue q)" by blast
    obtain err w' where "sync w k = (err, w')" by fastforce
    with k assms(2) show False by (cases "res k") (blast intro: run_step.synced run_step.concluded)+
  qed
  moreover have "rl_Get q = None"
  proof (rule ccontr)
    assume "rl_Get q \<noteq> None"
    then obtain k q' where "rl_Get q = Some (Some k, q')"
      using assms(1) by (auto simp: rl_Get_def wq_Get_def queue_ok_def split: list.splits if_splits)
    with assms(2) show False by (blast intro: run_step.started)
  qed
  ultimately show ?thesis by (simp add: at_rest_def)
qed

lemma at_rest_stuck: "run_step sync no_event s s' \<Longrightarrow> \<not> at_rest (fst s)"
  by (induction rule: run_step.induct) (auto simp: at_rest_def)

text \<open>C13: A controller comes to rest. From every state that events, workers and delayed retries can lead to: once
  events stop and the pending keys sync without an error, the workers make at most \<open>load\<close> further steps, whatever
  their order, and none is possible any more exactly when the queue is empty, no key waits for a retry and no worker
  holds a key.\<close>

theorem queue_comes_to_rest:
  assumes "(run_step sync env)\<^sup>*\<^sup>* (run_start init) s" and "P (fst (snd s))"
    and "\<And>w k. P w \<Longrightarrow> k \<in> pending_keys (fst s) \<Longrightarrow> fst (sync w k) = None \<and> P (snd (sync w k))"
    and "((run_step sync no_event) ^^ n) s s'"
  shows "n \<le> load s \<and> ((\<nexists>s''. run_step sync no_event s' s'') \<longleftrightarrow> at_rest (fst s'))"
proof -
  define K where "K = pending_keys (fst s)"
  have sync: "fst (sync w k) = None \<and> P (snd (sync w k))" if "P w" "k \<in> K" for w k
    using assms(3) that unfolding K_def .
  have "queue_ok (fst s)" using queue_ok_reachable [OF assms(1)] by (simp add: run_start_def rl_New_ok)
  moreover have "pending_keys (fst s) \<subseteq> K" by (simp add: K_def)
  ultimately have "n + load s' \<le> load s \<and> queue_ok (fst s')" using assms(4,2)
  proof (induction n arbitrary: s)
    case (Suc n)
    from Suc.prems(3) obtain s1 where s1: "run_step sync no_event s s1" "((run_step sync no_event) ^^ n) s1 s'"
      by (rule relpowp_Suc_E2)
    note l = load_step [where P = P and K = K, OF s1(1) Suc.prems(1,4,2) sync]
    have "n + load s' \<le> load s1 \<and> queue_ok (fst s')"
      by (rule Suc.IH [OF queue_ok_step [OF s1(1) Suc.prems(1)] _ s1(2)])
        (use l pending_step [OF s1(1) Suc.prems(1)] Suc.prems(2) in auto)
    then show ?case using l by linarith
  qed simp
  moreover from this have "at_rest (fst s')" if "\<nexists>s''. run_step sync no_event s' s''"
    using stuck_at_rest that by (cases s') fastforce
  ultimately show ?thesis using at_rest_stuck by fastforce
qed

subsection \<open>Small runs\<close>

lemma run_no_keys: "env w [] w' \<Longrightarrow> run_step sync env (q, w, res, seen) (q, w', res, seen)"
  using run_step.event [of env w "[]" w' sync q res seen] by (simp add: enqueueKeys_def)

text \<open>One key from its event to the conclusion of its sync, on an empty queue; the queue is empty again.\<close>

lemma run_one_key:
  fixes sync :: "'a \<Rightarrow> string \<Rightarrow> 'b option \<times> 'a"
  assumes "env w [k] w'" "sync w' k = (None, w'')"
  shows "(run_step sync env)\<^sup>*\<^sup>* (rl_New, w, Map.empty, Map.empty) (rl_New, w'', Map.empty, [k \<mapsto> w'])"
proof -
  let ?q1 = "rl_New\<lparr>rl_queue := enqueueKeys [k] (rl_queue rl_New)\<rparr>"
  let ?q2 = "rl_New\<lparr>rl_queue := \<lparr>q_queue = [], q_dirty = {}, q_processing = {k}, q_shuttingDown = False\<rparr>\<rparr>"
  let ?R = "run_step sync env" and ?e = "Map.empty :: string \<rightharpoonup> 'b option"
  have "?R (rl_New, w, ?e, Map.empty) (?q1, w', ?e, Map.empty)" by (rule run_step.event) (rule assms(1))
  moreover have "?R (?q1, w', ?e, Map.empty) (?q2, w', ?e(k := None), Map.empty)"
    by (rule run_step.started) (simp add: rl_Get_def wq_Get_def rl_New_def wq_New_def enqueueKeys_def wq_Add_def)
  moreover have "?R (?q2, w', ?e, Map.empty) (?q2, w'', [k \<mapsto> None], [k \<mapsto> w'])"
    using run_step.synced [of k ?q2 ?e sync w' None w'' env Map.empty] assms(2) by simp
  moreover have "?R (?q2, w'', [k \<mapsto> None], [k \<mapsto> w']) (conclude_item k (None :: 'b option) ?q2, w'', [k \<mapsto> None](k := None), [k \<mapsto> w'])"
    by (rule run_step.concluded) simp_all
  moreover have "conclude_item k (None :: 'b option) ?q2 = rl_New"
    by (simp add: conclude_item_def rl_Done_def Forget_def wq_Done_def rl_New_def wq_New_def fun_upd_def)
  ultimately show ?thesis by (simp add: fun_upd_idem)
qed

lemma at_rest_New: "at_rest rl_New"
  by (simp add: at_rest_def rl_New_def rl_Get_def wq_Get_def wq_New_def)

section \<open>Shutdown\<close>

text \<open>
  A worker that quits on the shutdown signal, as the privileged-namespaces syncer has it; the factory's worker
  differs in that it looks at a context instead of the signal.
\<close>

definition rl_ShutDown :: "rl_queue \<Rightarrow> rl_queue" where
  "rl_ShutDown q = q\<lparr>rl_queue := wq_ShutDown (rl_queue q)\<rparr>"

definition rl_workerFunc :: "('w \<Rightarrow> string \<Rightarrow> 'e option \<times> 'w) \<Rightarrow> rl_queue \<times> 'w \<Rightarrow> (bool \<times> rl_queue \<times> 'w) option" where
  "rl_workerFunc sync s =
     (case rl_Get (fst s) of
        None \<Rightarrow> None
      | Some (None, q) \<Rightarrow> Some (True, q, snd s)
      | Some (Some key, q) \<Rightarrow> Some (False, finish_item sync key (q, snd s)))"

lemma rl_workerFunc_shut:
  assumes "wq_inv (rl_queue q)" "q_shuttingDown (rl_queue q)" "q_queue (rl_queue q) = k # ks"
  shows "\<exists>q'. rl_workerFunc sync (q, w) = Some (False, q', snd (sync w k)) \<and> rl_waiting q' = rl_waiting q \<and>
    rl_queue q' = (rl_queue q)\<lparr>q_queue := ks, q_dirty := q_dirty (rl_queue q) - {k}\<rparr>"
  using wq_shut_item(1,2) [OF assms] assms(2)
  by (auto simp: rl_workerFunc_def rl_Get_def finish_item_def conclude_item_queue split: prod.splits)

text \<open>After a shutdown the loop returns. It has synced every key of the queue once, in order, and the queue is
  empty; keys that other workers hold and keys that wait for a retry are not touched.\<close>

lemma worker_loop_shut:
  fixes sync :: "'a \<Rightarrow> string \<Rightarrow> 'e option \<times> 'a"
  assumes "wq_inv (rl_queue q)"
  shows "\<exists>q'. worker_loop (rl_workerFunc sync) (rl_ShutDown q, w) =
      Some (q', fold (\<lambda>k w. snd (sync w k)) (q_queue (rl_queue q)) w) \<and>
    q_queue (rl_queue q') = [] \<and> q_shuttingDown (rl_queue q') \<and>
    q_processing (rl_queue q') = q_processing (rl_queue q) \<and> rl_waiting q' = rl_waiting q"
proof -
  let ?inv = "\<lambda>(q' :: rl_queue, w :: 'a). wq_inv (rl_queue q') \<and> q_shuttingDown (rl_queue q') \<and>
    q_processing (rl_queue q') = q_processing (rl_queue q) \<and> rl_waiting q' = rl_waiting q"
  let ?todo = "\<lambda>(q' :: rl_queue, w :: 'a). q_queue (rl_queue q')"
  have "\<exists>s'. worker_loop (rl_workerFunc sync) (rl_ShutDown q, w) = Some s' \<and> ?inv s' \<and> ?todo s' = [] \<and>
      snd s' = fold (\<lambda>k w. snd (sync w k)) (?todo (rl_ShutDown q, w)) (snd (rl_ShutDown q, w))"
  proof (rule worker_loop_uses_up)
    fix s assume "?inv s" "?todo s = []"
    then show "rl_workerFunc sync s = Some (True, s)"
      by (cases s) (simp add: rl_workerFunc_def rl_Get_def wq_shut_empty)
  next
    fix s k ks assume s: "?inv s" "?todo s = k # ks"
    obtain q1 w1 where q1: "s = (q1, w1)" by (cases s)
    from s obtain q' where "rl_workerFunc sync s = Some (False, q', snd (sync w1 k))" "rl_waiting q' = rl_waiting q1"
      "rl_queue q' = (rl_queue q1)\<lparr>q_queue := ks, q_dirty := q_dirty (rl_queue q1) - {k}\<rparr>"
      using rl_workerFunc_shut [of q1 k ks sync w1] by (auto simp: q1)
    with s wq_shut_item(3) [of "rl_queue q1" k ks]
    show "\<exists>s'. rl_workerFunc sync s = Some (False, s') \<and> ?inv s' \<and> ?todo s' = ks \<and> snd s' = snd (sync (snd s) k)"
      by (simp add: q1)
  qed (use assms in \<open>simp add: rl_ShutDown_def wq_ShutDown_def wq_inv_def\<close>)
  then show ?thesis by (auto simp: rl_ShutDown_def)
qed

end
