(* ===== verification/Controller_Events.thy ===== *)
theory Controller_Events
  imports Psa_Label_Sync Worker
begin

text \<open>
  From an informer event to keys in the work queue: the event handlers of library-go's controller factory
  (\<open>vendor/.../controller/factory\<close>) and of client-go, and the handlers that the pod security controller
  registers with them (\<open>src/pkg/psalabelsyncer/podsecurity_label_sync_controller.go\<close>). The lemmas show which
  events enqueue which namespaces. What happens to the keys afterwards is in theory \<open>Worker\<close>.
\<close>

section \<open>Event handlers\<close>

datatype informer_event = OnAdd object | OnUpdate object object | OnDelete object

text \<open>What is a \<open>runtime.Object\<close>: the objects of the API, but neither a tombstone nor a \<open>roleObj\<close>.\<close>

fun is_runtime :: "object \<Rightarrow> bool" where
  "is_runtime (Tombstone _) = False"
| "is_runtime (RoleObjO _) = False"
| "is_runtime OtherO = False"
| "is_runtime _ = True"

text \<open>
  \<open>syncContext.eventHandler\<close>: the keys an event enqueues. \<open>None\<close> is the panic of the type assertion on
  the object in a tombstone.
\<close>

fun handler_keys :: "(object \<Rightarrow> string list) \<Rightarrow> informer_event \<Rightarrow> string list option" where
  "handler_keys queueKeysFunc (OnAdd obj) = Some (if is_runtime obj then queueKeysFunc obj else [])"
| "handler_keys queueKeysFunc (OnUpdate old new) = Some (if is_runtime new then queueKeysFunc new else [])"
| "handler_keys queueKeysFunc (OnDelete obj) =
     (if is_runtime obj then Some (queueKeysFunc obj)
      else case obj of
             Tombstone obj' \<Rightarrow> if is_runtime obj' then Some (queueKeysFunc obj') else None
           | _ \<Rightarrow> Some [])"

text \<open>\<open>cache.FilteringResourceEventHandler\<close>: an update over the border of the filter is an addition or a deletion.\<close>

fun filter_event :: "(object \<Rightarrow> bool) \<Rightarrow> informer_event \<Rightarrow> informer_event option" where
  "filter_event f (OnAdd obj) = (if f obj then Some (OnAdd obj) else None)"
| "filter_event f (OnUpdate old new) =
     (if f new \<and> f old then Some (OnUpdate old new)
      else if f new then Some (OnAdd new)
      else if f old then Some (OnDelete old)
      else None)"
| "filter_event f (OnDelete obj) = (if f obj then Some (OnDelete obj) else None)"

definition eventHandler :: "(object \<Rightarrow> string list) \<Rightarrow> (object \<Rightarrow> bool) option \<Rightarrow> informer_event \<Rightarrow> string list option" where
  "eventHandler queueKeysFunc flt e =
     (case flt of
        None \<Rightarrow> handler_keys queueKeysFunc e
      | Some f \<Rightarrow> (case filter_event f e of None \<Rightarrow> Some [] | Some e' \<Rightarrow> handler_keys queueKeysFunc e'))"

section \<open>The handlers of the pod security controller\<close>

text \<open>
  The name in the metadata of an object. It is only asked for on the informer of namespaces; the model of a
  binding keeps no name.
\<close>

fun object_name :: "object \<Rightarrow> string option" where
  "object_name (NamespaceO ns) = Some (ns_Name ns)"
| "object_name (ServiceAccountO ns name) = Some name"
| "object_name (RoleO r) = Some (ro_Name r)"
| "object_name (ClusterRoleO r) = Some (ro_Name r)"
| "object_name (RoleObjO r) = Some (role_Name r)"
| "object_name (SccO s) = Some (scc_Name s)"
| "object_name _ = None"

definition nameToKey :: "object \<Rightarrow> string list" where
  "nameToKey obj = (case object_name obj of None \<Rightarrow> [] | Some name \<Rightarrow> [name])"

definition namespace_filter :: "(string \<Rightarrow> extractedNamespaces \<Rightarrow> extractedNamespaces) \<Rightarrow> object \<Rightarrow> bool" where
  "namespace_filter ord obj = (case obj of NamespaceO ns \<Rightarrow> isNSControlled ord ns | _ \<Rightarrow> False)"

text \<open>The listers of the controller at the time of an event.\<close>

record psa_view =
  vw_ord :: "string \<Rightarrow> extractedNamespaces \<Rightarrow> extractedNamespaces"
  vw_nsGet :: "string \<Rightarrow> api_error + namespace"
  vw_nsList :: "api_error + namespace list"
  vw_listers :: listers
  vw_cache :: saToSCCCache

definition queueKeysRuntimeForObj :: "psa_view \<Rightarrow> object \<Rightarrow> string list" where
  "queueKeysRuntimeForObj v obj = queueKeysForObj (vw_ord v) (vw_nsGet v) (vw_nsList v) obj"

datatype informer = Bindings | Namespaces | ServiceAccounts

text \<open>Which handler \<open>newPodSecurityAdmissionLabelSynchronizationController\<close> puts on which informer.\<close>

definition psa_handler :: "psa_view \<Rightarrow> informer \<Rightarrow> informer_event \<Rightarrow> string list option" where
  "psa_handler v i =
     (case i of
        Bindings \<Rightarrow> eventHandler (queueKeysRuntimeForObj v) (Some (IsRoleBindingRelevant (vw_listers v) (vw_cache v)))
      | Namespaces \<Rightarrow> eventHandler nameToKey (Some (namespace_filter (vw_ord v)))
      | ServiceAccounts \<Rightarrow> eventHandler (queueKeysRuntimeForObj v) None)"

section \<open>Which namespaces an event enqueues\<close>

text \<open>The namespaces an object of the namespace \<open>at\<close> concerns: that one, or all when it has none.\<close>

definition concerned :: "(string \<Rightarrow> extractedNamespaces \<Rightarrow> extractedNamespaces) \<Rightarrow> namespace list \<Rightarrow> string \<Rightarrow> string set" where
  "concerned ord nss at = {ns_Name n | n. n \<in> set nss \<and> isNSControlled ord n \<and> (at = [] \<or> at = ns_Name n)}"

definition get_of :: "namespace list \<Rightarrow> string \<Rightarrow> api_error + namespace" where
  "get_of nss name = (case find (\<lambda>n. ns_Name n = name) nss of None \<Rightarrow> Inl NotFound | Some n \<Rightarrow> Inr n)"

lemma find_name:
  "distinct (map ns_Name nss) \<Longrightarrow> find (\<lambda>n. ns_Name n = name) nss = Some n \<longleftrightarrow> n \<in> set nss \<and> ns_Name n = name"
  by (induction nss) auto

lemma queueKeys_concerned:
  assumes "distinct (map ns_Name nss)" "object_namespace obj = Some at"
  shows "set (queueKeysForObj ord (get_of nss) (Inr nss) obj) = concerned ord nss at"
proof (cases "at = []")
  case True
  then show ?thesis using assms(2) by (auto simp: queueKeysForObj_def c_isNSControlled_def watched_controlled concerned_def)
next
  case False
  show ?thesis
  proof (cases "find (\<lambda>n. ns_Name n = at) nss")
    case None
    then have "concerned ord nss at = {}" using False by (auto simp: concerned_def find_None_iff)
    then show ?thesis using assms(2) False None by (simp add: queueKeysForObj_def c_isNSControlled_def get_of_def)
  next
    case (Some n)
    then have n: "n \<in> set nss" "ns_Name n = at" using find_name [OF assms(1)] by blast+
    then have "m = n" if "m \<in> set nss" "ns_Name m = at" for m
      using that assms(1) by (metis distinct_map inj_on_eq_iff)
    then have "x \<in> concerned ord nss at \<longleftrightarrow> isNSControlled ord n \<and> x = at" for x
      using n False unfolding concerned_def mem_Collect_eq by metis
    then have "concerned ord nss at = (if isNSControlled ord n then {at} else {})" by auto
    then show ?thesis using assms(2) False Some by (simp add: queueKeysForObj_def c_isNSControlled_def get_of_def)
  qed
qed

lemma relevant_binding:
  "IsRoleBindingRelevant li c obj \<Longrightarrow> is_runtime obj \<and> object_namespace obj \<noteq> None"
  by (cases obj) (auto simp: IsRoleBindingRelevant_def newRoleBindingObj_def)

lemma binding_event_keys:
  assumes "IsRoleBindingRelevant (vw_listers v) (vw_cache v) obj"
    and "e \<in> {OnAdd obj, OnDelete obj, OnUpdate obj other, OnUpdate other obj}"
    and "is_runtime other" and "object_namespace other = object_namespace obj"
    and "vw_nsList v = Inr nss" and "vw_nsGet v = get_of nss" and "distinct (map ns_Name nss)"
  shows "\<exists>keys. psa_handler v Bindings e = Some keys \<and> set keys = concerned (vw_ord v) nss (the (object_namespace obj))"
proof -
  let ?f = "queueKeysRuntimeForObj v"
  obtain at where at: "object_namespace obj = Some at" "is_runtime obj"
    using relevant_binding [OF assms(1)] by auto
  have "psa_handler v Bindings e = Some (?f obj) \<or> psa_handler v Bindings e = Some (?f other)"
    using assms(1,2,3) at(2) by (auto simp: psa_handler_def eventHandler_def)
  moreover have "set (?f obj) = concerned (vw_ord v) nss at" "set (?f other) = concerned (vw_ord v) nss at"
    using queueKeys_concerned [OF assms(7)] at assms(4-6) by (simp_all add: queueKeysRuntimeForObj_def)
  ultimately show ?thesis using at(1) by auto
qed

text \<open>A change of a role binding that matters reaches the namespaces it matters to. When a binding that
  refers to a role with some SCC is added, deleted, or is the old or the new side of an update, the keys
  enqueued are the controlled namespaces among the listed ones: the binding's own for a role binding, all for
  a cluster role binding. They end up in the dirty set of the work queue.\<close>

lemma binding_change_enqueued:
  assumes "IsRoleBindingRelevant (vw_listers v) (vw_cache v) obj"
    and "e \<in> {OnAdd obj, OnDelete obj, OnUpdate obj other, OnUpdate other obj}"
    and "is_runtime other" and "object_namespace other = object_namespace obj"
    and "vw_nsList v = Inr nss" and "vw_nsGet v = get_of nss" and "distinct (map ns_Name nss)"
    and "wq_inv q" and "\<not> q_shuttingDown q"
  shows "\<exists>keys. psa_handler v Bindings e = Some keys \<and>
    set keys = concerned (vw_ord v) nss (the (object_namespace obj)) \<and>
    q_dirty (enqueueKeys keys q) = q_dirty q \<union> set keys"
  using binding_event_keys [OF assms(1-7)] enqueueKeys_queue [OF assms(8,9)] by auto

text \<open>
  A deletion that the informer missed reaches the handler as a tombstone, which the filter on bindings does not
  unwrap: it enqueues nothing, although the factory's handler would enqueue the namespaces of the object in it.
\<close>

lemma tombstone_binding_ignored: "psa_handler v Bindings (OnDelete (Tombstone obj)) = Some []"
  by (simp add: psa_handler_def eventHandler_def IsRoleBindingRelevant_def newRoleBindingObj_def)

text \<open>A namespace that becomes controlled, or stops to be, is enqueued by the event that says so.\<close>

lemma namespace_event_enqueued:
  assumes "isNSControlled (vw_ord v) ns \<or> isNSControlled (vw_ord v) old" "ns_Name old = ns_Name ns"
  shows "psa_handler v Namespaces (OnUpdate (NamespaceO old) (NamespaceO ns)) = Some [ns_Name ns]"
  using assms by (auto simp: psa_handler_def eventHandler_def namespace_filter_def nameToKey_def)

section \<open>The informer of namespaces\<close>

text \<open>
  How the lister of namespaces changes with the event its informer delivers; a deletion that was missed arrives
  as a tombstone.
\<close>

inductive ns_event :: "namespace list \<Rightarrow> informer_event \<Rightarrow> namespace list \<Rightarrow> bool" where
  added: "ns_Name ns \<notin> ns_Name ` set nss \<Longrightarrow> ns_event nss (OnAdd (NamespaceO ns)) (nss @ [ns])"
| updated: "ns_Name new = ns_Name old \<Longrightarrow>
    ns_event (xs @ old # ys) (OnUpdate (NamespaceO old) (NamespaceO new)) (xs @ new # ys)"
| deleted: "ns_event (xs @ old # ys) (OnDelete (NamespaceO old)) (xs @ ys)"
| missed: "ns_event (xs @ old # ys) (OnDelete (Tombstone (NamespaceO old))) (xs @ ys)"

lemma ns_event_distinct: "ns_event nss e nss' \<Longrightarrow> distinct (map ns_Name nss) \<Longrightarrow> distinct (map ns_Name nss')"
  by (induction rule: ns_event.induct) auto

text \<open>A namespace of the new list is one of the old list, or it is the object the event carries.\<close>

definition carries :: "informer_event \<Rightarrow> namespace \<Rightarrow> bool" where
  "carries e ns \<longleftrightarrow> e = OnAdd (NamespaceO ns) \<or> (\<exists>old. e = OnUpdate (NamespaceO old) (NamespaceO ns) \<and> ns_Name old = ns_Name ns)"

lemma ns_event_members: "ns_event nss e nss' \<Longrightarrow> ns \<in> set nss' \<Longrightarrow> ns \<in> set nss \<or> carries e ns"
  by (induction rule: ns_event.induct) (auto simp: carries_def)

end
