(* ===== verification/Privileged_Namespaces.thy ===== *)
theory Privileged_Namespaces
  imports Controller_Events
begin

text \<open>
  The privileged-namespaces syncer, \<open>src/pkg/psalabelsyncer/privileged_namespaces_controller.go\<close>: its event
  handlers, its worker and \<open>Run\<close>; \<open>sync\<close> itself is in theory \<open>Psa_Label_Sync\<close>. The syncer is an instance of the
  locale \<open>reconciler\<close> of theory \<open>Worker\<close>: once its queue is at rest, the three system namespaces are privileged
  or their privileged labels have been accepted by the API server, and after a shutdown its worker returns.
\<close>

section \<open>Event handlers and worker\<close>

definition NamesFilter :: "string list \<Rightarrow> object \<Rightarrow> bool" where
  "NamesFilter names obj = (case object_name obj of None \<Rightarrow> False | Some name \<Rightarrow> name \<in> set names)"

text \<open>\<open>controller.KeyFunc\<close> on a namespace, or on the tombstone of one, is its name; \<open>None\<close> is the error.\<close>

definition enqueueNS :: "object \<Rightarrow> wqueue \<Rightarrow> wqueue" where
  "enqueueNS obj q =
     (case obj of
        NamespaceO ns \<Rightarrow> wq_Add (ns_Name ns) q
      | Tombstone (NamespaceO ns) \<Rightarrow> wq_Add (ns_Name ns) q
      | _ \<Rightarrow> q)"

fun privileged_event :: "informer_event \<Rightarrow> wqueue \<Rightarrow> wqueue" where
  "privileged_event e q =
     (case filter_event (NamesFilter privileged_names) e of
        Some (OnAdd obj) \<Rightarrow> enqueueNS obj q
      | Some (OnUpdate old newObj) \<Rightarrow> enqueueNS newObj q
      | Some (OnDelete obj) \<Rightarrow> q
      | None \<Rightarrow> q)"

text \<open>The constructor: the handlers on the informer of namespaces, and an empty queue.\<close>

record privileged_syncer =
  pn_handler :: "informer_event \<Rightarrow> wqueue \<Rightarrow> wqueue"
  pn_workqueue :: rl_queue

definition NewPrivilegedNamespacesPSALabelSyncer :: privileged_syncer where
  "NewPrivilegedNamespacesPSALabelSyncer = \<lparr>pn_handler = privileged_event, pn_workqueue = rl_New\<rparr>"

text \<open>\<open>workerFunc\<close> of \<open>worker\<close>: whether to quit, and the new state.\<close>

definition privileged_workerFunc :: "('w \<Rightarrow> string \<Rightarrow> api_error + namespace) \<Rightarrow>
    ('w \<Rightarrow> ns_apply \<Rightarrow> string \<Rightarrow> bool \<Rightarrow> (api_error + namespace) \<times> 'w) \<Rightarrow> rl_queue \<times> 'w \<Rightarrow> (bool \<times> rl_queue \<times> 'w) option" where
  "privileged_workerFunc nsGet nsApply s =
     (case rl_Get (fst s) of
        None \<Rightarrow> None
      | Some (None, q) \<Rightarrow> Some (True, q, snd s)
      | Some (Some key, q) \<Rightarrow>
          (case privileged_sync nsGet nsApply (snd s) key of
             (None, w') \<Rightarrow> Some (False, rl_Done key (Forget key q), w')
           | (Some err, w') \<Rightarrow> Some (False, rl_Done key (AddRateLimited key q), w')))"


text \<open>The worker of the privileged-namespaces syncer is the factory's, over \<open>privileged_sync\<close>.\<close>

lemma privileged_workerFunc_factory:
  "map_option snd (privileged_workerFunc nsGet nsApply s) = processNextWorkItem (privileged_sync nsGet nsApply) s"
  by (auto simp: privileged_workerFunc_def processNextWorkItem_def finish_item_def conclude_item_def split: option.splits prod.splits)

lemma privileged_workerFunc_eq: "privileged_workerFunc nsGet nsApply = rl_workerFunc (privileged_sync nsGet nsApply)"
  by (rule ext) (auto simp: privileged_workerFunc_def rl_workerFunc_def finish_item_def conclude_item_def
      split: option.splits prod.splits)

text \<open>The whole of \<open>worker\<close>: the loop around \<open>workerFunc\<close>.\<close>

definition privileged_worker :: "('w \<Rightarrow> string \<Rightarrow> api_error + namespace) \<Rightarrow>
    ('w \<Rightarrow> ns_apply \<Rightarrow> string \<Rightarrow> bool \<Rightarrow> (api_error + namespace) \<times> 'w) \<Rightarrow> rl_queue \<times> 'w \<Rightarrow> (rl_queue \<times> 'w) option" where
  "privileged_worker nsGet nsApply = worker_loop (privileged_workerFunc nsGet nsApply)"

text \<open>
  The end of \<open>Run\<close>, from the state in which the context is cancelled. When the cache never synced there is no
  worker; the deferred \<open>ShutDown\<close> runs in both cases, and the worker goroutine goes on until it returns.
\<close>

definition privileged_Run :: "('w \<Rightarrow> string \<Rightarrow> api_error + namespace) \<Rightarrow>
    ('w \<Rightarrow> ns_apply \<Rightarrow> string \<Rightarrow> bool \<Rightarrow> (api_error + namespace) \<times> 'w) \<Rightarrow> bool \<Rightarrow> rl_queue \<times> 'w \<Rightarrow> (rl_queue \<times> 'w) option" where
  "privileged_Run nsGet nsApply cacheSynced s =
     (case s of (q, w) \<Rightarrow>
        if \<not> cacheSynced then Some (rl_ShutDown q, w)
        else privileged_worker nsGet nsApply (rl_ShutDown q, w))"

section \<open>Shutdown\<close>

text \<open>The syncer shuts down. When the context ends, the worker returns: it has synced each namespace that was
  still in the queue exactly once, in the order of the queue, on success and on failure alike, and the queue is
  empty. When the cache never synced, nothing is written.\<close>

lemma privileged_Run_returns:
  assumes "wq_inv (rl_queue q)"
  shows "\<exists>q'. privileged_Run nsGet nsApply cacheSynced (q, w) =
      Some (q', if cacheSynced then fold (\<lambda>k w. snd (privileged_sync nsGet nsApply w k)) (q_queue (rl_queue q)) w else w) \<and>
    (cacheSynced \<longrightarrow> q_queue (rl_queue q') = []) \<and> q_shuttingDown (rl_queue q') \<and>
    q_processing (rl_queue q') = q_processing (rl_queue q) \<and> rl_waiting q' = rl_waiting q"
proof (cases cacheSynced)
  case True
  from worker_loop_shut [OF assms, of "privileged_sync nsGet nsApply" w] show ?thesis using True
    unfolding privileged_Run_def privileged_worker_def privileged_workerFunc_eq by simp
qed (simp add: privileged_Run_def rl_ShutDown_def wq_ShutDown_def)

section \<open>The syncer at rest\<close>

text \<open>The lister of namespaces, and the API server, of which only \<open>Apply\<close> is used.\<close>

record 'a privileged_world =
  pv_namespaces :: "namespace list"
  pv_api :: 'a

type_synonym 'a ns_applier = "'a \<Rightarrow> ns_apply \<Rightarrow> string \<Rightarrow> bool \<Rightarrow> (api_error + namespace) \<times> 'a"

definition pv_Apply :: "'a ns_applier \<Rightarrow> 'a privileged_world ns_applier" where
  "pv_Apply srv w p manager force =
     (case srv (pv_api w) p manager force of (r, a) \<Rightarrow> (r, w\<lparr>pv_api := a\<rparr>))"

abbreviation pv_sync :: "'a ns_applier \<Rightarrow> 'a privileged_world \<Rightarrow> string \<Rightarrow> api_error option \<times> 'a privileged_world" where
  "pv_sync srv \<equiv> privileged_sync (\<lambda>w. get_of (pv_namespaces w)) (pv_Apply srv)"

text \<open>Its surroundings: events of the namespace informer with what they enqueue, and changes at the API server.\<close>

definition privileged_keys :: "informer_event \<Rightarrow> string list" where
  "privileged_keys e =
     (case filter_event (NamesFilter privileged_names) e of
        Some (OnAdd (NamespaceO ns)) \<Rightarrow> [ns_Name ns]
      | Some (OnUpdate old (NamespaceO ns)) \<Rightarrow> [ns_Name ns]
      | _ \<Rightarrow> [])"

inductive privileged_env :: "'a privileged_world \<Rightarrow> string list \<Rightarrow> 'a privileged_world \<Rightarrow> bool" where
  namespaces: "ns_event (pv_namespaces w) e nss \<Longrightarrow> privileged_env w (privileged_keys e) (w\<lparr>pv_namespaces := nss\<rparr>)"
| api: "privileged_env w [] (w\<lparr>pv_api := a\<rparr>)"

text \<open>The keys are those that the event handlers add.\<close>

lemma privileged_event_keys:
  "ns_event nss e nss' \<Longrightarrow> privileged_event e q = enqueueKeys (privileged_keys e) q"
  by (induction rule: ns_event.induct)
    (auto simp: privileged_keys_def NamesFilter_def enqueueNS_def enqueueKeys_def)

lemma privileged_keys_carried:
  "carries e ns \<Longrightarrow> ns_Name ns \<in> set privileged_names \<Longrightarrow> ns_Name ns \<in> set (privileged_keys e)"
  by (auto simp: carries_def privileged_keys_def NamesFilter_def)

lemma pv_sync_frame: "pv_namespaces (snd (pv_sync srv w k)) = pv_namespaces w"
  by (auto simp: privileged_sync_def pv_Apply_def split: sum.splits prod.splits)

interpretation pv: reconciler "pv_sync srv" privileged_env "\<lambda>w. distinct (map ns_Name (pv_namespaces w))"
  "\<lambda>w k. k \<in> set privileged_names \<and> k \<in> ns_Name ` set (pv_namespaces w)"
  "\<lambda>w k. find (\<lambda>n. ns_Name n = k) (pv_namespaces w)"
  for srv :: "'a ns_applier"
proof (unfold_locales, goal_cases)
  case (1 w keys w')
  from 1(2,1) show ?case by (induction rule: privileged_env.induct) (simp_all add: ns_event_distinct)
next
  case (3 w keys w' k)
  from 3(2,1,3,4) show ?case
  proof (induction rule: privileged_env.induct)
    case (namespaces w e nss)
    then obtain n where n: "n \<in> set nss" "ns_Name n = k" by auto
    have d: "distinct (map ns_Name nss)" using ns_event_distinct [OF namespaces(1,2)] .
    have "n \<in> set (pv_namespaces w)"
      using ns_event_members [OF namespaces(1) n(1)] privileged_keys_carried namespaces(3,4) n(2) by auto
    then show ?case
      using n find_name [OF d, of k n] find_name [OF namespaces(2), of k n] namespaces(3) by auto
  qed simp
qed (simp_all add: pv_sync_frame)

text \<open>C36: The system namespaces end up privileged. However events of the namespace informer, changes at the API
  server, workers and retries interleave from the start: once the queue is at rest, each of the three namespaces
  that the lister has carries the label \<open>privileged\<close> in all three modes, or the API server has accepted the forced
  patch that sets it, sent for exactly this object of the lister.\<close>

theorem privileged_namespaces_settle:
  assumes "(run_step (pv_sync srv) privileged_env)\<^sup>*\<^sup>* (run_start \<lparr>pv_namespaces = [], pv_api = a0\<rparr>) (q, w, res, seen)"
    and "at_rest q" and "ns \<in> set (pv_namespaces w)" and "ns_Name ns \<in> set privileged_names"
  shows "(\<forall>l \<in> {EnforceLevelLabel, WarnLevelLabel, AuditLevelLabel}. str_at (ns_Labels ns) l = ''privileged'') \<or>
    (\<exists>w1 n a. seen (ns_Name ns) = Some w1 \<and> ns \<in> set (pv_namespaces w1) \<and>
       srv (pv_api w1) (privileged_patch (ns_Name ns)) privilegedControllerName True = (Inr n, a))"
proof -
  have "distinct (map ns_Name (pv_namespaces w))"
    using pv.run_inv_reachable [OF assms(1) pv.run_inv_start] by (simp add: pv.run_inv_def)
  then have f: "find (\<lambda>n. ns_Name n = ns_Name ns) (pv_namespaces w) = Some ns" using find_name assms(3) by blast
  obtain w1 where w1: "seen (ns_Name ns) = Some w1" "distinct (map ns_Name (pv_namespaces w1))"
    "fst (pv_sync srv w1 (ns_Name ns)) = None"
    "find (\<lambda>n. ns_Name n = ns_Name ns) (pv_namespaces w1) = Some ns"
    by (rule pv.rest_in_order [OF _ _ assms(1,2), of "ns_Name ns"]) (use assms(3,4) f in auto)
  then have "ns \<in> set (pv_namespaces w1)" "get_of (pv_namespaces w1) (ns_Name ns) = Inr ns"
    using find_name by (blast, simp add: get_of_def)
  then show ?thesis using w1(1,3)
    by (auto simp: privileged_sync_def pv_Apply_def split: if_splits sum.splits prod.splits)
qed

section \<open>Examples\<close>

text \<open>The namespace \<open>default\<close>, asked for, taken and labelled by the privileged-namespaces syncer.\<close>

theorem no_key_lost_witness:
  "\<exists>l1 l2 l3. [Finished ''default'' True, Started ''default'', Asked ''default''] =
     l1 @ Finished ''default'' True # l2 @ Started ''default'' # l3 \<and>
     Asked ''default'' \<notin> set (l1 @ l2) \<and> Finished ''default'' False \<notin> set l1"
proof -
  let ?k = "''default''" and ?w = "[''default'' \<mapsto> ex_ns\<lparr>ns_Name := ''default''\<rparr>]"
  let ?sync = "privileged_sync lookup_ns merge_apply"
  let ?q1 = "rl_New\<lparr>rl_queue := enqueueKeys [?k] (rl_queue rl_New)\<rparr>"
  let ?q2 = "?q1\<lparr>rl_queue := \<lparr>q_queue = [], q_dirty = {}, q_processing = {?k}, q_shuttingDown = False\<rparr>\<rparr>"
  obtain w where s: "?sync ?w ?k = (None, w)"
    by (simp add: privileged_sync_def lookup_ns_def ex_ns_def str_at_def merge_apply_def privileged_patch_def Let_def)
  have "worker_step ?sync (rl_New, ?w, []) (?q1, ?w, rev (map Asked [?k]) @ [])" by (rule worker_step.asked)
  moreover have "worker_step ?sync (?q1, ?w, [Asked ?k]) (?q2, ?w, [Started ?k, Asked ?k])"
    by (rule worker_step.started)
      (simp add: rl_Get_def wq_Get_def rl_New_def wq_New_def enqueueKeys_def wq_Add_def)
  moreover have "worker_step ?sync (?q2, ?w, [Started ?k, Asked ?k])
      (rl_Done ?k (Forget ?k ?q2), w, Finished ?k (fst (?sync ?w ?k) = None) # [Started ?k, Asked ?k])"
    by (rule worker_step.finished) (simp_all add: finish_item_def conclude_item_def s)
  ultimately have run: "(worker_step ?sync)\<^sup>*\<^sup>* (rl_New, ?w, [])
      (rl_Done ?k (Forget ?k ?q2), w, [Finished ?k True, Started ?k, Asked ?k])"
    by (simp add: s)
  show ?thesis
    by (rule no_key_lost [OF run])
      (simp_all add: rl_Get_def rl_Done_def Forget_def wq_Get_def wq_Done_def rl_New_def wq_New_def)
qed

text \<open>The same for the run of the syncer: the namespace appears, is taken, labelled and concluded.\<close>

definition ex_default :: namespace where
  "ex_default = ex_ns\<lparr>ns_Name := ''default''\<rparr>"

definition ex_pv :: "namespace list \<Rightarrow> (string \<rightharpoonup> namespace) privileged_world" where
  "ex_pv nss = \<lparr>pv_namespaces = nss, pv_api = [''default'' \<mapsto> ex_default]\<rparr>"

definition ex_pv_after :: "(string \<rightharpoonup> namespace) privileged_world" where
  "ex_pv_after = snd (pv_sync merge_apply (ex_pv [ex_default]) ''default'')"

definition ex_taken :: rl_queue where
  "ex_taken = rl_New\<lparr>rl_queue := \<lparr>q_queue = [], q_dirty = {}, q_processing = {''default''}, q_shuttingDown = False\<rparr>\<rparr>"

definition ex_done :: rl_queue where
  "ex_done = conclude_item ''default'' (None :: api_error option) ex_taken"

type_synonym ex_run = "((string \<rightharpoonup> namespace) privileged_world, api_error) run"

definition ex_run_asked :: ex_run where
  "ex_run_asked = (rl_New\<lparr>rl_queue := enqueueKeys [''default''] (rl_queue rl_New)\<rparr>, ex_pv [ex_default], Map.empty, Map.empty)"

definition ex_run_taken :: ex_run where
  "ex_run_taken = (ex_taken, ex_pv [ex_default], Map.empty(''default'' := None), Map.empty)"

definition ex_run_synced :: ex_run where
  "ex_run_synced = (ex_taken, ex_pv_after, Map.empty(''default'' \<mapsto> None), [''default'' \<mapsto> ex_pv [ex_default]])"

definition ex_run_done :: ex_run where
  "ex_run_done = (ex_done, ex_pv_after, Map.empty(''default'' := None), [''default'' \<mapsto> ex_pv [ex_default]])"

lemmas ex_queue_defs = rl_New_def wq_New_def enqueueKeys_def wq_Add_def wq_Get_def wq_Done_def rl_Get_def

lemma ex_pv_event:
  "run_step (pv_sync merge_apply) privileged_env (run_start (ex_pv []))
     ex_run_asked"
proof -
  have n: "ns_event [] (OnAdd (NamespaceO ex_default)) ([] @ [ex_default])" by (rule ns_event.added) simp
  have k: "privileged_keys (OnAdd (NamespaceO ex_default)) = [''default'']"
    by (simp add: privileged_keys_def NamesFilter_def privileged_names_def ex_default_def)
  have "privileged_env (ex_pv []) (privileged_keys (OnAdd (NamespaceO ex_default))) ((ex_pv [])\<lparr>pv_namespaces := [ex_default]\<rparr>)"
    by (rule privileged_env.namespaces) (use n in \<open>simp add: ex_pv_def\<close>)
  then have "privileged_env (ex_pv []) [''default''] (ex_pv [ex_default])" unfolding k by (simp add: ex_pv_def)
  from run_step.event [where env = privileged_env, OF this, of "pv_sync merge_apply" rl_New Map.empty Map.empty]
  show ?thesis unfolding run_start_def ex_run_asked_def by simp
qed

lemma ex_pv_sync: "pv_sync merge_apply (ex_pv [ex_default]) ''default'' = (None, ex_pv_after)"
proof -
  have "fst (pv_sync merge_apply (ex_pv [ex_default]) ''default'') = None"
    by (simp add: privileged_sync_def ex_pv_def get_of_def ex_default_def ex_ns_def str_at_def pv_Apply_def
        merge_apply_def privileged_patch_def Let_def)
  then show ?thesis unfolding ex_pv_after_def by (metis prod.collapse)
qed

lemma ex_pv_steps:
  "run_step (pv_sync merge_apply) env ex_run_asked ex_run_taken"
  "run_step (pv_sync merge_apply) env ex_run_taken ex_run_synced"
  "run_step (pv_sync merge_apply) env ex_run_synced ex_run_done"
proof -
  show "run_step (pv_sync merge_apply) env ex_run_asked ex_run_taken" unfolding ex_run_asked_def ex_run_taken_def
    by (rule run_step.started) (simp add: ex_taken_def ex_queue_defs)
  show "run_step (pv_sync merge_apply) env ex_run_taken ex_run_synced"
    using run_step.synced [where sync = "pv_sync merge_apply" and k = "''default''" and q = ex_taken and
        res = "Map.empty(''default'' := None)" and env = env and seen = Map.empty, OF _ _ ex_pv_sync]
    by (simp add: ex_taken_def ex_run_taken_def ex_run_synced_def)
  show "run_step (pv_sync merge_apply) env ex_run_synced ex_run_done"
    using run_step.concluded [of "''default''" ex_taken "Map.empty(''default'' \<mapsto> None)" None "pv_sync merge_apply" env
        ex_pv_after "[''default'' \<mapsto> ex_pv [ex_default]]"]
    by (simp add: ex_taken_def ex_done_def ex_run_synced_def ex_run_done_def)
qed

lemma ex_done_at_rest: "at_rest ex_done"
  by (simp add: at_rest_def ex_done_def conclude_item_def rl_Done_def Forget_def ex_taken_def ex_queue_defs)

theorem privileged_namespaces_settle_witness:
  "(\<forall>l \<in> {EnforceLevelLabel, WarnLevelLabel, AuditLevelLabel}. str_at (ns_Labels ex_default) l = ''privileged'') \<or>
    (\<exists>w1 n a. [''default'' \<mapsto> ex_pv [ex_default]] (ns_Name ex_default) = Some w1 \<and> ex_default \<in> set (pv_namespaces w1) \<and>
       merge_apply (pv_api w1) (privileged_patch (ns_Name ex_default)) privilegedControllerName True = (Inr n, a))"
proof (rule privileged_namespaces_settle)
  note steps = ex_pv_steps [where env = privileged_env]
  have "(run_step (pv_sync merge_apply) privileged_env)\<^sup>*\<^sup>* (run_start (ex_pv []))
     ex_run_done"
    by (rule converse_rtranclp_into_rtranclp [where r = "run_step (pv_sync merge_apply) privileged_env", OF ex_pv_event],
        rule converse_rtranclp_into_rtranclp, rule steps(1), rule converse_rtranclp_into_rtranclp, rule steps(2),
        rule converse_rtranclp_into_rtranclp, rule steps(3), rule rtranclp.rtrancl_refl)
  then show "(run_step (pv_sync merge_apply) privileged_env)\<^sup>*\<^sup>*
      (run_start \<lparr>pv_namespaces = [], pv_api = [''default'' \<mapsto> ex_default]\<rparr>)
      (ex_done, ex_pv_after, Map.empty(''default'' := None), [''default'' \<mapsto> ex_pv [ex_default]])"
    by (simp only: ex_pv_def ex_run_done_def)
  show "at_rest ex_done" by (rule ex_done_at_rest)
  show "ex_default \<in> set (pv_namespaces ex_pv_after)"
    unfolding ex_pv_after_def by (simp add: pv_sync_frame ex_pv_def)
qed (simp add: ex_default_def privileged_names_def)

text \<open>The same run seen by the queue: three steps without an event, then it rests and no step is possible.\<close>

theorem queue_comes_to_rest_witness:
  "3 \<le> load ex_run_asked \<and> at_rest (fst ex_run_done) \<and> (\<nexists>s. run_step (pv_sync merge_apply) no_event ex_run_done s)"
proof -
  have "3 \<le> load ex_run_asked \<and>
   ((\<nexists>s. run_step (pv_sync merge_apply) no_event ex_run_done s) \<longleftrightarrow> at_rest (fst ex_run_done))"
  proof (rule queue_comes_to_rest [where env = privileged_env and init = "ex_pv []" and sync = "pv_sync merge_apply"
        and P = "\<lambda>w. pv_namespaces w = [ex_default] \<and> pv_api w ''default'' \<noteq> None"])
    show "(run_step (pv_sync merge_apply) privileged_env)\<^sup>*\<^sup>* (run_start (ex_pv [])) ex_run_asked"
      by (rule r_into_rtranclp) (rule ex_pv_event)
    show "pv_namespaces (fst (snd ex_run_asked)) = [ex_default] \<and> pv_api (fst (snd ex_run_asked)) ''default'' \<noteq> None"
      by (simp add: ex_run_asked_def ex_pv_def)
    have k: "pending_keys (fst ex_run_asked) = {''default''}"
      by (simp add: ex_run_asked_def pending_keys_def ex_queue_defs)
    fix w :: "(string \<rightharpoonup> namespace) privileged_world" and k
    assume "pv_namespaces w = [ex_default] \<and> pv_api w ''default'' \<noteq> None" "k \<in> pending_keys (fst ex_run_asked)"
    then obtain n where w: "pv_namespaces w = [ex_default]" "pv_api w ''default'' = Some n" "k = ''default''" unfolding k by blast
    show "fst (pv_sync merge_apply w k) = None \<and> pv_namespaces (snd (pv_sync merge_apply w k)) = [ex_default] \<and>
        pv_api (snd (pv_sync merge_apply w k)) ''default'' \<noteq> None"
      using w by (simp add: privileged_sync_def get_of_def ex_default_def ex_ns_def str_at_def pv_Apply_def
          merge_apply_def privileged_patch_def Let_def)
  next
    note steps = ex_pv_steps [where env = no_event]
    show "((run_step (pv_sync merge_apply) no_event) ^^ 3) ex_run_asked ex_run_done"
      unfolding numeral_3_eq_3
      by (rule relpowp_Suc_I2, rule steps(1), rule relpowp_Suc_I2, rule steps(2), rule relpowp_Suc_I2, rule steps(3), simp)
  qed
  then show ?thesis using ex_done_at_rest by (simp add: ex_run_done_def)
qed

lemma ex_Run_returns:
  "\<exists>q'. privileged_Run lookup_ns merge_apply True
      (rl_New\<lparr>rl_queue := enqueueKeys [''default''] (rl_queue rl_New)\<rparr>, [''default'' \<mapsto> ex_default]) =
      Some (q', snd (privileged_sync lookup_ns merge_apply [''default'' \<mapsto> ex_default] ''default'')) \<and> q_queue (rl_queue q') = []"
proof -
  let ?q = "rl_New\<lparr>rl_queue := enqueueKeys [''default''] (rl_queue rl_New)\<rparr>"
  have "wq_inv (rl_queue ?q)" "q_queue (rl_queue ?q) = [''default'']" by (simp_all add: ex_queue_defs wq_inv_def)
  with privileged_Run_returns [of ?q lookup_ns merge_apply True "[''default'' \<mapsto> ex_default]"] show ?thesis by auto
qed

end
