(* ===== verification/Csr_Approver.thy ===== *)
theory Csr_Approver
  imports Scc_Role_Cache
begin

text \<open>
  The approver of certificate signing requests: what \<open>RunCSRApproverController\<close> in
  \<open>src/pkg/cmd/controller/csr.go\<close> configures, with the vendored controller it starts,
  \<open>library-go/pkg/operator/csr/csr_approver.go\<close>. Decoding PEM and X.509 is a parameter: \<open>parse\<close> gives the
  common name and the printed subject of a request, or nothing when there is no well-formed request.
\<close>

section \<open>Requests\<close>

datatype csr_condition = CertificateApproved | CertificateDenied string | OtherCondition string

record csr =
  csr_Name :: string
  csr_Labels :: str_map
  csr_Username :: string
  csr_Groups :: "string list"
  csr_Request :: string
  csr_Conditions :: "csr_condition list"

record x509_csr =
  x_CommonName :: string
  x_Subject :: string

datatype csr_decision = CSRApproved | CSRDenied string

record sa_approver =
  saGroups :: "string set"
  saName :: string
  expectedSubjects :: "string set"

definition MakeGroupNames :: "string \<Rightarrow> string list" where
  "MakeGroupNames namespace = [''system:serviceaccounts'', ''system:serviceaccounts:'' @ namespace]"

definition NewServiceAccountMultiSubjectsApprover :: "string \<Rightarrow> string \<Rightarrow> string list \<Rightarrow> sa_approver" where
  "NewServiceAccountMultiSubjectsApprover saNamespace name expectedSubject =
     \<lparr>saGroups = set (MakeGroupNames saNamespace @ [''system:authenticated'']),
      saName = MakeUsername saNamespace name,
      expectedSubjects = set expectedSubject\<rparr>"

text \<open>The messages of the denials are shortened.\<close>

definition Approve :: "sa_approver \<Rightarrow> csr \<Rightarrow> x509_csr \<Rightarrow> csr_decision" where
  "Approve a csrObj x509CSR =
     (if csr_Username csrObj \<noteq> saName a then CSRDenied ''unexpected user''
      else if set (csr_Groups csrObj) \<noteq> saGroups a then CSRDenied ''unexpected groups''
      else if x_Subject x509CSR \<notin> expectedSubjects a then CSRDenied ''unexpected subject''
      else CSRApproved)"

section \<open>The controller\<close>

datatype csr_error = CsrGetFailed api_error | CsrPemFailed | CsrUpdateFailed api_error

record 'w csr_client =
  csr_Get :: "'w \<Rightarrow> string \<Rightarrow> api_error + csr"
  csr_UpdateApproval :: "'w \<Rightarrow> csr \<Rightarrow> api_error option \<times> 'w"

definition getCertApprovalCondition :: "csr_condition list \<Rightarrow> bool \<times> bool" where
  "getCertApprovalCondition conditions =
     (CertificateApproved \<in> set conditions, list_ex (\<lambda>c. case c of CertificateDenied _ \<Rightarrow> True | _ \<Rightarrow> False) conditions)"

text \<open>The two updates return the request they sent: the conditions are appended to the controller's copy.\<close>

definition denyCSR :: "'w csr_client \<Rightarrow> 'w \<Rightarrow> csr \<Rightarrow> string \<Rightarrow> csr_error option \<times> csr \<times> 'w" where
  "denyCSR cl w csrCopy reason =
     (let c = csrCopy\<lparr>csr_Conditions := csr_Conditions csrCopy @ [CertificateDenied reason]\<rparr>
      in case csr_UpdateApproval cl w c of (err, w') \<Rightarrow> (map_option CsrUpdateFailed err, c, w'))"

definition approveCSR :: "'w csr_client \<Rightarrow> 'w \<Rightarrow> csr \<Rightarrow> csr_error option \<times> csr \<times> 'w" where
  "approveCSR cl w csrCopy =
     (let c = csrCopy\<lparr>csr_Conditions := csr_Conditions csrCopy @ [CertificateApproved]\<rparr>
      in case csr_UpdateApproval cl w c of (err, w') \<Rightarrow> (map_option CsrUpdateFailed err, c, w'))"

definition csr_sync :: "(string \<Rightarrow> x509_csr option) \<Rightarrow> sa_approver \<Rightarrow> 'w csr_client \<Rightarrow> 'w \<Rightarrow> string \<Rightarrow> csr_error option \<times> 'w" where
  "csr_sync parse approver cl w key =
     (case csr_Get cl w key of
        Inl NotFound \<Rightarrow> (None, w)
      | Inl e \<Rightarrow> (Some (CsrGetFailed e), w)
      | Inr c \<Rightarrow>
          (case getCertApprovalCondition (csr_Conditions c) of (approved, denied) \<Rightarrow>
           if approved \<or> denied then (None, w)
           else case parse (csr_Request c) of
             None \<Rightarrow> (Some CsrPemFailed, w)
           | Some x509CSR \<Rightarrow>
               let (csrCopy, w1) =
                     (if x_CommonName x509CSR = csr_Username c
                      then case denyCSR cl w c ''IllegitimateRequester'' of (_, c', w') \<Rightarrow> (c', w')
                      else (c, w))
               in (case Approve approver c x509CSR of
                     CSRDenied denyReason \<Rightarrow> (case denyCSR cl w1 csrCopy denyReason of (err, _, w') \<Rightarrow> (err, w'))
                   | CSRApproved \<Rightarrow> (case approveCSR cl w1 csrCopy of (err, _, w') \<Rightarrow> (err, w')))))"

section \<open>The configuration of this program\<close>

definition monitoringNamespace :: string where "monitoringNamespace = ''openshift-monitoring''"
definition monitoringRequesterSA :: string where "monitoringRequesterSA = ''cluster-monitoring-operator''"
definition monitoringSubjectNameLabelKey :: string where
  "monitoringSubjectNameLabelKey = ''metrics.openshift.io/csr.subject''"
definition prometheus :: string where "prometheus = ''prometheus''"
definition metricsServer :: string where "metricsServer = ''metrics-server''"

definition monitoringCertificateSubjects :: "string list" where
  "monitoringCertificateSubjects =
     [''CN=system:serviceaccount:'' @ monitoringNamespace @ '':'' @ prometheus @ ''-k8s'',
      ''CN=system:serviceaccount:'' @ monitoringNamespace @ '':'' @ metricsServer]"

definition monitoring_approver :: sa_approver where
  "monitoring_approver =
     NewServiceAccountMultiSubjectsApprover monitoringNamespace monitoringRequesterSA monitoringCertificateSubjects"

text \<open>\<open>csr.NewLabelFilter\<close> of the selector \<open>monitoringSubjectNameLabelKey in (prometheus, metrics-server)\<close>.\<close>

definition csr_filter :: "csr \<Rightarrow> bool" where
  "csr_filter c \<longleftrightarrow> (case csr_Labels c monitoringSubjectNameLabelKey of
     Some v \<Rightarrow> v = prometheus \<or> v = metricsServer
   | None \<Rightarrow> False)"

text \<open>
  \<open>RunCSRApproverController\<close>: the name, filter and approver of the controller it starts; the requirement of the
  selector is well formed, so making it does not fail.
\<close>

definition csr_controllerName :: string where "csr_controllerName = ''csr-approver-controller''"

definition RunCSRApproverController :: "'e option \<Rightarrow> bool \<times> ('e + (string \<times> (csr \<Rightarrow> bool) \<times> sa_approver))" where
  "RunCSRApproverController clientErr =
     (True, case clientErr of Some err \<Rightarrow> Inl err | None \<Rightarrow> Inr (csr_controllerName, csr_filter, monitoring_approver))"

section \<open>Safety\<close>

text \<open>A client that records every request sent to \<open>UpdateApproval\<close>, with arbitrary answers.\<close>

definition recording :: "(string \<Rightarrow> api_error + csr) \<Rightarrow> (csr list \<Rightarrow> csr \<Rightarrow> api_error option) \<Rightarrow> csr list csr_client" where
  "recording get answer =
     \<lparr>csr_Get = (\<lambda>log. get), csr_UpdateApproval = (\<lambda>log c. (answer log c, log @ [c]))\<rparr>"


definition ex_csr :: csr where
  "ex_csr = \<lparr>csr_Name = ''csr-1'', csr_Labels = [monitoringSubjectNameLabelKey \<mapsto> prometheus],
     csr_Username = ''system:serviceaccount:openshift-monitoring:cluster-monitoring-operator'',
     csr_Groups = [''system:serviceaccounts'', ''system:serviceaccounts:openshift-monitoring'', ''system:authenticated''],
     csr_Request = ''pem'', csr_Conditions = []\<rparr>"


end
