(* ===== verification/Controller_Start.thy ===== *)
theory Controller_Start
  imports Complex_Main Privileged_Namespaces Scc_Allocation Csr_Approver
begin

text \<open>
  Configuration and start of the controllers: \<open>src/pkg/cmd/cluster-policy-controller\<close> (defaults, waiting
  for the API server, starting the controllers) and the decisions of \<open>src/pkg/cmd/controller\<close> (which
  controllers run, which labels are synchronised, the ranges of the security allocator, how clients are
  built). Building a client from a configuration and decoding the configuration file are parameters.
\<close>

section \<open>Configuration\<close>

text \<open>Durations are in nanoseconds.\<close>

definition Minute :: int where "Minute = 60 * 1000000000"
definition Hour :: int where "Hour = 60 * Minute"

record security_allocator =
  UIDAllocatorRange :: string
  MCSAllocatorRange :: string
  MCSLabelsPerProject :: int

record quota_config =
  ConcurrentSyncs :: int
  SyncPeriod :: int
  MinResyncPeriod :: int

record controller_config =
  Controllers :: "string list"
  FeatureGates :: "string list"
  SecurityAllocator :: security_allocator
  ResourceQuota :: quota_config

definition zero_config :: controller_config where
  "zero_config = \<lparr>Controllers = [], FeatureGates = [],
     SecurityAllocator = \<lparr>UIDAllocatorRange = [], MCSAllocatorRange = [], MCSLabelsPerProject = 0\<rparr>,
     ResourceQuota = \<lparr>ConcurrentSyncs = 0, SyncPeriod = 0, MinResyncPeriod = 0\<rparr>\<rparr>"

text \<open>\<open>configdefaults.DefaultString\<close> and \<open>DefaultStringSlice\<close>.\<close>

definition default_list :: "'a list \<Rightarrow> 'a list \<Rightarrow> 'a list" where
  "default_list target defaultVal = (if target = [] then defaultVal else target)"

definition setRecommendedOpenShiftControllerConfigDefaults :: "controller_config \<Rightarrow> controller_config" where
  "setRecommendedOpenShiftControllerConfigDefaults config =
     config\<lparr>Controllers := default_list (Controllers config) [''*''],
       SecurityAllocator := (let s = SecurityAllocator config in
         \<lparr>UIDAllocatorRange = default_list (UIDAllocatorRange s) ''1000000000-1999999999/10000'',
          MCSAllocatorRange = default_list (MCSAllocatorRange s) ''s0:/2'',
          MCSLabelsPerProject = (if MCSLabelsPerProject s = 0 then 5 else MCSLabelsPerProject s)\<rparr>),
       ResourceQuota := (let q = ResourceQuota config in
         \<lparr>ConcurrentSyncs = (if ConcurrentSyncs q = 0 then 5 else ConcurrentSyncs q),
          SyncPeriod = (if SyncPeriod q = 0 then 12 * Hour else SyncPeriod q),
          MinResyncPeriod = (if MinResyncPeriod q = 0 then 5 * Minute else MinResyncPeriod q)\<rparr>)\<rparr>"

definition asOpenshiftControllerManagerConfig :: "('raw \<Rightarrow> 'e + controller_config) \<Rightarrow> 'raw option \<Rightarrow> 'e + controller_config" where
  "asOpenshiftControllerManagerConfig decode config =
     (case config of
        None \<Rightarrow> Inr (setRecommendedOpenShiftControllerConfigDefaults zero_config)
      | Some raw \<Rightarrow>
          (case decode raw of
             Inl err \<Rightarrow> Inl err
           | Inr result \<Rightarrow> Inr (setRecommendedOpenShiftControllerConfigDefaults result)))"

section \<open>Which controllers run\<close>

fun enabled_loop :: "string \<Rightarrow> bool \<Rightarrow> string list \<Rightarrow> bool" where
  "enabled_loop name hasStar [] = hasStar"
| "enabled_loop name hasStar (ctrl # ctrls) =
     (if ctrl = name then True
      else if ctrl = CHR ''-'' # name then False
      else enabled_loop name (hasStar \<or> ctrl = ''*'') ctrls)"

text \<open>\<open>app.IsControllerEnabled\<close> with no controller disabled by default.\<close>

definition IsControllerEnabled :: "controller_config \<Rightarrow> string \<Rightarrow> bool" where
  "IsControllerEnabled config name = enabled_loop name False (Controllers config)"

definition ControllerInitializers :: "string list" where
  "ControllerInitializers =
     [''openshift.io/namespace-security-allocation'', ''openshift.io/resourcequota'',
      ''openshift.io/cluster-quota-reconciliation'', ''openshift.io/cluster-csr-approver'',
      ''openshift.io/podsecurity-admission-label-syncer'', ''openshift.io/privileged-namespaces-psa-label-syncer'']"

text \<open>
  \<open>startControllers\<close> over the initializers in the order the map gives them: \<open>init\<close> is what the
  initializer of a name returns and does. \<open>Some\<close> is the fatal error that ends the process.
\<close>

fun startControllers :: "controller_config \<Rightarrow> (string \<Rightarrow> 's \<Rightarrow> (bool \<times> string option) \<times> 's) \<Rightarrow> string list \<Rightarrow> 's \<Rightarrow>
    (string \<times> string) option \<times> 's" where
  "startControllers config init [] s = (None, s)"
| "startControllers config init (ctrl # names) s =
     (if \<not> IsControllerEnabled config ctrl then startControllers config init names s
      else case init ctrl s of
             ((started, Some err), s') \<Rightarrow> (Some (ctrl, err), s')
           | ((started, None), s') \<Rightarrow> startControllers config init names s')"

text \<open>
  \<open>WaitForHealthyAPIServer\<close>: the status codes of the polls until the timeout of five minutes; the body of
  the last answer is only part of the error message.
\<close>

fun WaitForHealthyAPIServer :: "nat list \<Rightarrow> bool" where
  "WaitForHealthyAPIServer [] = False"
| "WaitForHealthyAPIServer (healthStatus # polls) = (if healthStatus \<noteq> 200 then WaitForHealthyAPIServer polls else True)"

datatype 'e run_outcome = ConfigError 'e | FatalStart string | Running

definition RunClusterPolicyController :: "('raw \<Rightarrow> 'e + controller_config) \<Rightarrow> 'raw option \<Rightarrow> 'e option \<Rightarrow> nat list \<Rightarrow>
    string option \<Rightarrow> (string \<Rightarrow> 's \<Rightarrow> (bool \<times> string option) \<times> 's) \<Rightarrow> string list \<Rightarrow> ('s \<Rightarrow> 's) \<Rightarrow> 's \<Rightarrow> 'e run_outcome \<times> 's" where
  "RunClusterPolicyController decode raw clientErr polls contextErr init order startInformers s =
     (case asOpenshiftControllerManagerConfig decode raw of
        Inl err \<Rightarrow> (ConfigError err, s)
      | Inr config \<Rightarrow>
          (case clientErr of
             Some err \<Rightarrow> (ConfigError err, s)
           | None \<Rightarrow>
               if \<not> WaitForHealthyAPIServer polls then (FatalStart ''server unhealthy'', s)
               else (case contextErr of
                       Some err \<Rightarrow> (FatalStart err, s)
                     | None \<Rightarrow>
                         (case startControllers config init order s of
                            (Some (name, err), s') \<Rightarrow> (FatalStart err, s')
                          | (None, s') \<Rightarrow> (Running, startInformers s')))))"

section \<open>Security allocation\<close>

text \<open>
  The constructor of the allocation controller: its queue starts with the initial repair. The event
  handlers add the key of a namespace; \<open>None\<close> is an object of another type.
\<close>

definition NewNamespaceSCCAllocationController :: "uid_range \<Rightarrow> (block \<Rightarrow> label option) \<Rightarrow> nsc \<times> wqueue" where
  "NewNamespaceSCCAllocationController uidRange mcs =
     (\<lparr>requiredUIDRange = uidRange, mcsAllocator = mcs, currentUIDRangeAllocation = None, recorded = []\<rparr>,
      wq_Add initialRepairKey wq_New)"

definition enqueueNamespace :: "namespace option \<Rightarrow> wqueue \<Rightarrow> wqueue" where
  "enqueueNamespace obj q = (case obj of None \<Rightarrow> q | Some ns \<Rightarrow> wq_Add (asNamespaceNameKey (ns_Name ns)) q)"

datatype start_error = BadUIDRange uid_error | BadMCSRange mcs_error | ClientError string

definition RunNamespaceSecurityAllocationController ::
    "string option \<Rightarrow> string option \<Rightarrow> controller_config \<Rightarrow> start_error + (nsc \<times> wqueue)" where
  "RunNamespaceSecurityAllocationController kubeClientErr securityClientErr config =
     (case Uid.ParseRange (UIDAllocatorRange (SecurityAllocator config)) of
        Inl e \<Rightarrow> Inl (BadUIDRange e)
      | Inr uidRange \<Rightarrow>
          (case ParseMcsRange (MCSAllocatorRange (SecurityAllocator config)) of
             Inl e \<Rightarrow> Inl (BadMCSRange e)
           | Inr mcsRange \<Rightarrow>
               (case kubeClientErr of
                  Some e \<Rightarrow> Inl (ClientError e)
                | None \<Rightarrow>
                    (case securityClientErr of
                       Some e \<Rightarrow> Inl (ClientError e)
                     | None \<Rightarrow>
                         Inr (NewNamespaceSCCAllocationController uidRange
                           (DefaultMCSAllocation uidRange mcsRange (MCSLabelsPerProject (SecurityAllocator config))))))))"

section \<open>Pod security labels\<close>

text \<open>
  The constructors of the label controller. \<open>roleIdx\<close> and \<open>clusterRoleIdx\<close> are the errors of adding the
  indexer to the two informers of bindings; the handlers are in theory \<open>Controller_Events\<close>.
\<close>

record psa_controller =
  syncedLabels :: "(string \<times> string) list"
  nsLabelSelector :: "namespace \<Rightarrow> bool"
  workQueue :: wqueue

definition newPodSecurityAdmissionLabelSynchronizationController ::
    "'e option \<Rightarrow> 'e option \<Rightarrow> (string \<times> string) list \<Rightarrow> 'e + psa_controller" where
  "newPodSecurityAdmissionLabelSynchronizationController roleIdx clusterRoleIdx labels =
     (case roleIdx of
        Some err \<Rightarrow> Inl err
      | None \<Rightarrow>
          (case clusterRoleIdx of
             Some err \<Rightarrow> Inl err
           | None \<Rightarrow> Inr \<lparr>syncedLabels = labels, nsLabelSelector = controlledNamespacesLabelSelector, workQueue = wq_New\<rparr>))"

definition NewEnforcingPodSecurityAdmissionLabelSynchronizationController :: "'e option \<Rightarrow> 'e option \<Rightarrow> 'e + psa_controller" where
  "NewEnforcingPodSecurityAdmissionLabelSynchronizationController roleIdx clusterRoleIdx =
     newPodSecurityAdmissionLabelSynchronizationController roleIdx clusterRoleIdx allPSaLabels"

definition NewAdvisingPodSecurityAdmissionLabelSynchronizationController :: "'e option \<Rightarrow> 'e option \<Rightarrow> 'e + psa_controller" where
  "NewAdvisingPodSecurityAdmissionLabelSynchronizationController roleIdx clusterRoleIdx =
     newPodSecurityAdmissionLabelSynchronizationController roleIdx clusterRoleIdx loggingLabels"

definition runPodSecurityAdmissionLabelSynchronizationController ::
    "'e option \<Rightarrow> 'e option \<Rightarrow> 'e option \<Rightarrow> controller_config \<Rightarrow> bool \<times> ('e + psa_controller)" where
  "runPodSecurityAdmissionLabelSynchronizationController clientErr roleIdx clusterRoleIdx config =
     (True,
      case clientErr of
        Some err \<Rightarrow> Inl err
      | None \<Rightarrow>
          if ''OpenShiftPodSecurityAdmission=false'' \<in> set (FeatureGates config)
          then NewAdvisingPodSecurityAdmissionLabelSynchronizationController roleIdx clusterRoleIdx
          else NewEnforcingPodSecurityAdmissionLabelSynchronizationController roleIdx clusterRoleIdx)"

lemmas psa_start_defs = runPodSecurityAdmissionLabelSynchronizationController_def
  NewAdvisingPodSecurityAdmissionLabelSynchronizationController_def
  NewEnforcingPodSecurityAdmissionLabelSynchronizationController_def
  newPodSecurityAdmissionLabelSynchronizationController_def

text \<open>The enforce label is synchronised exactly when the gate is not switched off, the others always are.\<close>

lemma enforce_label_gated:
  assumes "runPodSecurityAdmissionLabelSynchronizationController None None None config = (b, Inr c)"
  shows "(EnforceLevelLabel, EnforceVersionLabel) \<in> set (syncedLabels c) \<longleftrightarrow>
      ''OpenShiftPodSecurityAdmission=false'' \<notin> set (FeatureGates config)"
    and "{(WarnLevelLabel, WarnVersionLabel), (AuditLevelLabel, AuditVersionLabel)} \<subseteq> set (syncedLabels c)"
  using assms by (auto simp: psa_start_defs allPSaLabels_def loggingLabels_def label_name_defs split: if_splits)

text \<open>\<open>clientErr\<close> is the error of making a client for a service account, if there is one.\<close>

definition privilegedNamespacesPodSecurityAdmissionLabelSyncerServiceAccountName :: string where
  "privilegedNamespacesPodSecurityAdmissionLabelSyncerServiceAccountName = ''privileged-namespaces-psa-label-syncer''"

definition runPrivilegedNamespacesPSALabelSyncer :: "(string \<Rightarrow> 'e option) \<Rightarrow> bool \<times> ('e + privileged_syncer)" where
  "runPrivilegedNamespacesPSALabelSyncer clientErr =
     (True,
      case clientErr privilegedNamespacesPodSecurityAdmissionLabelSyncerServiceAccountName of
        Some err \<Rightarrow> Inl err
      | None \<Rightarrow> Inr NewPrivilegedNamespacesPSALabelSyncer)"

section \<open>Clients\<close>

text \<open>
  The part of a client configuration the code changes. \<open>QPS\<close> is a \<open>float32\<close> in the source; its rounding is
  not modelled.
\<close>

record rest_config =
  AcceptContentTypes :: string
  ContentType :: string
  QPS :: rat
  Burst :: int

definition nonProtobufConfig :: "rest_config \<Rightarrow> rest_config" where
  "nonProtobufConfig inConfig = inConfig\<lparr>AcceptContentTypes := ''application/json'', ContentType := ''application/json''\<rparr>"

definition divide_limits :: "rest_config \<Rightarrow> rest_config" where
  "divide_limits c =
     (let c' = (if QPS c > 0 then c\<lparr>QPS := QPS c / 10 + 1\<rparr> else c)
      in if Burst c' > 0 then c'\<lparr>Burst := Burst c' div 10 + 1\<rparr> else c')"

text \<open>The clients behind the informer factories of the controller context; the constructors are parameters.\<close>

record 'c context_clients =
  KubernetesClient :: 'c
  MetadataClient :: 'c
  ImageClient :: 'c
  QuotaClient :: 'c
  SecurityClient :: 'c

record ('e, 'c) client_constructors =
  newKube :: "rest_config \<Rightarrow> 'e + 'c"
  newMetadata :: "rest_config \<Rightarrow> 'e + 'c"
  newImage :: "rest_config \<Rightarrow> 'e + 'c"
  newQuota :: "rest_config \<Rightarrow> 'e + 'c"
  newSecurity :: "rest_config \<Rightarrow> 'e + 'c"

definition NewControllerContext :: "('e, 'c) client_constructors \<Rightarrow> rest_config \<Rightarrow> 'e + 'c context_clients" where
  "NewControllerContext new inClientConfig =
     bind_res (newKube new inClientConfig) (\<lambda>kubeClient.
       let clientConfig = divide_limits inClientConfig
       in bind_res (newMetadata new clientConfig) (\<lambda>metadataClient.
          bind_res (newImage new clientConfig) (\<lambda>imageClient.
          bind_res (newQuota new (nonProtobufConfig clientConfig)) (\<lambda>quotaClient.
          bind_res (newSecurity new clientConfig) (\<lambda>securityClient.
            Inr \<lparr>KubernetesClient = kubeClient, MetadataClient = metadataClient, ImageClient = imageClient,
                 QuotaClient = quotaClient, SecurityClient = securityClient\<rparr>)))))"

text \<open>\<open>cfg\<close> is \<open>b.Config\<close> and \<open>new\<close> the constructor of the generated client. \<open>None\<close> is \<open>klog.Fatal\<close>.\<close>

definition OpenshiftImageClient :: "(string \<Rightarrow> 'e + rest_config) \<Rightarrow> (rest_config \<Rightarrow> 'e + 'c) \<Rightarrow> string \<Rightarrow> 'e + 'c" where
  "OpenshiftImageClient cfg new name = bind_res (cfg name) new"

definition OpenshiftQuotaClient :: "(string \<Rightarrow> 'e + rest_config) \<Rightarrow> (rest_config \<Rightarrow> 'e + 'c) \<Rightarrow> string \<Rightarrow> 'e + 'c" where
  "OpenshiftQuotaClient cfg new name = bind_res (cfg name) (\<lambda>c. new (nonProtobufConfig c))"

definition OpenshiftSecurityClient :: "(string \<Rightarrow> 'e + rest_config) \<Rightarrow> (rest_config \<Rightarrow> 'e + 'c) \<Rightarrow> string \<Rightarrow> 'e + 'c" where
  "OpenshiftSecurityClient cfg new name = bind_res (cfg name) (\<lambda>c. new (nonProtobufConfig c))"

definition OrDie :: "'e + 'c \<Rightarrow> 'c option" where
  "OrDie r = (case r of Inl err \<Rightarrow> None | Inr client \<Rightarrow> Some client)"

definition OpenshiftImageClientOrDie :: "(string \<Rightarrow> 'e + rest_config) \<Rightarrow> (rest_config \<Rightarrow> 'e + 'c) \<Rightarrow> string \<Rightarrow> 'c option" where
  "OpenshiftImageClientOrDie cfg new name = OrDie (OpenshiftImageClient cfg new name)"

definition OpenshiftQuotaClientOrDie :: "(string \<Rightarrow> 'e + rest_config) \<Rightarrow> (rest_config \<Rightarrow> 'e + 'c) \<Rightarrow> string \<Rightarrow> 'c option" where
  "OpenshiftQuotaClientOrDie cfg new name = OrDie (OpenshiftQuotaClient cfg new name)"

definition OpenshiftSecurityClientOrDie :: "(string \<Rightarrow> 'e + rest_config) \<Rightarrow> (rest_config \<Rightarrow> 'e + 'c) \<Rightarrow> string \<Rightarrow> 'c option" where
  "OpenshiftSecurityClientOrDie cfg new name = OrDie (OpenshiftSecurityClient cfg new name)"

text \<open>The quota client never gets a protobuf configuration, and the limits never drop to zero.\<close>

lemma quota_context_client:
  assumes "NewControllerContext new cfg = Inr c"
  shows "\<exists>cfg'. newQuota new cfg' = Inr (QuotaClient c) \<and> ContentType cfg' = ''application/json'' \<and>
    AcceptContentTypes cfg' = ''application/json'' \<and> (0 < QPS cfg \<longrightarrow> 1 \<le> QPS cfg') \<and> (0 < Burst cfg \<longrightarrow> 1 \<le> Burst cfg')"
proof -
  let ?cfg = "nonProtobufConfig (divide_limits cfg)"
  have "newQuota new ?cfg = Inr (QuotaClient c)"
    using assms by (auto simp: NewControllerContext_def Let_def bind_res_Inr_iff)
  moreover have "ContentType ?cfg = ''application/json''" "AcceptContentTypes ?cfg = ''application/json''"
    by (simp_all add: nonProtobufConfig_def)
  moreover have "0 < QPS cfg \<longrightarrow> 1 \<le> QPS ?cfg" "0 < Burst cfg \<longrightarrow> 1 \<le> Burst ?cfg"
    by (auto simp: nonProtobufConfig_def divide_limits_def Let_def pos_imp_zdiv_nonneg_iff)
  ultimately show ?thesis by blast
qed

section \<open>Properties\<close>

lemma enabled_loop_iff:
  "enabled_loop name star cs \<longleftrightarrow>
     (case find (\<lambda>c. c = name \<or> c = CHR ''-'' # name) cs of
        Some c \<Rightarrow> c = name
      | None \<Rightarrow> star \<or> ''*'' \<in> set cs)"
  by (induction cs arbitrary: star) (auto split: option.splits)

lemma default_enables_all:
  "name \<in> set ControllerInitializers \<Longrightarrow> IsControllerEnabled (setRecommendedOpenShiftControllerConfigDefaults zero_config) name"
  by (auto simp: IsControllerEnabled_def setRecommendedOpenShiftControllerConfigDefaults_def default_list_def
      zero_config_def ControllerInitializers_def)

lemma startControllers_append:
  "startControllers config init (xs @ ys) s =
     (case startControllers config init xs s of
        (Some e, s') \<Rightarrow> (Some e, s')
      | (None, s') \<Rightarrow> startControllers config init ys s')"
  by (induction xs arbitrary: s) (auto split: option.splits prod.splits)

lemma default_uid_range: "Uid.ParseRange ''1000000000-1999999999/10000'' = Inr \<lparr>rng_block = \<lparr>blk_Start = 1000000000, blk_End = 1999999999\<rparr>, rng_size = 10000\<rparr>"
  by code_simp

lemma default_mcs_range: "ParseMcsRange ''s0:/2'' = Inr \<lparr>mr_prefix = ''s0:'', mr_n = 1024, mr_k = 2\<rparr>"
  by code_simp

text \<open>C33: The default configuration keeps namespaces apart. With nothing configured for the security
  allocator, the allocation controller starts, its first key is the initial repair, it hands out
  100000 blocks of 10000 UIDs from 1000000000 to 1999999999, and every two different blocks get MCS
  labels, and different ones.\<close>

theorem default_allocation_separates:
  assumes "SecurityAllocator config = SecurityAllocator zero_config"
    and "RunNamespaceSecurityAllocationController None None (setRecommendedOpenShiftControllerConfigDefaults config) = r"
  shows "\<exists>c q. r = Inr (c, q) \<and> map_option fst (wq_Get q) = Some (Some initialRepairKey) \<and>
    blocks (requiredUIDRange c) = 100000 \<and>
    requiredUIDRange c = \<lparr>rng_block = \<lparr>blk_Start = 1000000000, blk_End = 1999999999\<rparr>, rng_size = 10000\<rparr> \<and>
    (\<forall>b1 b2. b1 \<in> in_range (requiredUIDRange c) \<and> b2 \<in> in_range (requiredUIDRange c) \<and> b1 \<noteq> b2 \<longrightarrow>
      (\<exists>l1 l2. mcsAllocator c b1 = Some l1 \<and> mcsAllocator c b2 = Some l2 \<and> l1 \<noteq> l2))"
proof -
  let ?uids = "\<lparr>rng_block = \<lparr>blk_Start = 1000000000, blk_End = 1999999999\<rparr>, rng_size = 10000\<rparr> :: uid_range"
  let ?mcs = "\<lparr>mr_prefix = ''s0:'', mr_n = 1024, mr_k = 2\<rparr> :: mcs_range"
  have r: "r = Inr (NewNamespaceSCCAllocationController ?uids (DefaultMCSAllocation ?uids ?mcs 5))"
    using assms by (simp add: RunNamespaceSecurityAllocationController_def setRecommendedOpenShiftControllerConfigDefaults_def
        zero_config_def default_list_def default_uid_range default_mcs_range Let_def)
  have facts: "blocks ?uids = 100000" "sized_range ?uids" "valid_mcs ?mcs" "unat (McsRange_Size ?mcs) = 523776"
    by code_simp (simp add: sized_range_def valid_range_def, simp add: valid_mcs_def, code_simp)
  have "\<exists>l1 l2. DefaultMCSAllocation ?uids ?mcs 5 b1 = Some l1 \<and> DefaultMCSAllocation ?uids ?mcs 5 b2 = Some l2 \<and> l1 \<noteq> l2"
    if "b1 \<in> in_range ?uids" "b2 \<in> in_range ?uids" "b1 \<noteq> b2" for b1 b2
    using mcs_labels_distinct [OF facts(2,3) _ _ _ _ that, of 5] facts(1,4) by (auto simp: HasSuffix_def)
  then show ?thesis
    using r facts(1) by (simp add: NewNamespaceSCCAllocationController_def wq_Get_def wq_Add_def wq_New_def)
qed

lemma startControllers_all:
  assumes "\<forall>name s. snd (fst (init name s)) = None"
  shows "startControllers config init names s =
    (None, fold (\<lambda>n s. snd (init n s)) (filter (IsControllerEnabled config) names) s)"
proof (induction names arbitrary: s)
  case (Cons name names)
  obtain st e s' where i: "init name s = ((st, e), s')" by (metis surj_pair)
  then have "e = None" using assms by (metis fst_conv snd_conv)
  then show ?case using Cons i by simp
qed simp

lemma filter_default_enabled:
  "set order \<subseteq> set ControllerInitializers \<Longrightarrow>
    filter (IsControllerEnabled (setRecommendedOpenShiftControllerConfigDefaults zero_config)) order = order"
  by (auto simp: filter_id_conv intro: default_enables_all)

theorem default_allocation_separates_witness:
  "SecurityAllocator (zero_config\<lparr>Controllers := [''*'']\<rparr>) = SecurityAllocator zero_config \<and>
   (\<exists>c q. RunNamespaceSecurityAllocationController None None
       (setRecommendedOpenShiftControllerConfigDefaults (zero_config\<lparr>Controllers := [''*'']\<rparr>)) = Inr (c, q) \<and>
     blocks (requiredUIDRange c) = 100000)"
proof -
  have h: "SecurityAllocator (zero_config\<lparr>Controllers := [''*'']\<rparr>) = SecurityAllocator zero_config" by simp
  show ?thesis using default_allocation_separates [OF h refl] h by blast
qed

text \<open>C34: A start with the default configuration. When no configuration is given, the API server answers 200
  within the polls before the time-out, and no initializer fails, the run starts each of the controllers exactly
  once, in the order the initializers are visited, and the informers only after all of them.\<close>

theorem default_start:
  assumes "200 \<in> set polls"
    and "\<And>name s. snd (fst (init name s)) = None"
    and "distinct order" and "set order = set ControllerInitializers"
  shows "RunClusterPolicyController decode None None polls None init order startInformers s =
    (Running, startInformers (fold (\<lambda>name s. snd (init name s)) order s))"
proof -
  have "WaitForHealthyAPIServer polls" using assms(1) by (induction polls) auto
  then show ?thesis
    using assms(2,4) startControllers_all [of init] filter_default_enabled [of order]
    by (simp add: RunClusterPolicyController_def asOpenshiftControllerManagerConfig_def)
qed

theorem default_start_witness:
  "RunClusterPolicyController (\<lambda>raw :: unit. Inl (0 :: nat)) None None [503, 200] None
     (\<lambda>name started. ((True, None), started @ [name])) ControllerInitializers (\<lambda>s. s @ [''informers'']) [] =
   (Running, ControllerInitializers @ [''informers''])"
proof -
  have "distinct ControllerInitializers" by (simp add: ControllerInitializers_def)
  from default_start [OF _ _ this refl, of "[503, 200]" "\<lambda>name started. ((True, None), started @ [name])"
      "\<lambda>raw :: unit. Inl (0 :: nat)" "\<lambda>s. s @ [''informers'']" "[]"]
  show ?thesis by (simp add: ControllerInitializers_def)
qed

end
