(* ===== verification/Scc_Run.thy ===== *)
theory Scc_Run
  imports Controller_Start
begin

text \<open>
  The namespace SCC allocation controller as a whole (\<open>namespace_scc_allocation_controller.go\<close>): its event handlers,
  the initial and the periodic repair, the work queue and its workers (theory \<open>Worker\<close>) and \<open>sync\<close> (theory
  \<open>Scc_Allocation\<close>). The controller is an instance of the locale \<open>reconciler\<close>: once its queue is at rest, every
  namespace of the lister has a UID range, or a patch with one was sent for it. Theory \<open>Scc_Safety\<close> shows that no two
  namespaces get the same range.
\<close>

section \<open>The controller and its surroundings\<close>

text \<open>The calls of the API server, over a state of its own; the controller's own state is part of the world.\<close>

record 'a scc_server =
  ss_raGet :: "'a \<Rightarrow> string \<Rightarrow> api_error + range_allocation"
  ss_raUpdate :: "'a \<Rightarrow> range_allocation \<Rightarrow> (api_error + range_allocation) \<times> 'a"
  ss_raCreate :: "'a \<Rightarrow> range_allocation \<Rightarrow> (api_error + range_allocation) \<times> 'a"
  ss_nsApply :: "'a \<Rightarrow> ns_apply \<Rightarrow> string \<Rightarrow> (api_error + namespace) \<times> 'a"

record 'a scc_world =
  sw_nsc :: nsc
  sw_namespaces :: "namespace list"
  sw_api :: 'a

definition on_api :: "('a \<Rightarrow> 'r \<times> 'a) \<Rightarrow> 'a scc_world \<Rightarrow> 'r \<times> 'a scc_world" where
  "on_api f w = (case f (sw_api w) of (r, a) \<Rightarrow> (r, w\<lparr>sw_api := a\<rparr>))"

definition scc_client :: "'a scc_server \<Rightarrow> 'a scc_world nsc_client" where
  "scc_client sv =
     \<lparr>ra_Get = \<lambda>w. ss_raGet sv (sw_api w),
      ra_Update = \<lambda>w ra. on_api (\<lambda>a. ss_raUpdate sv a ra) w,
      ra_Create = \<lambda>w ra. on_api (\<lambda>a. ss_raCreate sv a ra) w,
      ns_Apply = \<lambda>w p m. on_api (\<lambda>a. ss_nsApply sv a p m) w,
      ns_Get = \<lambda>w. get_of (sw_namespaces w),
      ns_List = \<lambda>w. Inr (sw_namespaces w)\<rparr>"

text \<open>
  \<open>sync\<close> on the world. During the initial repair the API server may change (\<open>env\<close>). A repair that times out ends
  the process; here it is a sync that fails.
\<close>

definition sw_sync :: "'a scc_server \<Rightarrow> (nat \<Rightarrow> bool) \<Rightarrow> (nat \<Rightarrow> 'a \<Rightarrow> 'a) \<Rightarrow> nat \<Rightarrow> 'a scc_world \<Rightarrow> string \<Rightarrow>
    nsc_error option \<times> 'a scc_world" where
  "sw_sync sv ctxDone env attempts w k =
     (case sync (scc_client sv) ctxDone (\<lambda>i w. w\<lparr>sw_api := env i (sw_api w)\<rparr>) attempts k (sw_nsc w) w of
        (out, c', w') \<Rightarrow> ((case out of Returned e \<Rightarrow> e | Fatal e \<Rightarrow> Some e), w'\<lparr>sw_nsc := c'\<rparr>))"

text \<open>The keys of an event: the handlers for additions and updates enqueue the namespace, there is none for deletions.\<close>

fun scc_keys :: "informer_event \<Rightarrow> string list" where
  "scc_keys (OnAdd (NamespaceO ns)) = [asNamespaceNameKey (ns_Name ns)]"
| "scc_keys (OnUpdate old (NamespaceO ns)) = [asNamespaceNameKey (ns_Name ns)]"
| "scc_keys _ = []"

lemma scc_keys_handlers:
  "enqueueKeys (scc_keys (OnAdd (NamespaceO ns))) q = enqueueNamespace (Some ns) q"
  "enqueueKeys (scc_keys (OnUpdate old (NamespaceO ns))) q = enqueueNamespace (Some ns) q"
  by (simp_all add: enqueueKeys_def enqueueNamespace_def)

text \<open>Names as the API server admits them.\<close>

definition wf_name :: "string \<Rightarrow> bool" where
  "wf_name n \<longleftrightarrow> n \<noteq> [] \<and> CHR ''/'' \<notin> set n"

inductive scc_env :: "'a scc_world \<Rightarrow> string list \<Rightarrow> 'a scc_world \<Rightarrow> bool" where
  namespaces: "ns_event (sw_namespaces w) e nss \<Longrightarrow> \<forall>ns \<in> set nss. wf_name (ns_Name ns) \<Longrightarrow>
    scc_env w (scc_keys e) (w\<lparr>sw_namespaces := nss\<rparr>)"
| initial: "scc_env w [initialRepairKey] w"
| periodic: "scc_env w [DefaultQueueKey] w"
| api: "scc_env w [] (w\<lparr>sw_api := a\<rparr>)"

section \<open>What a sync leaves alone\<close>

lemma on_api_frame: "on_api f w = (r, w') \<Longrightarrow> sw_namespaces w' = sw_namespaces w"
  by (auto simp: on_api_def split: prod.splits)

lemma allocate_frame: "allocate (scc_client sv) c w ns = (e, c', w') \<Longrightarrow> sw_namespaces w' = sw_namespaces w"
  unfolding allocate_def scc_client_def Let_def
  by (auto split: sum.splits option.splits if_splits prod.splits api_error.splits dest!: on_api_frame)

lemma syncNamespace_frame:
  assumes "syncNamespace (scc_client sv) c w name = (e, c', w')"
  shows "sw_namespaces w' = sw_namespaces w"
proof -
  have "w' = w \<or> (\<exists>ns e1 c1. allocate (scc_client sv) c w ns = (e1, c1, w'))"
    using assms unfolding syncNamespace_def
    by (auto split: sum.splits api_error.splits if_splits option.splits nsc_error.splits prod.splits)
  then show ?thesis using allocate_frame by blast
qed

lemma Repair_frame: "Repair (scc_client sv) c w = (e, c', w') \<Longrightarrow> sw_namespaces w' = sw_namespaces w"
  unfolding Repair_def scc_client_def Let_def
  by (auto split: sum.splits if_splits prod.splits api_error.splits nsc_error.splits dest!: on_api_frame)

lemma WaitForRepair_frame:
  "WaitForRepair (scc_client sv) ctxDone (\<lambda>i w. w\<lparr>sw_api := env i (sw_api w)\<rparr>) n c w = (e, c', w') \<Longrightarrow>
   sw_namespaces w' = sw_namespaces w"
  by (induction n arbitrary: c w) (auto split: if_splits prod.splits option.splits dest!: Repair_frame)

lemma sw_sync_frame: "sw_namespaces (snd (sw_sync sv ctxDone env attempts w k)) = sw_namespaces w"
  unfolding sw_sync_def sync_def
  by (auto split: if_splits prod.splits option.splits dest!: WaitForRepair_frame Repair_frame syncNamespace_frame)

section \<open>The controller as a reconciler\<close>

definition scc_ok :: "'a scc_world \<Rightarrow> bool" where
  "scc_ok w \<longleftrightarrow> distinct (map ns_Name (sw_namespaces w)) \<and> (\<forall>ns \<in> set (sw_namespaces w). wf_name (ns_Name ns))"

definition scc_wanted :: "'a scc_world \<Rightarrow> string \<Rightarrow> bool" where
  "scc_wanted w k \<longleftrightarrow> (\<exists>ns \<in> set (sw_namespaces w). asNamespaceNameKey (ns_Name ns) = k)"

definition scc_sees :: "'a scc_world \<Rightarrow> string \<Rightarrow> namespace set" where
  "scc_sees w k = {ns \<in> set (sw_namespaces w). asNamespaceNameKey (ns_Name ns) = k}"

lemma asNamespaceNameKey_inj: "asNamespaceNameKey n = asNamespaceNameKey m \<longleftrightarrow> n = m"
  by (simp add: asNamespaceNameKey_def)

lemma scc_sees_single:
  "scc_ok w \<Longrightarrow> ns \<in> set (sw_namespaces w) \<Longrightarrow> scc_sees w (asNamespaceNameKey (ns_Name ns)) = {ns}"
  by (auto simp: scc_sees_def scc_ok_def asNamespaceNameKey_inj distinct_map inj_on_def)

lemma scc_keys_carried: "carries e ns \<Longrightarrow> asNamespaceNameKey (ns_Name ns) \<in> set (scc_keys e)"
  by (auto simp: carries_def)

lemma scc_env_ok: "scc_env w keys w' \<Longrightarrow> scc_ok w \<Longrightarrow> scc_ok w'"
  by (induction rule: scc_env.induct) (simp_all add: scc_ok_def ns_event_distinct)

lemma scc_env_covers:
  assumes "scc_ok w" "scc_env w keys w'" "scc_wanted w' k" "k \<notin> set keys"
  shows "scc_wanted w k \<and> scc_sees w' k = scc_sees w k"
  using assms(2)
proof (cases rule: scc_env.cases)
  case (namespaces e nss)
  obtain ns where ns: "ns \<in> set nss" "asNamespaceNameKey (ns_Name ns) = k"
    using assms(3) namespaces(2) by (auto simp: scc_wanted_def)
  then have "\<not> carries e ns" using scc_keys_carried assms(4) namespaces(1) by blast
  then have old: "ns \<in> set (sw_namespaces w)" using ns_event_members [OF namespaces(3) ns(1)] by blast
  have "ns \<in> set (sw_namespaces w')" using ns(1) namespaces(2) by simp
  then have "scc_sees w' k = {ns}" using scc_sees_single [OF scc_env_ok [OF assms(2,1)]] ns(2) by blast
  moreover have "scc_sees w k = {ns}" using scc_sees_single [OF assms(1) old] ns(2) by blast
  ultimately show ?thesis using old ns(2) unfolding scc_wanted_def by blast
qed (use assms(3) in \<open>simp_all add: scc_wanted_def scc_sees_def\<close>)

interpretation sw: reconciler "sw_sync sv ctxDone env attempts" scc_env scc_ok scc_wanted scc_sees
  for sv :: "'a scc_server" and ctxDone env attempts
  by unfold_locales (blast intro: scc_env_ok | blast dest: scc_env_covers | simp add: scc_ok_def scc_wanted_def scc_sees_def sw_sync_frame)+

text \<open>An allocation without error applied the annotations of a block, or found the namespace gone.\<close>

lemma allocate_applied:
  assumes "fst (allocate cl c w ns) = None"
  shows "\<exists>ra actual w1 b r w2. ra_Update cl w ra = (Inr actual, w1) \<and> ns_Apply cl w1 (scc_patch c ns b) fieldManager = (r, w2) \<and> (r = Inl NotFound \<or> (\<exists>n. r = Inr n))"
  using assms unfolding allocate_def Let_def
  by (auto split: sum.splits option.splits if_splits prod.splits api_error.splits) blast+

text \<open>C18: Every namespace gets its range. However namespace events, the repairs, workers, retries and changes at
  the API server interleave from the start: once the queue is at rest, each namespace of the lister carries a UID
  range, or \<open>allocate\<close> has run on exactly this object of the lister without an error: the API server stored the range
  object and then accepted a patch with the annotations of a block, unless it found the namespace gone.\<close>

theorem every_namespace_gets_range:
  assumes "(run_step (sw_sync sv ctxDone env attempts) scc_env)\<^sup>*\<^sup>*
      (run_start \<lparr>sw_nsc = c0, sw_namespaces = [], sw_api = a0\<rparr>) (q, w, res, seen)"
    and "at_rest q" and "ns \<in> set (sw_namespaces w)" and "ns_Annotations ns UIDRangeAnnotation = None"
  shows "\<exists>w1 ra actual a b r a'. seen (asNamespaceNameKey (ns_Name ns)) = Some w1 \<and> ns \<in> set (sw_namespaces w1) \<and>
    fst (allocate (scc_client sv) (sw_nsc w1) w1 ns) = None \<and> ss_raUpdate sv (sw_api w1) ra = (Inr actual, a) \<and>
    ss_nsApply sv a (scc_patch (sw_nsc w1) ns b) fieldManager = (r, a') \<and> (r = Inl NotFound \<or> (\<exists>n. r = Inr n))"
proof -
  let ?k = "asNamespaceNameKey (ns_Name ns)" and ?w0 = "\<lparr>sw_nsc = c0, sw_namespaces = [], sw_api = a0\<rparr>"
  have start: "scc_ok ?w0" "\<forall>k. \<not> scc_wanted ?w0 k" by (simp_all add: scc_ok_def scc_wanted_def)
  have "sw.run_inv sv ctxDone env attempts (q, w, res, seen)"
    by (rule sw.run_inv_reachable [OF assms(1) sw.run_inv_start [OF start]])
  then have ok: "scc_ok w" by (simp add: sw.run_inv_def)
  have "scc_wanted w ?k" using assms(3) unfolding scc_wanted_def by blast
  from sw.rest_in_order [OF start assms(1,2) this]
  obtain w1 where w1: "seen ?k = Some w1" "scc_ok w1" "fst (sw_sync sv ctxDone env attempts w1 ?k) = None" "scc_sees w1 ?k = scc_sees w ?k"
    by blast
  have "scc_sees w1 ?k = {ns}" using w1(4) scc_sees_single [OF ok assms(3)] by simp
  then have ns: "ns \<in> set (sw_namespaces w1)" unfolding scc_sees_def by blast
  then have get: "get_of (sw_namespaces w1) (ns_Name ns) = Inr ns"
    using find_name [of "sw_namespaces w1" "ns_Name ns" ns] w1(2) by (simp add: scc_ok_def get_of_def)
  have name: "ns_Name ns \<noteq> []" "CHR ''/'' \<notin> set (ns_Name ns)" using ns w1(2) by (auto simp: scc_ok_def wf_name_def)
  have al: "fst (allocate (scc_client sv) (sw_nsc w1) w1 ns) = None"
    using w1(3) namespace_key_roundtrip [OF name] get assms(4)
    by (auto simp: sw_sync_def sync_def syncNamespace_def scc_client_def split: prod.splits option.splits nsc_error.splits api_error.splits)
  from allocate_applied [OF this] obtain ra actual w2 b r w3 where
    up: "ra_Update (scc_client sv) w1 ra = (Inr actual, w2)"
    and ap: "ns_Apply (scc_client sv) w2 (scc_patch (sw_nsc w1) ns b) fieldManager = (r, w3)" "r = Inl NotFound \<or> (\<exists>n. r = Inr n)"
    by blast
  obtain a where a: "ss_raUpdate sv (sw_api w1) ra = (Inr actual, a)" "w2 = w1\<lparr>sw_api := a\<rparr>"
    using up by (auto simp: scc_client_def on_api_def split: prod.splits)
  moreover obtain a' where "ss_nsApply sv a (scc_patch (sw_nsc w1) ns b) fieldManager = (r, a')"
    using ap(1) a(2) by (auto simp: scc_client_def on_api_def split: prod.splits)
  ultimately show ?thesis using w1(1) ns al ap(2) by blast
qed

section \<open>Examples\<close>

text \<open>A namespace appears, and is given the first block of an empty range.\<close>

definition ex_range_server :: "unit scc_server" where
  "ex_range_server =
     \<lparr>ss_raGet = \<lambda>a name. Inr \<lparr>ra_Name = rangeName, ra_ResourceVersion = 1, ra_Range = ''1000-1999/100'', ra_Data = []\<rparr>,
      ss_raUpdate = \<lambda>a ra. (Inr ra, a), ss_raCreate = \<lambda>a ra. (Inr ra, a),
      ss_nsApply = \<lambda>a p m. (Inr (ex_ns\<lparr>ns_Annotations := na_Annotations p\<rparr>), a)\<rparr>"

definition ex_bare :: namespace where
  "ex_bare = ex_ns\<lparr>ns_Annotations := Map.empty\<rparr>"

definition ex_sw :: "namespace list \<Rightarrow> unit scc_world" where
  "ex_sw nss = \<lparr>sw_nsc = \<lparr>requiredUIDRange = \<lparr>rng_block = \<lparr>blk_Start = 1000, blk_End = 1999\<rparr>, rng_size = 100\<rparr>,
     mcsAllocator = (\<lambda>_. None), currentUIDRangeAllocation = None, recorded = []\<rparr>, sw_namespaces = nss, sw_api = ()\<rparr>"

abbreviation ex_sw_sync :: "unit scc_world \<Rightarrow> string \<Rightarrow> nsc_error option \<times> unit scc_world" where
  "ex_sw_sync \<equiv> sw_sync ex_range_server (\<lambda>_. False) (\<lambda>_ a. a) 1"

definition ex_sw_after :: "unit scc_world" where
  "ex_sw_after = snd (ex_sw_sync (ex_sw [ex_bare]) ''ns/app'')"

lemma ex_sw_run:
  "(run_step ex_sw_sync scc_env)\<^sup>*\<^sup>* (run_start (ex_sw [])) (rl_New, ex_sw_after, Map.empty, [''ns/app'' \<mapsto> ex_sw [ex_bare]])"
  unfolding run_start_def
proof (rule run_one_key)
  have "ns_event [] (OnAdd (NamespaceO ex_bare)) ([] @ [ex_bare])" by (rule ns_event.added) simp
  then have "scc_env (ex_sw []) (scc_keys (OnAdd (NamespaceO ex_bare))) ((ex_sw [])\<lparr>sw_namespaces := [ex_bare]\<rparr>)"
    by (intro scc_env.namespaces) (simp_all add: ex_sw_def ex_bare_def ex_ns_def wf_name_def)
  then show "scc_env (ex_sw []) [''ns/app''] (ex_sw [ex_bare])"
    by (simp add: ex_bare_def ex_ns_def ex_sw_def asNamespaceNameKey_def namespaceNameKeyPrefix_def)
  have "fst (ex_sw_sync (ex_sw [ex_bare]) ''ns/app'') = None" by code_simp
  then show "ex_sw_sync (ex_sw [ex_bare]) ''ns/app'' = (None, ex_sw_after)"
    unfolding ex_sw_after_def by (metis prod.collapse)
qed

theorem every_namespace_gets_range_witness:
  "\<exists>w1 ra actual a b r a'. [''ns/app'' \<mapsto> ex_sw [ex_bare]] (asNamespaceNameKey (ns_Name ex_bare)) = Some w1 \<and>
    ex_bare \<in> set (sw_namespaces w1) \<and> fst (allocate (scc_client ex_range_server) (sw_nsc w1) w1 ex_bare) = None \<and>
    ss_raUpdate ex_range_server (sw_api w1) ra = (Inr actual, a) \<and>
    ss_nsApply ex_range_server a (scc_patch (sw_nsc w1) ex_bare b) fieldManager = (r, a') \<and>
    (r = Inl NotFound \<or> (\<exists>n. r = Inr n))"
proof (rule every_namespace_gets_range [OF _ at_rest_New])
  show "(run_step ex_sw_sync scc_env)\<^sup>*\<^sup>* (run_start \<lparr>sw_nsc = sw_nsc (ex_sw []), sw_namespaces = [], sw_api = ()\<rparr>)
      (rl_New, ex_sw_after, Map.empty, [''ns/app'' \<mapsto> ex_sw [ex_bare]])"
    using ex_sw_run by (simp add: ex_sw_def)
  show "ex_bare \<in> set (sw_namespaces ex_sw_after)" unfolding ex_sw_after_def sw_sync_frame by (simp add: ex_sw_def)
qed (simp add: ex_bare_def)

end
