(* ===== verification/Psa_Run.thy ===== *)
theory Psa_Run
  imports Privileged_Namespaces
begin

text \<open>
  The pod security controller as a whole: the role cache (theory \<open>Scc_Role_Cache\<close>), the event handlers (theory
  \<open>Controller_Events\<close>), the work queue and its workers (theory \<open>Worker\<close>) and \<open>sync\<close> (theory \<open>Psa_Label_Sync\<close>),
  composed as \<open>newPodSecurityAdmissionLabelSynchronizationController\<close> composes them. The controller is an
  instance of the locale \<open>reconciler\<close>: every event that changes which SCCs the service accounts of a controlled
  namespace can reach enqueues that namespace, and so, at rest, each such namespace was last synced to the level
  that its present permissions ask for.

  Two events are left out because the code does not react to them: the update of an SCC
  (lemma \<open>scc_update_unnoticed\<close>) and a deletion that reaches the handlers as a tombstone (lemmas
  \<open>tombstone_keeps_role\<close> and \<open>tombstone_binding_ignored\<close>).
\<close>

section \<open>The controller and its surroundings\<close>

text \<open>The writing calls of the API server, over a state of its own.\<close>

record 'a psa_server =
  sv_Extract :: "namespace \<Rightarrow> string \<Rightarrow> string + ns_apply"
  sv_Update :: "'a \<Rightarrow> namespace \<Rightarrow> string \<Rightarrow> (api_error + namespace) \<times> 'a"
  sv_Apply :: "'a ns_applier"

text \<open>
  The stores behind the listers, the role cache, the state of the API server, and the iteration orders that Go
  chooses at present.
\<close>

record 'a psa_world =
  pw_store :: store
  pw_cache :: saToSCCCache
  pw_namespaces :: "namespace list"
  pw_sas :: "string \<Rightarrow> string list"
  pw_api :: 'a
  pw_ord :: "string \<Rightarrow> extractedNamespaces \<Rightarrow> extractedNamespaces"
  pw_unsorted :: "string set \<Rightarrow> string list"

definition scc_of :: "scc list \<Rightarrow> string \<Rightarrow> api_error + scc" where
  "scc_of sccs name = (case find (\<lambda>s. scc_Name s = name) sccs of None \<Rightarrow> Inl NotFound | Some s \<Rightarrow> Inr s)"

definition client_of :: "'a psa_server \<Rightarrow> 'a psa_world psa_client" where
  "client_of sv =
     \<lparr>pc_nsGet = \<lambda>w. get_of (pw_namespaces w),
      pc_saList = \<lambda>w n. Inr (pw_sas w n),
      pc_sccGet = \<lambda>w. scc_of (st_sccs (pw_store w)),
      pc_SCCsFor = \<lambda>w. SCCsFor (listers_of (pw_store w)) (pw_cache w),
      pc_Extract = sv_Extract sv,
      pc_Update = \<lambda>w n m. (case sv_Update sv (pw_api w) n m of (r, a) \<Rightarrow> (r, w\<lparr>pw_api := a\<rparr>)),
      pc_Apply = \<lambda>w p m force. (case sv_Apply sv (pw_api w) p m force of (r, a) \<Rightarrow> (r, w\<lparr>pw_api := a\<rparr>))\<rparr>"

definition pw_sync :: "'a psa_server \<Rightarrow> (string \<times> string) list \<Rightarrow> 'a psa_world \<Rightarrow> string \<Rightarrow> sync_error option \<times> 'a psa_world" where
  "pw_sync sv syn w k = psa_sync (client_of sv) (pw_unsorted w) (pw_ord w) syn w k"

definition pw_view :: "'a psa_world \<Rightarrow> psa_view" where
  "pw_view w = \<lparr>vw_ord = pw_ord w, vw_nsGet = get_of (pw_namespaces w), vw_nsList = Inr (pw_namespaces w),
     vw_listers = listers_of (pw_store w), vw_cache = pw_cache w\<rparr>"

section \<open>Events\<close>

text \<open>Events of the informers of roles and SCCs that reach a handler of the cache.\<close>

fun policy_event :: "event \<Rightarrow> bool" where
  "policy_event (UpdateScc s) = False"
| "policy_event (SetBindings bs cbs) = False"
| "policy_event _ = True"

text \<open>The keys that the cache's external queue function enqueues for what a handler handed to it.\<close>

definition cache_keys :: "'a psa_world \<Rightarrow> saToSCCCache \<Rightarrow> string list" where
  "cache_keys w c' = concat (map (queueKeysForObj (pw_ord w) (get_of (pw_namespaces w)) (Inr (pw_namespaces w)))
     (drop (length (enqueued (pw_cache w))) (enqueued c')))"

text \<open>Bindings as the API server admits them.\<close>

fun wf_rb :: "roleBindingObj \<Rightarrow> bool" where
  "wf_rb (RoleBinding b) \<longleftrightarrow> bi_Namespace b \<noteq> [] \<and> CHR ''/'' \<notin> set (bi_Namespace b) \<and>
     (rr_Kind (bi_RoleRef b) = ''Role'' \<or> rr_Kind (bi_RoleRef b) = ''ClusterRole'')"
| "wf_rb (ClusterRoleBinding b) \<longleftrightarrow> bi_Namespace b = [] \<and> rr_Kind (bi_RoleRef b) = ''ClusterRole''"

fun rb_object :: "roleBindingObj \<Rightarrow> object" where
  "rb_object (RoleBinding b) = RoleBindingO b"
| "rb_object (ClusterRoleBinding b) = ClusterRoleBindingO b"

text \<open>One binding is added, deleted, or replaced by one of the same kind and namespace.\<close>

inductive binding_event :: "store \<Rightarrow> informer_event \<Rightarrow> store \<Rightarrow> bool" where
  added: "wf_rb (RoleBinding b) \<Longrightarrow> binding_event st (OnAdd (RoleBindingO b)) (st\<lparr>st_roleBindings := st_roleBindings st @ [b]\<rparr>)"
| updated: "wf_rb (RoleBinding b) \<Longrightarrow> st_roleBindings st = xs @ old # ys \<Longrightarrow> bi_Namespace b = bi_Namespace old \<Longrightarrow>
    binding_event st (OnUpdate (RoleBindingO old) (RoleBindingO b)) (st\<lparr>st_roleBindings := xs @ b # ys\<rparr>)"
| deleted: "st_roleBindings st = xs @ old # ys \<Longrightarrow>
    binding_event st (OnDelete (RoleBindingO old)) (st\<lparr>st_roleBindings := xs @ ys\<rparr>)"
| cluster_added: "wf_rb (ClusterRoleBinding b) \<Longrightarrow>
    binding_event st (OnAdd (ClusterRoleBindingO b)) (st\<lparr>st_clusterRoleBindings := st_clusterRoleBindings st @ [b]\<rparr>)"
| cluster_updated: "wf_rb (ClusterRoleBinding b) \<Longrightarrow> st_clusterRoleBindings st = xs @ old # ys \<Longrightarrow>
    binding_event st (OnUpdate (ClusterRoleBindingO old) (ClusterRoleBindingO b)) (st\<lparr>st_clusterRoleBindings := xs @ b # ys\<rparr>)"
| cluster_deleted: "st_clusterRoleBindings st = xs @ old # ys \<Longrightarrow>
    binding_event st (OnDelete (ClusterRoleBindingO old)) (st\<lparr>st_clusterRoleBindings := xs @ ys\<rparr>)"

inductive sa_event :: "(string \<Rightarrow> string list) \<Rightarrow> informer_event \<Rightarrow> (string \<Rightarrow> string list) \<Rightarrow> bool" where
  added: "sa_event sas (OnAdd (ServiceAccountO ns name)) (sas(ns := sas ns @ [name]))"
| updated: "sa_event sas (OnUpdate (ServiceAccountO ns name) (ServiceAccountO ns name)) sas"
| deleted: "sa_event sas (OnDelete (ServiceAccountO ns name)) (sas(ns := filter (\<lambda>n. n \<noteq> name) (sas ns)))"
| missed: "sa_event sas (OnDelete (Tombstone (ServiceAccountO ns name))) (sas(ns := filter (\<lambda>n. n \<noteq> name) (sas ns)))"

definition valid_ord :: "(string \<Rightarrow> extractedNamespaces \<Rightarrow> extractedNamespaces) \<Rightarrow> bool" where
  "valid_ord ord \<longleftrightarrow> (\<forall>l ex. set (ord l ex) = set ex)"

definition valid_unsorted :: "(string set \<Rightarrow> string list) \<Rightarrow> bool" where
  "valid_unsorted u \<longleftrightarrow> (\<forall>T. finite T \<longrightarrow> set (u T) = T)"

text \<open>An event of one of the informers with the keys it enqueues, a change at the API server, other orders.\<close>

inductive psa_env :: "'a psa_world \<Rightarrow> string list \<Rightarrow> 'a psa_world \<Rightarrow> bool" where
  policy: "policy_event e \<Longrightarrow> wf_event e \<Longrightarrow> cache_step e (pw_store w, pw_cache w) = (st, c) \<Longrightarrow>
    psa_env w (cache_keys w c) (w\<lparr>pw_store := st, pw_cache := c\<rparr>)"
| binding: "binding_event (pw_store w) e st \<Longrightarrow> w' = w\<lparr>pw_store := st\<rparr> \<Longrightarrow>
    psa_handler (pw_view w') Bindings e = Some keys \<Longrightarrow> psa_env w keys w'"
| namespace: "ns_event (pw_namespaces w) e nss \<Longrightarrow> w' = w\<lparr>pw_namespaces := nss\<rparr> \<Longrightarrow>
    psa_handler (pw_view w') Namespaces e = Some keys \<Longrightarrow> psa_env w keys w'"
| service_account: "sa_event (pw_sas w) e sas \<Longrightarrow> w' = w\<lparr>pw_sas := sas\<rparr> \<Longrightarrow>
    psa_handler (pw_view w') ServiceAccounts e = Some keys \<Longrightarrow> psa_env w keys w'"
| api: "psa_env w [] (w\<lparr>pw_api := a\<rparr>)"
| orders: "valid_ord ord \<Longrightarrow> valid_unsorted u \<Longrightarrow> psa_env w [] (w\<lparr>pw_ord := ord, pw_unsorted := u\<rparr>)"

section \<open>What is granted changes only with an event that is noticed\<close>

definition psa_ok :: "'a psa_world \<Rightarrow> bool" where
  "psa_ok w \<longleftrightarrow> distinct (map ns_Name (pw_namespaces w)) \<and> wf_store (pw_store w) \<and> coherent (pw_store w) (pw_cache w) \<and>
     hasExternalQueue (pw_cache w) \<and> (\<forall>rb \<in> bindings (pw_store w). wf_rb rb) \<and> valid_ord (pw_ord w) \<and>
     valid_unsorted (pw_unsorted w)"

lemma granted_same:
  assumes "wf_store st" "coherent st c" "wf_store st'" "coherent st' c'"
    and "st_sccs st' = st_sccs st" "bindings st' = bindings st"
    and "\<And>rb. rb \<in> bindings st \<Longrightarrow> in_force ns (realSAUserInfo ns sa) rb \<Longrightarrow>
      cached c' (binding_key rb) = cached c (binding_key rb)"
  shows "granted st' ns sa = granted st ns sa"
  unfolding granted_cached [OF assms(1,2)] granted_cached [OF assms(3,4)] assms(5,6) using assms(7) by auto

text \<open>The key of a binding that is in force in \<open>ns\<close> is that of a cluster role or of a role in \<open>ns\<close>.\<close>

lemma in_force_key:
  assumes "rb \<in> bindings st" "wf_store st" "in_force ns ui rb" "binding_key rb = usefulRolesKey r"
    and "CHR ''/'' \<notin> set (role_Namespace r)"
  shows "role_Namespace r = [] \<or> role_Namespace r = ns"
proof -
  define n where "n = (if rr_Kind (rb_RoleRef rb) = ''Role'' then rb_Namespace rb else [])"
  have "CHR ''/'' \<notin> set n" using assms(1,2) by (auto simp: n_def wf_store_def bindings_def)
  moreover have "n @ CHR ''/'' # rr_Name (rb_RoleRef rb) = role_Namespace r @ CHR ''/'' # role_Name r"
    using assms(4) by (simp add: n_def usefulRolesKey_def binding_key_def)
  ultimately have "role_Namespace r = n" using append_slash_eq [OF _ assms(5), of n] by simp
  then show ?thesis using assms(3) by (auto simp: n_def in_force_def)
qed

text \<open>What a handler hands to the external queue when it changes the SCCs of a role.\<close>

lemma modified_enqueued:
  assumes "hasExternalQueue c" "NewRoleObj obj = Some r" "li_sccs li = Inr sccs"
  shows "enqueued (handleRoleModified li obj c) = enqueued c @ [RoleObjO r] \<or>
    cached (handleRoleModified li obj c) = cached c"
proof (cases "cached c (usefulRolesKey r) = cached (syncRoleCache r sccs c) (usefulRolesKey r)")
  case True
  have "cached (handleRoleModified li obj c) k = cached c k" for k
    using True by (cases "k = usefulRolesKey r")
      (simp_all add: cached_handleRoleModified [OF assms(3,2)] cached_syncRoleCache)
  then show ?thesis by blast
next
  case False
  then show ?thesis using assms
    by (simp add: handleRoleModified_def Let_def addToExternalJobQueue_def) (simp add: syncRoleCache_def)
qed

lemma removed_enqueued:
  assumes "hasExternalQueue c" "NewRoleObj obj = Some r"
  shows "enqueued (handleRoleRemoved obj c) = enqueued c @ [obj] \<or> cached (handleRoleRemoved obj c) = cached c"
  using assms by (simp add: handleRoleRemoved_def addToExternalJobQueue_def)

definition noticed :: "saToSCCCache \<Rightarrow> saToSCCCache \<Rightarrow> string \<Rightarrow> bool" where
  "noticed c c' ns \<longleftrightarrow> (\<exists>obj. enqueued c' = enqueued c @ [obj] \<and>
     (object_namespace obj = Some [] \<or> object_namespace obj = Some ns))"

lemma role_event_granted:
  assumes "wf_store st" "coherent st c" "wf_store st'" "coherent st' c'"
    and "st_sccs st' = st_sccs st" "bindings st' = bindings st" "CHR ''/'' \<notin> set (role_Namespace r)"
    and "\<And>k. k \<noteq> usefulRolesKey r \<Longrightarrow> cached c' k = cached c k"
    and "cached c' = cached c \<or> enqueued c' = enqueued c @ [obj]" "object_namespace obj = Some (role_Namespace r)"
  shows "granted st' ns = granted st ns \<or> noticed c c' ns"
proof (cases "noticed c c' ns")
  case False
  have "cached c' (binding_key rb) = cached c (binding_key rb)"
    if "rb \<in> bindings st" "in_force ns (realSAUserInfo ns sa) rb" for sa rb
  proof (cases "cached c' = cached c")
    case neq: False
    then have "role_Namespace r \<noteq> []" "role_Namespace r \<noteq> ns" using False assms(9,10) by (auto simp: noticed_def)
    then have "binding_key rb \<noteq> usefulRolesKey r" using in_force_key [OF that(1) assms(1) that(2) _ assms(7)] by blast
    then show ?thesis by (rule assms(8))
  qed simp
  then have "granted st' ns sa = granted st ns sa" for sa using granted_same [OF assms(1-6)] by blast
  then show ?thesis by blast
qed simp

lemma handle_other_key:
  assumes "NewRoleObj obj = Some r" "k \<noteq> usefulRolesKey r"
  shows "cached (handleRoleModified (listers_of st) obj c) k = cached c k" "cached (handleRoleRemoved obj c) k = cached c k"
  using assms(2) by (simp_all add: cached_handleRoleModified [OF _ assms(1)] cached_handleRoleRemoved [OF assms(1)]
      cached_syncRoleCache listers_of_def)

lemma listers_of_sccs: "li_sccs (listers_of st) = Inr (st_sccs st)"
  by (simp add: listers_of_def)

lemma modified_noticed:
  assumes "wf_store st" "coherent st c" "wf_store st'" "coherent st' c'" "st_sccs st' = st_sccs st" "bindings st' = bindings st"
    and "hasExternalQueue c" "NewRoleObj obj = Some r" "CHR ''/'' \<notin> set (role_Namespace r)"
    and "c' = handleRoleModified (listers_of st') obj c"
  shows "granted st' ns = granted st ns \<or> noticed c c' ns"
  by (rule role_event_granted [OF assms(1-6,9), where obj = "RoleObjO r"])
    (use assms(10) modified_enqueued [OF assms(7,8) listers_of_sccs [of st']] in \<open>auto simp: handle_other_key [OF assms(8)]\<close>)

lemma removed_noticed:
  assumes "wf_store st" "coherent st c" "wf_store st'" "coherent st' c'" "st_sccs st' = st_sccs st" "bindings st' = bindings st"
    and "hasExternalQueue c" "NewRoleObj obj = Some r" "CHR ''/'' \<notin> set (role_Namespace r)"
    and "c' = handleRoleRemoved obj c" "object_namespace obj = Some (role_Namespace r)"
  shows "granted st' ns = granted st ns \<or> noticed c c' ns"
  by (rule role_event_granted [OF assms(1-6,9) _ _ assms(11)])
    (use assms(10) removed_enqueued [OF assms(7,8)] in \<open>auto simp: handle_other_key [OF assms(8)]\<close>)

lemma policy_event_noticed:
  assumes "policy_event e" "wf_event e" "wf_store st" "coherent st c" "hasExternalQueue c"
    and "cache_step e (st, c) = (st', c')"
  shows "(st_sccs st' = st_sccs st \<and> granted st' ns = granted st ns) \<or> noticed c c' ns"
proof -
  have st': "st' = store_step e st" "c' = dispatch (listers_of st') e c"
    using assms(6) by (auto simp: cache_step_def Let_def)
  have ok: "wf_store st'" "coherent st' c'" using coherent_step [OF assms(3,2,4,6)] by auto
  note mo = modified_noticed [OF assms(3,4) ok _ _ assms(5)] and re = removed_noticed [OF assms(3,4) ok _ _ assms(5)]
  show ?thesis
  proof (cases e)
    case (SetRole r)
    then show ?thesis using mo [of "RoleO r" "Role r" ns] st' assms(2) by (simp add: bindings_def NewRoleObj_def)
  next
    case (SetClusterRole r)
    then show ?thesis using mo [of "ClusterRoleO r" "ClusterRole r" ns] st' assms(2) by (simp add: bindings_def NewRoleObj_def)
  next
    case (DeleteRole r)
    then show ?thesis using re [of "RoleO r" "Role r" ns] st' assms(2) by (simp add: bindings_def NewRoleObj_def)
  next
    case (DeleteClusterRole r)
    then show ?thesis using re [of "ClusterRoleO r" "ClusterRole r" ns] st' assms(2) by (simp add: bindings_def NewRoleObj_def)
  next
    case (AddScc x)
    then show ?thesis using st' assms(5)
      by (simp add: noticed_def fold_added_queue handleSCCAdded_def listers_of_def addToExternalJobQueue_def Let_def)
  next
    case (DeleteScc x)
    then show ?thesis using st' assms(5) by (simp add: noticed_def handleSCCDeleted_def addToExternalJobQueue_def)
  qed (use assms(1) in simp_all)
qed

text \<open>A binding that \<open>IsRoleBindingRelevant\<close> drops grants nothing.\<close>

lemma newRoleBindingObj_rb [simp]: "newRoleBindingObj (rb_object rb) = Some rb"
  by (cases rb) (simp_all add: newRoleBindingObj_def)

lemma find_ex:
  assumes "\<exists>y \<in> set xs. P y"
  obtains y where "find P xs = Some y" "y \<in> set xs" "P y"
proof -
  have "find P xs \<noteq> None" unfolding find_None_iff using assms by blast
  then obtain y where "find P xs = Some y" by blast
  then show thesis using that [of y] by (auto simp: find_Some_iff)
qed

lemma binding_role_found:
  assumes "wf_store st" "wf_rb rb" "r \<in> all_roles st" "usefulRolesKey r = binding_key rb"
  shows "\<exists>r'. getRoleFromRoleRef (listers_of st) (rb_Namespace rb) (rb_RoleRef rb) = Some r' \<and> usefulRolesKey r' = binding_key rb"
proof -
  define n where "n = (if rr_Kind (rb_RoleRef rb) = ''Role'' then rb_Namespace rb else [])"
  have "CHR ''/'' \<notin> set n" using assms(2) by (cases rb) (auto simp: n_def)
  then have eq: "role_Namespace r = n" "role_Name r = rr_Name (rb_RoleRef rb)"
    using append_slash_eq [OF all_roles_slash [OF assms(1,3)], of n] assms(4)
    by (simp_all add: n_def usefulRolesKey_def binding_key_def)
  show ?thesis
  proof (cases "rr_Kind (rb_RoleRef rb) = ''Role''")
    case True
    then have "n \<noteq> []" using assms(2) by (cases rb) (auto simp: n_def)
    then have "\<exists>y \<in> set (st_roles st). ro_Namespace y = rb_Namespace rb \<and> ro_Name y = rr_Name (rb_RoleRef rb)"
      using assms(1,3) eq True by (auto simp: all_roles_def n_def wf_store_def)
    then show ?thesis
      by (rule find_ex) (use True in \<open>auto simp: getRoleFromRoleRef_def listers_of_def usefulRolesKey_def binding_key_def\<close>)
  next
    case False
    then have k: "rr_Kind (rb_RoleRef rb) = ''ClusterRole''" "n = []" using assms(2) by (cases rb; auto simp: n_def)+
    have "\<exists>y \<in> set (st_clusterRoles st). ro_Name y = rr_Name (rb_RoleRef rb)"
      using assms(1,3) eq k by (auto simp: all_roles_def wf_store_def)
    then obtain y where "find (\<lambda>y. ro_Name y = rr_Name (rb_RoleRef rb)) (st_clusterRoles st) = Some y"
      "y \<in> set (st_clusterRoles st)" "ro_Name y = rr_Name (rb_RoleRef rb)" by (rule find_ex)
    moreover from this have "ro_Namespace y = []" using assms(1) by (simp add: wf_store_def)
    ultimately show ?thesis using k by (auto simp: getRoleFromRoleRef_def listers_of_def usefulRolesKey_def binding_key_def)
  qed
qed

lemma irrelevant_binding:
  assumes "wf_store st" "coherent st c" "wf_rb rb" "\<not> IsRoleBindingRelevant (listers_of st) c (rb_object rb)"
  shows "cached c (binding_key rb) = {}"
proof (rule ccontr)
  assume ne: "cached c (binding_key rb) \<noteq> {}"
  then have "allowed_by st (binding_key rb) \<noteq> {}" using assms(2) by (simp add: coherent_def)
  then obtain r where "r \<in> all_roles st" "usefulRolesKey r = binding_key rb" unfolding allowed_by_def by blast
  from binding_role_found [OF assms(1,3) this] show False using assms(4) ne by (auto simp: IsRoleBindingRelevant_def)
qed

lemma binding_event_objects:
  assumes "binding_event st e st'" "\<forall>rb \<in> bindings st. wf_rb rb"
  shows "\<exists>rb rb'. e \<in> {OnAdd (rb_object rb), OnDelete (rb_object rb), OnUpdate (rb_object rb) (rb_object rb')} \<and>
    wf_rb rb \<and> wf_rb rb' \<and> rb_Namespace rb' = rb_Namespace rb \<and> bindings st \<union> {rb, rb'} = bindings st' \<union> {rb, rb'} \<and>
    (e \<noteq> OnUpdate (rb_object rb) (rb_object rb') \<longrightarrow> rb' = rb)"
  using assms
proof (induction rule: binding_event.induct)
  case (added b st)
  show ?case by (rule exI [of _ "RoleBinding b"], rule exI [of _ "RoleBinding b"]) (use added in \<open>auto simp: bindings_def\<close>)
next
  case (updated b st xs old ys)
  show ?case by (rule exI [of _ "RoleBinding old"], rule exI [of _ "RoleBinding b"]) (use updated in \<open>auto simp: bindings_def\<close>)
next
  case (deleted st xs old ys)
  show ?case by (rule exI [of _ "RoleBinding old"], rule exI [of _ "RoleBinding old"]) (use deleted in \<open>auto simp: bindings_def\<close>)
next
  case (cluster_added b st)
  show ?case by (rule exI [of _ "ClusterRoleBinding b"], rule exI [of _ "ClusterRoleBinding b"])
      (use cluster_added in \<open>auto simp: bindings_def\<close>)
next
  case (cluster_updated b st xs old ys)
  show ?case by (rule exI [of _ "ClusterRoleBinding old"], rule exI [of _ "ClusterRoleBinding b"])
      (use cluster_updated in \<open>auto simp: bindings_def\<close>)
next
  case (cluster_deleted st xs old ys)
  show ?case by (rule exI [of _ "ClusterRoleBinding old"], rule exI [of _ "ClusterRoleBinding old"])
      (use cluster_deleted in \<open>auto simp: bindings_def\<close>)
qed

lemma granted_upto:
  assumes "wf_store st" "coherent st c" "wf_store st'" "coherent st' c"
    and "st_sccs st' = st_sccs st" "bindings st \<union> X = bindings st' \<union> X"
    and "\<And>rb. rb \<in> X \<Longrightarrow> in_force ns (realSAUserInfo ns sa) rb \<Longrightarrow> cached c (binding_key rb) = {}"
  shows "granted st' ns sa = granted st ns sa"
proof -
  let ?ui = "realSAUserInfo ns sa"
  let ?f = "\<lambda>B. \<Union>rb \<in> {rb \<in> B. in_force ns ?ui rb}. cached c (binding_key rb)"
  have "?f (B \<union> X) = ?f B" for B using assms(7) by blast
  then have "?f (bindings st') = ?f (bindings st)" using assms(6) by metis
  then show ?thesis unfolding granted_cached [OF assms(1,2)] granted_cached [OF assms(3,4)] assms(5) by simp
qed

lemma rb_object_meta:
  "is_runtime (rb_object rb)" "wf_rb rb \<Longrightarrow> object_namespace (rb_object rb) = Some (rb_Namespace rb)"
  by (cases rb; simp)+

lemma binding_event_concerned:
  assumes "distinct (map ns_Name (pw_namespaces w))" "psa_handler (pw_view w) Bindings e = Some keys"
    and "e \<in> {OnAdd (rb_object rb), OnDelete (rb_object rb), OnUpdate (rb_object rb) (rb_object rb')}"
    and "wf_rb rb" "wf_rb rb'" "rb_Namespace rb' = rb_Namespace rb" "e \<noteq> OnUpdate (rb_object rb) (rb_object rb') \<Longrightarrow> rb' = rb"
    and "IsRoleBindingRelevant (listers_of (pw_store w)) (pw_cache w) (rb_object x)" "x = rb \<or> x = rb'"
  shows "set keys = concerned (pw_ord w) (pw_namespaces w) (rb_Namespace rb)"
proof -
  have "wf_rb x" "rb_Namespace x = rb_Namespace rb" using assms(4-6,9) by auto
  moreover have "\<exists>y. (y = rb \<or> y = rb') \<and> e \<in> {OnAdd (rb_object x), OnDelete (rb_object x),
      OnUpdate (rb_object x) (rb_object y), OnUpdate (rb_object y) (rb_object x)}"
    using assms(3,7,9) by (cases "e = OnUpdate (rb_object rb) (rb_object rb')") blast+
  then obtain y where y: "y = rb \<or> y = rb'" "e \<in> {OnAdd (rb_object x), OnDelete (rb_object x),
      OnUpdate (rb_object x) (rb_object y), OnUpdate (rb_object y) (rb_object x)}" by blast
  moreover have "wf_rb y" "rb_Namespace y = rb_Namespace rb" using assms(4-6) y(1) by auto
  ultimately show ?thesis
    using binding_event_keys [of "pw_view w" "rb_object x" e "rb_object y" "pw_namespaces w"] assms(1,2,8)
    by (simp add: pw_view_def rb_object_meta)
qed

lemma binding_event_noticed:
  assumes "psa_ok w" "binding_event (pw_store w) e st" "w' = w\<lparr>pw_store := st\<rparr>" "psa_ok w'"
    and "psa_handler (pw_view w') Bindings e = Some keys"
  shows "granted st ns = granted (pw_store w) ns \<or>
    set keys = concerned (pw_ord w) (pw_namespaces w) [] \<or> set keys = concerned (pw_ord w) (pw_namespaces w) ns"
proof -
  let ?st = "pw_store w" and ?c = "pw_cache w"
  have ok: "wf_store ?st" "coherent ?st ?c" "wf_store st" "coherent st ?c" "\<forall>rb \<in> bindings ?st. wf_rb rb"
    "distinct (map ns_Name (pw_namespaces w'))"
    using assms(1,3,4) by (simp_all add: psa_ok_def)
  have sccs: "st_sccs st = st_sccs ?st" using assms(2) by (induction rule: binding_event.induct) simp_all
  obtain rb rb' where rb: "e \<in> {OnAdd (rb_object rb), OnDelete (rb_object rb), OnUpdate (rb_object rb) (rb_object rb')}"
    "wf_rb rb" "wf_rb rb'" "rb_Namespace rb' = rb_Namespace rb" "e \<noteq> OnUpdate (rb_object rb) (rb_object rb') \<Longrightarrow> rb' = rb"
    "bindings ?st \<union> {rb, rb'} = bindings st \<union> {rb, rb'}"
    using binding_event_objects [OF assms(2) ok(5)] by blast
  let ?rel = "\<lambda>x. IsRoleBindingRelevant (listers_of st) ?c (rb_object x)"
  show ?thesis
  proof (cases "(?rel rb \<or> ?rel rb') \<and> (rb_Namespace rb = [] \<or> rb_Namespace rb = ns)")
    case True
    then have "set keys = concerned (pw_ord w) (pw_namespaces w) (rb_Namespace rb)"
      using binding_event_concerned [OF ok(6) assms(5) rb(1-5)] assms(3) by auto
    with True show ?thesis by (elim conjE disjE) simp_all
  next
    case False
    have "cached ?c (binding_key x) = {}" if x: "x \<in> {rb, rb'}" "in_force ns (realSAUserInfo ns sa) x" for x sa
    proof (rule irrelevant_binding [OF ok(3,4)])
      show "wf_rb x" using x(1) rb(2,3) by blast
      have "rb_Namespace x = rb_Namespace rb" using x(1) rb(4) by blast
      then have "rb_Namespace rb = [] \<or> rb_Namespace rb = ns" using x(2) by (simp add: in_force_def)
      then have "\<not> ?rel rb" "\<not> ?rel rb'" using False by blast+
      then show "\<not> ?rel x" using x(1) by (elim insertE emptyE) simp_all
    qed
    then have "granted st ns sa = granted ?st ns sa" for sa
      using granted_upto [OF ok(1-4) sccs rb(6)] by blast
    then show ?thesis by blast
  qed
qed

section \<open>The controller as a reconciler\<close>

text \<open>Controlled in whatever order the managers of a label are iterated.\<close>

definition surely_controlled :: "namespace \<Rightarrow> bool" where
  "surely_controlled ns \<longleftrightarrow> (\<forall>ord. valid_ord ord \<longrightarrow> isNSControlled ord ns)"

definition psa_wanted :: "'a psa_world \<Rightarrow> string \<Rightarrow> bool" where
  "psa_wanted w k \<longleftrightarrow> (\<exists>ns \<in> set (pw_namespaces w). ns_Name ns = k \<and> surely_controlled ns)"

text \<open>The namespace, its service accounts, the SCCs, and which of them each service account can reach.\<close>

definition psa_sees :: "'a psa_world \<Rightarrow> string \<Rightarrow> namespace option \<times> string list \<times> scc list \<times> (string \<Rightarrow> string set)" where
  "psa_sees w k = (find (\<lambda>n. ns_Name n = k) (pw_namespaces w), pw_sas w k, st_sccs (pw_store w), granted (pw_store w) k)"

lemma hasExternalQueue_handlers:
  "hasExternalQueue (handleRoleModified li obj c) = hasExternalQueue c"
  "hasExternalQueue (handleRoleRemoved obj c) = hasExternalQueue c"
  "hasExternalQueue (handleSCCAdded li obj c) = hasExternalQueue c"
  "hasExternalQueue (handleSCCDeleted obj c) = hasExternalQueue c"
  by (simp_all add: handleRoleModified_def handleRoleRemoved_def handleSCCAdded_def handleSCCDeleted_def
      syncRoleCache_def fold_added_queue Let_def split: sum.split option.split object.split)

lemma hasExternalQueue_dispatch: "hasExternalQueue (dispatch li e c) = hasExternalQueue c"
  by (cases e) (simp_all add: hasExternalQueue_handlers)

lemma wanted_concerned:
  assumes "psa_ok w" "psa_wanted w k" "at = [] \<or> at = k"
  shows "k \<in> concerned (pw_ord w) (pw_namespaces w) at"
  using assms unfolding psa_ok_def psa_wanted_def concerned_def surely_controlled_def by blast

lemma binding_event_ok:
  assumes "binding_event st e st'" "wf_store st" "coherent st c" "\<forall>rb \<in> bindings st. wf_rb rb"
  shows "wf_store st' \<and> coherent st' c \<and> (\<forall>rb \<in> bindings st'. wf_rb rb)"
  using assms
  by (induction rule: binding_event.induct)
    (auto simp: wf_store_def coherent_def allowed_by_def all_roles_def bindings_def)

lemma psa_env_ok: "psa_env w keys w' \<Longrightarrow> psa_ok w \<Longrightarrow> psa_ok w'"
proof (induction rule: psa_env.induct)
  case (policy e w st c)
  have st: "st = store_step e (pw_store w)" "c = dispatch (listers_of st) e (pw_cache w)"
    using policy(3) by (auto simp: cache_step_def Let_def)
  have "wf_store st \<and> coherent st c"
    by (rule coherent_step [OF _ policy(2) _ policy(3)]) (use policy(4) in \<open>simp_all add: psa_ok_def\<close>)
  moreover have "bindings st = bindings (pw_store w)" using policy(1) st(1) by (cases e) (auto simp: bindings_def)
  ultimately show ?case using policy(4) st(2) by (simp add: psa_ok_def hasExternalQueue_dispatch)
next
  case (binding w e st w' keys)
  then show ?case using binding_event_ok [OF binding(1), of "pw_cache w"] by (simp add: psa_ok_def)
next
  case (namespace w e nss w' keys)
  then show ?case using ns_event_distinct [OF namespace(1)] by (simp add: psa_ok_def)
qed (simp_all add: psa_ok_def)

lemma noticed_keys:
  assumes "noticed (pw_cache w) c k" "psa_ok w" "psa_wanted w k"
  shows "k \<in> set (cache_keys w c)"
proof -
  obtain obj at where o: "enqueued c = enqueued (pw_cache w) @ [obj]" "object_namespace obj = Some at" "at = [] \<or> at = k"
    using assms(1) unfolding noticed_def by blast
  have "distinct (map ns_Name (pw_namespaces w))" using assms(2) by (simp add: psa_ok_def)
  from queueKeys_concerned [OF this o(2)] wanted_concerned [OF assms(2,3) o(3)] show ?thesis
    by (simp add: cache_keys_def o(1))
qed

lemma sa_event_keys:
  assumes "sa_event (pw_sas w) e sas" "psa_handler (pw_view w') ServiceAccounts e = Some keys"
    and "pw_sas w k \<noteq> sas k" "psa_ok w'" "psa_wanted w' k"
  shows "k \<in> set keys"
proof -
  have "\<exists>name. keys = queueKeysRuntimeForObj (pw_view w') (ServiceAccountO k name)"
    using assms(1-3) by (cases rule: sa_event.cases) (auto simp: psa_handler_def eventHandler_def split: if_splits)
  moreover have "set (queueKeysRuntimeForObj (pw_view w') (ServiceAccountO k name)) = concerned (pw_ord w') (pw_namespaces w') k" for name
    using queueKeys_concerned [of "pw_namespaces w'" "ServiceAccountO k name" k "pw_ord w'"] assms(4)
    by (simp add: psa_ok_def queueKeysRuntimeForObj_def pw_view_def)
  ultimately show ?thesis using wanted_concerned [OF assms(4,5)] by auto
qed

lemma ns_event_keys:
  assumes "carries e ns" "isNSControlled (vw_ord v) ns" "psa_handler v Namespaces e = Some keys"
  shows "ns_Name ns \<in> set keys"
  using assms by (auto simp: carries_def psa_handler_def eventHandler_def namespace_filter_def nameToKey_def split: if_splits)

lemma ns_event_sees:
  assumes "psa_ok w" "ns_event (pw_namespaces w) e nss" "w' = w\<lparr>pw_namespaces := nss\<rparr>" "psa_ok w'"
    and "psa_handler (pw_view w') Namespaces e = Some keys" "psa_wanted w' k" "k \<notin> set keys"
  shows "psa_wanted w k \<and> psa_sees w' k = psa_sees w k"
proof -
  obtain ns where ns: "ns \<in> set nss" "ns_Name ns = k" "surely_controlled ns"
    using assms(3,6) by (auto simp: psa_wanted_def)
  have "isNSControlled (vw_ord (pw_view w')) ns"
    using ns(3) assms(4) by (simp add: surely_controlled_def psa_ok_def pw_view_def)
  then have "\<not> carries e ns" using ns_event_keys assms(5,7) ns(2) by blast
  then have "ns \<in> set (pw_namespaces w)" using ns_event_members [OF assms(2) ns(1)] by blast
  moreover from this have "find (\<lambda>n. ns_Name n = k) (pw_namespaces w) = Some ns" "find (\<lambda>n. ns_Name n = k) nss = Some ns"
    using find_name [of "pw_namespaces w" k ns] find_name [of nss k ns] ns assms(1,3,4) by (simp_all add: psa_ok_def)
  ultimately show ?thesis using ns(2,3) assms(3) unfolding psa_wanted_def psa_sees_def by auto
qed

lemma psa_env_covers:
  assumes "psa_ok w" "psa_env w keys w'" "psa_wanted w' k" "k \<notin> set keys"
  shows "psa_wanted w k \<and> psa_sees w' k = psa_sees w k"
  using assms(2)
proof (cases rule: psa_env.cases)
  case (policy e st c)
  have want: "psa_wanted w k" using assms(3) by (simp add: policy(2) psa_wanted_def)
  have "(st_sccs st = st_sccs (pw_store w) \<and> granted st k = granted (pw_store w) k) \<or> noticed (pw_cache w) c k"
    by (rule policy_event_noticed [OF policy(3,4) _ _ _ policy(5)]) (use assms(1) in \<open>simp_all add: psa_ok_def\<close>)
  then show ?thesis using noticed_keys [OF _ assms(1) want] assms(4) want policy(1,2) by (auto simp: psa_sees_def)
next
  case (binding e st)
  have want: "psa_wanted w k" using assms(3) by (simp add: binding(2) psa_wanted_def)
  have ok: "psa_ok w'" by (rule psa_env_ok [OF assms(2,1)])
  have sccs: "st_sccs st = st_sccs (pw_store w)" using binding(1) by (induction rule: binding_event.induct) simp_all
  have "k \<in> concerned (pw_ord w) (pw_namespaces w) []" "k \<in> concerned (pw_ord w) (pw_namespaces w) k"
    using wanted_concerned [OF assms(1) want] by simp_all
  then have "granted st k = granted (pw_store w) k"
    using binding_event_noticed [OF assms(1) binding(1,2) ok binding(3), of k] assms(4) by auto
  then show ?thesis using want sccs binding(2) by (simp add: psa_sees_def)
next
  case (namespace e nss)
  then show ?thesis using ns_event_sees [OF assms(1) namespace(1,2) _ namespace(3) assms(3,4)] psa_env_ok [OF assms(2,1)] by simp
next
  case (service_account e sas)
  have "pw_sas w k = sas k"
    using sa_event_keys [OF service_account(1,3) _ psa_env_ok [OF assms(2,1)] assms(3)] assms(4) by blast
  then show ?thesis using assms(3) service_account(2) by (simp add: psa_wanted_def psa_sees_def)
qed (use assms(3) in \<open>simp_all add: psa_wanted_def psa_sees_def\<close>)

lemma pw_sync_frame:
  "psa_ok (snd (pw_sync sv syn w j)) = psa_ok w" "psa_wanted (snd (pw_sync sv syn w j)) k = psa_wanted w k"
  "psa_sees (snd (pw_sync sv syn w j)) k = psa_sees w k"
  unfolding pw_sync_def
  by (rule psa_sync_frame; simp add: client_of_def psa_ok_def psa_wanted_def psa_sees_def split: prod.split)+

interpretation ps: reconciler "pw_sync sv syn" psa_env psa_ok psa_wanted psa_sees
  for sv :: "'a psa_server" and syn :: "(string \<times> string) list"
  by unfold_locales (blast intro: psa_env_ok | simp add: pw_sync_frame | blast dest: psa_env_covers)+

section \<open>Labels follow permissions\<close>

definition psa_start :: "'a \<Rightarrow> (string \<Rightarrow> extractedNamespaces \<Rightarrow> extractedNamespaces) \<Rightarrow> (string set \<Rightarrow> string list) \<Rightarrow> 'a psa_world" where
  "psa_start a ord u = \<lparr>pw_store = empty_store, pw_cache = WithExternalQueueEnqueue NewSAToSCCCache, pw_namespaces = [],
     pw_sas = (\<lambda>_. []), pw_api = a, pw_ord = ord, pw_unsorted = u\<rparr>"

lemma psa_start_ok:
  "valid_ord ord \<Longrightarrow> valid_unsorted u \<Longrightarrow> psa_ok (psa_start a ord u)" "\<not> psa_wanted (psa_start a ord u) k"
  using coherent_start
  by (simp_all add: psa_ok_def psa_start_def psa_wanted_def WithExternalQueueEnqueue_def bindings_def empty_store_def)

lemma pw_sync_level:
  assumes "psa_ok w" "find (\<lambda>n. ns_Name n = ns_Name ns) (pw_namespaces w) = Some ns" "surely_controlled ns"
    and "ns_Phase ns \<noteq> NsTerminating" "cpc_owned {} (ns_ManagedFields ns) = Inr {}"
    and "str_at (ns_Annotations ns) UIDRangeAnnotation \<noteq> []"
    and "S = (\<Union>sa \<in> set (pw_sas w (ns_Name ns)). granted (pw_store w) (ns_Name ns) sa)" "S \<noteq> {}"
    and "\<forall>n \<in> S. \<exists>scc. scc_of (st_sccs (pw_store w)) n = Inr scc \<and> convertSCCToPSALevel ns scc = Inr (lev n)"
  shows "pw_sync sv syn w (ns_Name ns) =
    apply_level (client_of sv) (pw_ord w) syn w ns (internalRestrictivnessToPSaLevel (Max (lev ` S)))"
proof -
  have ok: "wf_store (pw_store w)" "coherent (pw_store w) (pw_cache w)" "isNSControlled (pw_ord w) ns"
    "finite T \<Longrightarrow> set (pw_unsorted w T) = T" for T
    using assms(1,3) by (simp_all add: psa_ok_def surely_controlled_def valid_unsorted_def)
  have "pw_sync sv syn w (ns_Name ns) = psa_syncNamespace (client_of sv) (pw_unsorted w) (pw_ord w) syn w ns"
    unfolding pw_sync_def
    by (rule psa_sync_current [OF _ ok(3) assms(4,5)]) (simp add: client_of_def get_of_def assms(2))
  also have "\<dots> = apply_level (client_of sv) (pw_ord w) syn w ns (internalRestrictivnessToPSaLevel (Max (lev ` S)))"
    by (rule syncNamespace_level [OF ok(1,2) _ ok(4) assms(6) _ _ assms(7,8)])
      (use assms(7-9) in \<open>auto simp: client_of_def\<close>)
  finally show ?thesis .
qed


section \<open>Updates of SCCs\<close>

text \<open>
  An SCC is updated to name a service account: what the account can reach changes, but no handler runs and nothing
  is handed to the external queue, so no namespace is synced.
\<close>

lemma scc_update_unnoticed:
  fixes e
  defines "e \<equiv> UpdateScc (restricted_v2\<lparr>scc_Users := [''system:serviceaccount:app:deployer'']\<rparr>)"
  shows "snd (cache_step e ex_final) = snd ex_final"
    and "granted (fst ex_final) ''app'' ''deployer'' = {}"
    and "granted (fst (cache_step e ex_final)) ''app'' ''deployer'' = {''restricted-v2''}"
proof -
  show c: "snd (cache_step e ex_final) = snd ex_final" by (simp add: e_def cache_step_def Let_def split_beta)
  have "SCCsFor (listers_of (fst ex_final)) (snd ex_final) ''app'' ''deployer'' = Inr {}" by code_simp
  then show "granted (fst ex_final) ''app'' ''deployer'' = {}" using SCCsFor_granted ex_final_coherent by simp
  have "wf_store (fst (cache_step e ex_final)) \<and> coherent (fst (cache_step e ex_final)) (snd (cache_step e ex_final))"
    by (rule coherent_step [where st = "fst ex_final" and c = "snd ex_final" and e = e])
      (use ex_final_coherent in \<open>simp_all add: e_def\<close>)
  moreover have "SCCsFor (listers_of (fst (cache_step e ex_final))) (snd (cache_step e ex_final)) ''app'' ''deployer'' = Inr {''restricted-v2''}"
    unfolding e_def by code_simp
  ultimately show "granted (fst (cache_step e ex_final)) ''app'' ''deployer'' = {''restricted-v2''}"
    using SCCsFor_granted by (metis sum.inject(2))
qed

section \<open>Examples\<close>

text \<open>The roles, SCCs and the binding of theory \<open>Scc_Role_Cache\<close>, then a service account and its namespace.\<close>

definition ex_pw :: "store \<times> saToSCCCache \<Rightarrow> string list \<Rightarrow> namespace list \<Rightarrow> unit psa_world" where
  "ex_pw s sas nss = \<lparr>pw_store = fst s, pw_cache = snd s, pw_namespaces = nss, pw_sas = (\<lambda>_. [])(''app'' := sas),
     pw_api = (), pw_ord = (\<lambda>l xs. xs), pw_unsorted = sorted_list_of_set\<rparr>"

definition ex_server :: "unit psa_server" where
  "ex_server = \<lparr>sv_Extract = \<lambda>n m. Inl ''none'', sv_Update = \<lambda>a n m. (Inl NotFound, a), sv_Apply = \<lambda>a p m f. (Inr ex_ns, a)\<rparr>"

definition ex_cache1 :: "store \<times> saToSCCCache" where
  "ex_cache1 = cache_step (SetClusterRole ex_cluster_role) (empty_store, WithExternalQueueEnqueue NewSAToSCCCache)"

definition ex_cache2 :: "store \<times> saToSCCCache" where
  "ex_cache2 = cache_step (AddScc restricted_v2) ex_cache1"

lemma ex_final_cache2: "ex_final = ((fst ex_cache2)\<lparr>st_roleBindings := [ex_binding]\<rparr>, snd ex_cache2)"
  by (simp add: ex_final_def ex_events_def ex_cache1_def ex_cache2_def)
    (simp add: cache_step_def Let_def split_beta empty_store_def)

lemma no_namespaces_no_keys: "pw_namespaces w = [] \<Longrightarrow> cache_keys w c = []"
  by (auto simp: cache_keys_def queueKeysForObj_def c_isNSControlled_def get_of_def allWatchedNamespacesAsQueueKeys_def
      split: option.splits)

lemma ex_pw_policy:
  assumes "policy_event e" "wf_event e" "cache_step e s = s'"
  shows "psa_env (ex_pw s [] []) [] (ex_pw s' [] [])"
proof -
  have "psa_env (ex_pw s [] []) (cache_keys (ex_pw s [] []) (snd s'))
      ((ex_pw s [] [])\<lparr>pw_store := fst s', pw_cache := snd s'\<rparr>)"
    by (rule psa_env.policy [OF assms(1,2)]) (simp add: ex_pw_def assms(3))
  moreover have "cache_keys (ex_pw s [] []) (snd s') = []" by (rule no_namespaces_no_keys) (simp add: ex_pw_def)
  moreover have "(ex_pw s [] [])\<lparr>pw_store := fst s', pw_cache := snd s'\<rparr> = ex_pw s' [] []" by (simp add: ex_pw_def)
  ultimately show ?thesis by (simp only:)
qed

lemma ex_pw_env:
  "psa_env (ex_pw ex_cache2 [] []) [] (ex_pw ex_final [] [])"
  "psa_env (ex_pw ex_final [] []) [] (ex_pw ex_final [''builder''] [])"
  "psa_env (ex_pw ex_final [''builder''] []) [''app''] (ex_pw ex_final [''builder''] [ex_ns])"
proof -
  have "binding_event (fst ex_cache2) (OnAdd (RoleBindingO ex_binding)) ((fst ex_cache2)\<lparr>st_roleBindings := st_roleBindings (fst ex_cache2) @ [ex_binding]\<rparr>)"
    by (rule binding_event.added) (simp add: ex_binding_def)
  moreover have "st_roleBindings (fst ex_cache2) = []" by code_simp
  ultimately have b: "binding_event (pw_store (ex_pw ex_cache2 [] [])) (OnAdd (RoleBindingO ex_binding)) (fst ex_final)"
    by (simp add: ex_pw_def ex_final_cache2)
  have k: "psa_handler (pw_view (ex_pw ex_final [] [])) Bindings (OnAdd (RoleBindingO ex_binding)) = Some []" by code_simp
  show "psa_env (ex_pw ex_cache2 [] []) [] (ex_pw ex_final [] [])"
    by (rule psa_env.binding [OF b _ k]) (simp add: ex_pw_def ex_final_cache2)
  have s: "sa_event ((\<lambda>_. [])(''app'' := [])) (OnAdd (ServiceAccountO ''app'' ''builder'')) ((\<lambda>_. [])(''app'' := [''builder'']))"
    using sa_event.added [of "(\<lambda>_. [])(''app'' := [])" "''app''" "''builder''"] by simp
  have k: "psa_handler (pw_view (ex_pw ex_final [''builder''] [])) ServiceAccounts (OnAdd (ServiceAccountO ''app'' ''builder'')) = Some []"
    by code_simp
  show "psa_env (ex_pw ex_final [] []) [] (ex_pw ex_final [''builder''] [])"
    by (rule psa_env.service_account [OF _ _ k]) (use s in \<open>simp_all add: ex_pw_def\<close>)
  have n: "ns_event [] (OnAdd (NamespaceO ex_ns)) ([] @ [ex_ns])" by (rule ns_event.added) simp
  have k: "psa_handler (pw_view (ex_pw ex_final [''builder''] [ex_ns])) Namespaces (OnAdd (NamespaceO ex_ns)) = Some [''app'']"
    by code_simp
  show "psa_env (ex_pw ex_final [''builder''] []) [''app''] (ex_pw ex_final [''builder''] [ex_ns])"
    by (rule psa_env.namespace [OF _ _ k]) (use n in \<open>simp_all add: ex_pw_def\<close>)
qed

definition ex_pw_after :: "unit psa_world" where
  "ex_pw_after = snd (pw_sync ex_server allPSaLabels (ex_pw ex_final [''builder''] [ex_ns]) ''app'')"

lemma ex_pw_sync: "pw_sync ex_server allPSaLabels (ex_pw ex_final [''builder''] [ex_ns]) ''app'' = (None, ex_pw_after)"
proof -
  have "fst (pw_sync ex_server allPSaLabels (ex_pw ex_final [''builder''] [ex_ns]) ''app'') = None" by code_simp
  then show ?thesis unfolding ex_pw_after_def by (metis prod.collapse)
qed

lemma ex_pw_run:
  "(run_step (pw_sync ex_server allPSaLabels) psa_env)\<^sup>*\<^sup>*
     (run_start (psa_start () (\<lambda>l xs. xs) sorted_list_of_set))
     (rl_New, ex_pw_after, Map.empty, [''app'' \<mapsto> ex_pw ex_final [''builder''] [ex_ns]])"
proof -
  let ?R = "run_step (pw_sync ex_server allPSaLabels) psa_env"
  let ?s = "\<lambda>w. (rl_New, w, Map.empty, Map.empty) :: (unit psa_world, sync_error) run"
  have "run_start (psa_start () (\<lambda>l xs. xs) sorted_list_of_set) =
      ?s (ex_pw (empty_store, WithExternalQueueEnqueue NewSAToSCCCache) [] [])"
    by (simp add: run_start_def psa_start_def ex_pw_def fun_upd_idem)
  moreover have "?R (?s (ex_pw (empty_store, WithExternalQueueEnqueue NewSAToSCCCache) [] [])) (?s (ex_pw ex_cache1 [] []))"
    by (rule run_no_keys, rule ex_pw_policy [where e = "SetClusterRole ex_cluster_role"])
      (simp_all add: ex_cache1_def ex_cluster_role_def)
  moreover have "?R (?s (ex_pw ex_cache1 [] [])) (?s (ex_pw ex_cache2 [] []))"
    by (rule run_no_keys, rule ex_pw_policy [where e = "AddScc restricted_v2"]) (simp_all add: ex_cache2_def)
  moreover have "?R (?s (ex_pw ex_cache2 [] [])) (?s (ex_pw ex_final [] []))"
    by (rule run_no_keys) (rule ex_pw_env)
  moreover have "?R (?s (ex_pw ex_final [] [])) (?s (ex_pw ex_final [''builder''] []))"
    by (rule run_no_keys) (rule ex_pw_env)
  moreover have "?R\<^sup>*\<^sup>* (?s (ex_pw ex_final [''builder''] []))
      (rl_New, ex_pw_after, Map.empty, [''app'' \<mapsto> ex_pw ex_final [''builder''] [ex_ns]])"
    by (rule run_one_key, rule ex_pw_env(3), rule ex_pw_sync)
  ultimately show ?thesis by (simp add: converse_rtranclp_into_rtranclp)
qed


end
