(* ===== verification/Generic_Informers.thy ===== *)
theory Generic_Informers
  imports Api_Types
begin

text \<open>
  Informers for arbitrary resources, \<open>src/pkg/client/genericinformers/interface.go\<close>, and their use in the
  controller context, \<open>ToGenericInformer\<close> and \<open>StartInformers\<close> of \<open>src/pkg/cmd/controller/interfaces.go\<close>.
  An informer factory is a function from a resource to an informer or an error.
\<close>

record gvr =
  gv_Group :: string
  gv_Version :: string
  gv_Resource :: string

record ('e, 'i) genericInformers =
  generic :: "(gvr \<Rightarrow> 'e + 'i) list"
  bias :: "gvr \<rightharpoonup> gvr"

definition NewGenericInformers :: "(gvr \<Rightarrow> 'e + 'i) list \<Rightarrow> ('e, 'i) genericInformers" where
  "NewGenericInformers infs = \<lparr>generic = infs, bias = Map.empty\<rparr>"

text \<open>
  The loop over the factories. \<open>Inr None\<close> is the nil informer without an error that an empty list of
  factories gives.
\<close>

fun first_informer :: "'e option \<Rightarrow> (gvr \<Rightarrow> 'e + 'i) list \<Rightarrow> gvr \<Rightarrow> 'e + 'i option" where
  "first_informer firstErr [] resource = (case firstErr of Some e \<Rightarrow> Inl e | None \<Rightarrow> Inr None)"
| "first_informer firstErr (g # gs) resource =
     (case g resource of
        Inr informer \<Rightarrow> Inr (Some informer)
      | Inl err \<Rightarrow> first_informer (case firstErr of None \<Rightarrow> Some err | Some e \<Rightarrow> Some e) gs resource)"

text \<open>\<open>ForResource\<close> first tries the resource the bias names; no result when the biases form a cycle.\<close>

partial_function (option) ForResource :: "('e, 'i) genericInformers \<Rightarrow> gvr \<Rightarrow> ('e + 'i option) option" where
  "ForResource i resource =
     (case bias i resource of
        Some tried \<Rightarrow>
          Option.bind (ForResource i tried)
            (\<lambda>r. case r of
                   Inr res \<Rightarrow> Some (Inr res)
                 | Inl _ \<Rightarrow> Some (first_informer None (generic i) resource))
      | None \<Rightarrow> Some (first_informer None (generic i) resource))"

text \<open>
  The biases reach an end from \<open>resource\<close> in at most \<open>n\<close> steps.
\<close>

fun bias_ends :: "('e, 'i) genericInformers \<Rightarrow> nat \<Rightarrow> gvr \<Rightarrow> bool" where
  "bias_ends i 0 resource \<longleftrightarrow> bias i resource = None"
| "bias_ends i (Suc n) resource \<longleftrightarrow> (case bias i resource of None \<Rightarrow> True | Some tried \<Rightarrow> bias_ends i n tried)"

lemma ForResource_returns: "bias_ends i n resource \<Longrightarrow> \<exists>r. ForResource i resource = Some r"
proof (induction n arbitrary: resource)
  case 0
  then show ?case by (subst ForResource.simps) simp
next
  case (Suc n)
  show ?case
  proof (cases "bias i resource")
    case None
    then show ?thesis by (subst ForResource.simps) simp
  next
    case (Some tried)
    then obtain r where "ForResource i tried = Some r" using Suc by auto
    then show ?thesis using Some by (subst ForResource.simps) (auto split: sum.splits)
  qed
qed

section \<open>The controller context\<close>

text \<open>
  The informer factories of the context. Metadata informers exist for every resource: that factory
  returns no error.
\<close>

record ('e, 'i) informer_factories =
  KubernetesInformers :: "gvr \<Rightarrow> 'e + 'i"
  ImageInformers :: "gvr \<Rightarrow> 'e + 'i"
  QuotaInformers :: "gvr \<Rightarrow> 'e + 'i"
  MetadataInformers :: "gvr \<Rightarrow> 'i"

definition ToGenericInformer :: "('e, 'i) informer_factories \<Rightarrow> ('e, 'i) genericInformers" where
  "ToGenericInformer c =
     NewGenericInformers [KubernetesInformers c, ImageInformers c, QuotaInformers c, \<lambda>resource. Inr (MetadataInformers c resource)]"

text \<open>Every resource has an informer: whatever the typed factories answer, \<open>ForResource\<close> of the context's
  generic informer returns without an error, with the informer of the first factory among Kubernetes,
  image and quota that knows the resource, and a metadata informer for every other resource.\<close>

lemma generic_informer_total:
  "ForResource (ToGenericInformer c) resource =
     Some (Inr (Some (case KubernetesInformers c resource of
        Inr informer \<Rightarrow> informer
      | Inl _ \<Rightarrow> (case ImageInformers c resource of
           Inr informer \<Rightarrow> informer
         | Inl _ \<Rightarrow> (case QuotaInformers c resource of
              Inr informer \<Rightarrow> informer
            | Inl _ \<Rightarrow> MetadataInformers c resource)))))"
  by (subst ForResource.simps) (simp add: ToGenericInformer_def NewGenericInformers_def split: sum.splits)

text \<open>
  What has been started, in order, whether the channel \<open>InformersStarted\<close> is recorded as closed, and how
  often it was closed (a second \<open>close\<close> would panic).
\<close>

datatype factory = KubernetesF | ImageF | SecurityF | QuotaF | MetadataF

record start_state =
  started :: "factory list"
  informersStartedClosed :: bool
  channel_closes :: nat

definition StartInformers :: "start_state \<Rightarrow> start_state" where
  "StartInformers c =
     (let c' = c\<lparr>started := started c @ [KubernetesF, ImageF, SecurityF, QuotaF, MetadataF]\<rparr>
      in if \<not> informersStartedClosed c'
         then c'\<lparr>channel_closes := channel_closes c' + 1, informersStartedClosed := True\<rparr>
         else c')"

text \<open>\<open>genericInformers.Start\<close> of \<open>ToGenericInformer\<close>: the start function, then the factories; the function
  adapters start nothing.\<close>

definition generic_Start :: "start_state \<Rightarrow> start_state" where
  "generic_Start c = (let c' = StartInformers c in c'\<lparr>started := started c' @ [KubernetesF]\<rparr>)"

definition NewContext :: start_state where
  "NewContext = \<lparr>started = [], informersStartedClosed = False, channel_closes = 0\<rparr>"

lemma StartInformers_closes_once:
  "channel_closes ((StartInformers ^^ n) NewContext) = (if n = 0 then 0 else 1) \<and>
   informersStartedClosed ((StartInformers ^^ n) NewContext) = (n > 0)"
  by (induction n) (auto simp: StartInformers_def NewContext_def Let_def)

end
