(* ===== verification/Resource_Lists.thy ===== *)
theory Resource_Lists
  imports Api_Types "HOL-Library.List_Lexorder" "HOL-Library.Char_ord"
begin

text \<open>
  Resource lists and usage calculation, from the vendored libraries of the quota controller:
  \<open>k8s.io/apiserver/pkg/quota/v1/resources.go\<close> and \<open>library-go/pkg/quota/quotautil/helpers.go\<close>.

  \<^item> A resource list is a finite map from resource names to quantities. A quantity is an exact decimal
    number that is never finer than one billionth; it is the integer count of billionths, so that \<open>Add\<close>, \<open>Sub\<close>, \<open>Neg\<close> and
    \<open>Cmp\<close> are those of \<open>int\<close>.
  \<^item> Go iterates over maps in any order. Where the order reaches a result the iteration order is the
    parameter \<open>ord\<close>, a function from the set of keys to a list of them.
  \<^item> Quota evaluators are parameters: a record of the functions the code calls.
\<close>

type_synonym resource_list = "string \<rightharpoonup> int"

section \<open>Arithmetic on resource lists\<close>

definition rl_Add :: "resource_list \<Rightarrow> resource_list \<Rightarrow> resource_list" where
  "rl_Add a b = (\<lambda>key.
     case a key of
       Some value \<Rightarrow> Some (case b key of Some other \<Rightarrow> value + other | None \<Rightarrow> value)
     | None \<Rightarrow> b key)"

definition rl_Subtract :: "resource_list \<Rightarrow> resource_list \<Rightarrow> resource_list" where
  "rl_Subtract a b = (\<lambda>key.
     case a key of
       Some value \<Rightarrow> Some (case b key of Some other \<Rightarrow> value - other | None \<Rightarrow> value)
     | None \<Rightarrow> (case b key of Some value \<Rightarrow> Some (- value) | None \<Rightarrow> None))"

definition Mask :: "resource_list \<Rightarrow> string list \<Rightarrow> resource_list" where
  "Mask resources names = (\<lambda>key. if key \<in> set names then resources key else None)"

definition ResourceNames :: "(string set \<Rightarrow> string list) \<Rightarrow> resource_list \<Rightarrow> string list" where
  "ResourceNames ord resources = ord (dom resources)"

fun Intersection_loop :: "string list \<Rightarrow> string list \<Rightarrow> string list \<Rightarrow> string list" where
  "Intersection_loop b result [] = result"
| "Intersection_loop b result (item # a) =
     (if item \<in> set result then Intersection_loop b result a
      else if item \<notin> set b then Intersection_loop b result a
      else Intersection_loop b (result @ [item]) a)"

definition Intersection :: "string list \<Rightarrow> string list \<Rightarrow> string list" where
  "Intersection a b = sort (Intersection_loop b [] a)"

fun Difference_loop :: "string list \<Rightarrow> string list \<Rightarrow> string list \<Rightarrow> string list" where
  "Difference_loop b result [] = result"
| "Difference_loop b result (item # a) =
     (if item \<in> set b \<or> item \<in> set result then Difference_loop b result a
      else Difference_loop b (result @ [item]) a)"

definition Difference :: "string list \<Rightarrow> string list \<Rightarrow> string list" where
  "Difference a b = sort (Difference_loop b [] a)"

text \<open>The quantity of a resource, zero where the list has none.\<close>

definition amount :: "resource_list \<Rightarrow> string \<Rightarrow> int" where
  "amount rl r = (case rl r of Some v \<Rightarrow> v | None \<Rightarrow> 0)"

lemma amount_simps [simp]:
  "amount (rl_Add a b) r = amount a r + amount b r"
  "amount (rl_Subtract a b) r = amount a r - amount b r"
  "amount Map.empty r = 0"
  by (auto simp: amount_def rl_Add_def rl_Subtract_def split: option.splits)

lemma amount_Mask: "amount (Mask rl names) r = (if r \<in> set names then amount rl r else 0)"
  by (simp add: amount_def Mask_def)

lemma dom_rl [simp]:
  "dom (rl_Add a b) = dom a \<union> dom b"
  "dom (rl_Subtract a b) = dom a \<union> dom b"
  "dom (Mask a names) = dom a \<inter> set names"
  by (auto simp: rl_Add_def rl_Subtract_def Mask_def dom_def split: option.splits)

lemma set_Intersection [simp]: "set (Intersection a b) = set a \<inter> set b"
proof -
  have "set (Intersection_loop b result a) = set result \<union> (set a \<inter> set b)" for result
    by (induction a arbitrary: result) auto
  then show ?thesis by (simp add: Intersection_def)
qed

lemma set_Difference [simp]: "set (Difference a b) = set a - set b"
proof -
  have "set (Difference_loop b result a) = set result \<union> (set a - set b)" for result
    by (induction a arbitrary: result) auto
  then show ?thesis by (simp add: Difference_def)
qed

section \<open>Evaluators and usage\<close>

text \<open>\<open>*corev1.ScopeSelector\<close>: scope, operator and values of each requirement.\<close>

type_synonym scope_selector = "(string \<times> string \<times> string list) list option"

record usage_options =
  uo_Namespace :: string
  uo_Scopes :: "string list"
  uo_Resources :: "string list"
  uo_ScopeSelector :: scope_selector

text \<open>\<open>group\<close> is the group and resource of an evaluator; the usage it finds depends on the cluster.\<close>

record 'w evaluator =
  ev_GroupResource :: "string \<times> string"
  ev_MatchingResources :: "string list \<Rightarrow> string list"
  ev_UsageStats :: "'w \<Rightarrow> usage_options \<Rightarrow> string + resource_list"

fun usage_loop :: "'w \<Rightarrow> string \<Rightarrow> string list \<Rightarrow> scope_selector \<Rightarrow> 'w evaluator list \<Rightarrow>
    string list \<times> string list \<times> resource_list \<Rightarrow> string list \<times> string list \<times> resource_list" where
  "usage_loop w namespaceName scopes scopeSelector [] acc = acc"
| "usage_loop w namespaceName scopes scopeSelector (evaluator # evs) (matchedResources, errors, newUsage) =
     (let intersection = ev_MatchingResources evaluator matchedResources
      in if intersection = []
         then usage_loop w namespaceName scopes scopeSelector evs (matchedResources, errors, newUsage)
         else case ev_UsageStats evaluator w
                \<lparr>uo_Namespace = namespaceName, uo_Scopes = scopes, uo_Resources = intersection,
                 uo_ScopeSelector = scopeSelector\<rparr> of
           Inl err \<Rightarrow>
             usage_loop w namespaceName scopes scopeSelector evs
               (Difference matchedResources intersection, errors @ [err], newUsage)
         | Inr used \<Rightarrow>
             usage_loop w namespaceName scopes scopeSelector evs (matchedResources, errors, rl_Add newUsage used))"

text \<open>The usage and the errors; no error is the empty list (\<open>NewAggregate\<close> returns \<open>nil\<close> on it).\<close>

definition CalculateUsage :: "(string set \<Rightarrow> string list) \<Rightarrow> 'w \<Rightarrow> string \<Rightarrow> string list \<Rightarrow> resource_list \<Rightarrow>
    'w evaluator list \<Rightarrow> scope_selector \<Rightarrow> resource_list \<times> string list" where
  "CalculateUsage ord w namespaceName scopes hardLimits registry scopeSelector =
     (let hardResources = ResourceNames ord hardLimits;
          potentialResources = concat (map (\<lambda>ev. ev_MatchingResources ev hardResources) registry)
      in case usage_loop w namespaceName scopes scopeSelector registry
                (Intersection hardResources potentialResources, [], Map.empty) of
           (matchedResources, errors, newUsage) \<Rightarrow> (Mask newUsage matchedResources, errors))"

lemma usage_loop_shrinks:
  "usage_loop w n sc ss evs (ms, es, u) = (ms', es', u') \<Longrightarrow> set ms' \<subseteq> set ms \<and> (\<exists>more. es' = es @ more)"
proof (induction evs arbitrary: ms es u)
  case (Cons ev evs)
  then show ?case
    by (fastforce simp: Let_def split: if_splits sum.splits dest!: Cons.IH)
qed simp

lemma CalculateUsage_tracked:
  "(\<And>A. finite A \<Longrightarrow> set (ord A) = A) \<Longrightarrow> finite (dom hardLimits) \<Longrightarrow>
   dom (fst (CalculateUsage ord w n sc hardLimits evs ss)) \<subseteq> dom hardLimits"
  by (auto simp: CalculateUsage_def Let_def ResourceNames_def split: prod.splits dest!: usage_loop_shrinks)

section \<open>Status by namespace\<close>

record quota_status =
  Hard :: resource_list
  Used :: resource_list

text \<open>The zero value \<open>ResourceQuotaStatus{}\<close>.\<close>

definition zero_status :: quota_status where
  "zero_status = \<lparr>Hard = Map.empty, Used = Map.empty\<rparr>"

type_synonym statuses = "(string \<times> quota_status) list"

fun GetResourceQuotasStatusByNamespace :: "statuses \<Rightarrow> string \<Rightarrow> quota_status \<times> bool" where
  "GetResourceQuotasStatusByNamespace [] namespace = (zero_status, False)"
| "GetResourceQuotasStatusByNamespace ((n, status) # rest) namespace =
     (if n = namespace then (status, True) else GetResourceQuotasStatusByNamespace rest namespace)"

definition RemoveResourceQuotasStatusByNamespace :: "statuses \<Rightarrow> string \<Rightarrow> statuses" where
  "RemoveResourceQuotasStatusByNamespace namespaceStatuses namespace =
     filter (\<lambda>(n, _). n \<noteq> namespace) namespaceStatuses"

definition InsertResourceQuotasStatus :: "statuses \<Rightarrow> string \<times> quota_status \<Rightarrow> statuses" where
  "InsertResourceQuotasStatus namespaceStatuses newStatus =
     (let replaced = map (\<lambda>curr. if fst curr = fst newStatus then newStatus else curr) namespaceStatuses;
          found = list_ex (\<lambda>curr. fst curr = fst newStatus) namespaceStatuses
      in if found then replaced else replaced @ [newStatus])"

text \<open>What the client of the three helpers relies on: they are a map, as long as no namespace occurs twice.\<close>

locale status_by_namespace =
  fixes lookup :: "'s \<Rightarrow> string \<Rightarrow> 'v option"
    and remove :: "'s \<Rightarrow> string \<Rightarrow> 's"
    and store :: "'s \<Rightarrow> string \<times> 'v \<Rightarrow> 's"
    and ok :: "'s \<Rightarrow> bool"
  assumes finite_lookup: "finite (dom (lookup s))"
    and lookup_remove: "ok s \<Longrightarrow> lookup (remove s n) = (lookup s)(n := None)"
    and lookup_store: "ok s \<Longrightarrow> lookup (store s (n, v)) = (lookup s)(n \<mapsto> v)"
    and ok_remove: "ok s \<Longrightarrow> ok (remove s n)"
    and ok_store: "ok s \<Longrightarrow> ok (store s (n, v))"
begin

text \<open>The sum of a weight over all entries, and how the two updates change it.\<close>

definition total :: "('v \<Rightarrow> int) \<Rightarrow> 's \<Rightarrow> int" where
  "total weight s = (\<Sum>n \<in> dom (lookup s). weight (the (lookup s n)))"

definition weight_at :: "('v \<Rightarrow> int) \<Rightarrow> 's \<Rightarrow> string \<Rightarrow> int" where
  "weight_at weight s n = (case lookup s n of Some v \<Rightarrow> weight v | None \<Rightarrow> 0)"

lemma total_without:
  "(\<Sum>m \<in> dom (lookup s) - {n}. weight (the (((lookup s)(n := v)) m))) = total weight s - weight_at weight s n"
proof -
  have "(\<Sum>m \<in> dom (lookup s) - {n}. weight (the (((lookup s)(n := v)) m))) =
      (\<Sum>m \<in> dom (lookup s) - {n}. weight (the (lookup s m)))"
    by (rule sum.cong) auto
  then show ?thesis
    by (cases "lookup s n") (auto simp: total_def weight_at_def sum_diff1 finite_lookup domIff)
qed

lemma total_remove:
  "ok s \<Longrightarrow> total weight (remove s n) = total weight s - weight_at weight s n"
  using total_without [of weight s n None] by (simp add: total_def [of _ "remove s n"] lookup_remove)

lemma total_store:
  assumes "ok s"
  shows "total weight (store s (n, v)) = total weight s - weight_at weight s n + weight v"
proof -
  have "total weight (store s (n, v)) =
      weight v + (\<Sum>m \<in> dom (lookup s) - {n}. weight (the (((lookup s)(n \<mapsto> v)) m)))"
    unfolding total_def lookup_store [OF assms]
    by (simp add: sum.insert_remove finite_lookup)
  then show ?thesis using total_without [of weight s n "Some v"] by simp
qed

end

definition status_of :: "statuses \<Rightarrow> string \<Rightarrow> quota_status option" where
  "status_of ss = map_of ss"

definition distinct_namespaces :: "statuses \<Rightarrow> bool" where
  "distinct_namespaces ss \<longleftrightarrow> distinct (map fst ss)"

lemma Get_status_of:
  "GetResourceQuotasStatusByNamespace ss n =
     (case status_of ss n of Some st \<Rightarrow> (st, True) | None \<Rightarrow> (zero_status, False))"
  by (induction ss) (auto simp: status_of_def)

lemma status_of_Remove:
  "status_of (RemoveResourceQuotasStatusByNamespace ss n) = (status_of ss)(n := None)"
  by (induction ss) (auto simp: status_of_def RemoveResourceQuotasStatusByNamespace_def)

lemma status_of_Insert: "status_of (InsertResourceQuotasStatus ss (n, st)) = (status_of ss)(n \<mapsto> st)"
proof
  fix m
  have "map_of (map (\<lambda>curr. if fst curr = n then (n, st) else curr) ss) m =
      (if m = n then (if list_ex (\<lambda>curr. fst curr = n) ss then Some st else None) else map_of ss m)"
    by (induction ss) auto
  then show "status_of (InsertResourceQuotasStatus ss (n, st)) m = ((status_of ss)(n \<mapsto> st)) m"
    by (auto simp: status_of_def InsertResourceQuotasStatus_def Let_def map_add_def split: option.splits if_splits)
qed

lemma distinct_Remove: "distinct_namespaces ss \<Longrightarrow> distinct_namespaces (RemoveResourceQuotasStatusByNamespace ss n)"
  by (simp add: distinct_namespaces_def RemoveResourceQuotasStatusByNamespace_def distinct_map_filter)

lemma distinct_Insert:
  assumes "distinct_namespaces ss"
  shows "distinct_namespaces (InsertResourceQuotasStatus ss (n, st))"
proof -
  let ?replaced = "map (\<lambda>curr. if fst curr = n then (n, st) else curr) ss"
  have names: "map fst ?replaced = map fst ss" by (induction ss) auto
  show ?thesis
  proof (cases "n \<in> fst ` set ss")
    case True
    then have "InsertResourceQuotasStatus ss (n, st) = ?replaced"
      by (auto simp: InsertResourceQuotasStatus_def Let_def list_ex_iff)
    then show ?thesis using assms names by (simp only: distinct_namespaces_def)
  next
    case False
    then have "InsertResourceQuotasStatus ss (n, st) = ?replaced @ [(n, st)]"
      by (auto simp: InsertResourceQuotasStatus_def Let_def list_ex_iff)
    then have "map fst (InsertResourceQuotasStatus ss (n, st)) = map fst ss @ [n]"
      by (simp only: map_append names) simp
    then show ?thesis using assms False by (simp add: distinct_namespaces_def)
  qed
qed

interpretation qs: status_by_namespace status_of RemoveResourceQuotasStatusByNamespace
    InsertResourceQuotasStatus distinct_namespaces
proof
  show "finite (dom (status_of s))" for s by (simp add: status_of_def finite_dom_map_of)
qed (simp_all add: status_of_Remove status_of_Insert distinct_Remove distinct_Insert)

end
