(* ===== verification/Queue_Bucket.thy ===== *)
theory Queue_Bucket
  imports Work_Queue
begin

text \<open>
  The bucketing work queue of the quota controller:
  \<open>src/pkg/quota/clusterquotareconciliation/workqueuebucket.go\<close>. Every key of the work queue carries a
  list of data items; items added while a key is in progress wait in \<open>dirtyWork\<close>.

  \<open>AddWithData\<close>, \<open>AddWithDataRateLimited\<close> and \<open>Done\<close> first call the inner queue and then change the maps,
  all under \<open>workLock\<close>; \<open>GetWithData\<close> calls the inner queue before it takes the lock. The inner queue
  can be used by other goroutines between the two halves, so each method is two functions, and the
  step relation \<open>bucket_step\<close> interleaves them as the locks allow. A rate-limited add reaches the inner
  queue later, from a goroutine of the queue's own (\<open>delayed\<close>).
\<close>

section \<open>State and methods\<close>

record 'd bucket =
  queue :: wqueue
  work :: "string \<Rightarrow> 'd list"
  dirtyWork :: "string \<Rightarrow> 'd list"
  inProgress :: "string set"
  delayed :: "string list"

definition NewBucketingWorkQueue :: "'d bucket" where
  "NewBucketingWorkQueue =
     \<lparr>queue = wq_New, work = (\<lambda>_. []), dirtyWork = (\<lambda>_. []), inProgress = {}, delayed = []\<rparr>"

text \<open>The two halves of the adding methods.\<close>

definition AddWithData_queue :: "string \<Rightarrow> 'd bucket \<Rightarrow> 'd bucket" where
  "AddWithData_queue key e = e\<lparr>queue := wq_Add key (queue e)\<rparr>"

text \<open>The delaying queue drops the key when it is shutting down.\<close>

definition AddWithDataRateLimited_queue :: "string \<Rightarrow> 'd bucket \<Rightarrow> 'd bucket" where
  "AddWithDataRateLimited_queue key e =
     (if q_shuttingDown (queue e) then e else e\<lparr>delayed := key # delayed e\<rparr>)"

definition Add_data :: "string \<Rightarrow> 'd list \<Rightarrow> 'd bucket \<Rightarrow> 'd bucket" where
  "Add_data key data e =
     (if key \<in> inProgress e
      then e\<lparr>dirtyWork := (dirtyWork e)(key := dirtyWork e key @ data)\<rparr>
      else e\<lparr>work := (work e)(key := work e key @ data)\<rparr>)"

definition AddWithData :: "string \<Rightarrow> 'd list \<Rightarrow> 'd bucket \<Rightarrow> 'd bucket" where
  "AddWithData key data e = Add_data key data (AddWithData_queue key e)"

definition AddWithDataRateLimited :: "string \<Rightarrow> 'd list \<Rightarrow> 'd bucket \<Rightarrow> 'd bucket" where
  "AddWithDataRateLimited key data e = Add_data key data (AddWithDataRateLimited_queue key e)"

text \<open>The delayed add of the rate-limiting queue, when its time has come.\<close>

definition delayed_fires :: "string \<Rightarrow> 'd bucket \<Rightarrow> 'd bucket" where
  "delayed_fires key e = e\<lparr>delayed := remove1 key (delayed e), queue := wq_Add key (queue e)\<rparr>"

definition Done_queue :: "string \<Rightarrow> 'd bucket \<Rightarrow> 'd bucket" where
  "Done_queue key e = e\<lparr>queue := wq_Done key (queue e)\<rparr>"

definition Done_data :: "string \<Rightarrow> 'd bucket \<Rightarrow> 'd bucket" where
  "Done_data key e =
     e\<lparr>work := (work e)(key := dirtyWork e key), dirtyWork := (dirtyWork e)(key := []),
       inProgress := inProgress e - {key}\<rparr>"

definition bucket_Done :: "string \<Rightarrow> 'd bucket \<Rightarrow> 'd bucket" where
  "bucket_Done key e = Done_data key (Done_queue key e)"

text \<open>\<open>GetWithData\<close> after the inner \<open>Get\<close> returned the key: the data handed out and the new state.\<close>

definition Get_data :: "string \<Rightarrow> 'd bucket \<Rightarrow> 'd list \<times> 'd bucket" where
  "Get_data key e =
     (work e key,
      e\<lparr>work := (work e)(key := []), dirtyWork := (dirtyWork e)(key := []),
        inProgress := insert key (inProgress e)\<rparr>)"

definition GetWithData :: "'d bucket \<Rightarrow> ((string \<times> 'd list) option \<times> 'd bucket) option" where
  "GetWithData e =
     (case wq_Get (queue e) of
        None \<Rightarrow> None
      | Some (None, q) \<Rightarrow> Some (None, e\<lparr>queue := q\<rparr>)
      | Some (Some key, q) \<Rightarrow>
          (case Get_data key (e\<lparr>queue := q\<rparr>) of (data, e') \<Rightarrow> Some (Some (key, data), e')))"

definition bucket_ShutDown :: "'d bucket \<Rightarrow> 'd bucket" where
  "bucket_ShutDown e = e\<lparr>queue := wq_ShutDown (queue e)\<rparr>"

section \<open>Interleavings\<close>

text \<open>
  Who holds \<open>workLock\<close> between the halves of a method; the workers between the halves of \<open>GetWithData\<close>;
  and, for the specification, all data added and all data handed out so far for every key.
\<close>

datatype 'd lock = Unlocked | Adding string "'d list" | Finishing string

record 'd system =
  bk :: "'d bucket"
  workLock :: "'d lock"
  fetching :: "string set"
  added :: "string \<Rightarrow> 'd list"
  handed :: "string \<Rightarrow> 'd list"

inductive bucket_step :: "'d system \<Rightarrow> 'd system \<Rightarrow> bool" where
  add_begin: "workLock s = Unlocked \<Longrightarrow>
    bucket_step s (s\<lparr>bk := AddWithData_queue k (bk s), workLock := Adding k ds\<rparr>)"
| add_limited_begin: "workLock s = Unlocked \<Longrightarrow>
    bucket_step s (s\<lparr>bk := AddWithDataRateLimited_queue k (bk s), workLock := Adding k ds\<rparr>)"
| add_end: "workLock s = Adding k ds \<Longrightarrow>
    bucket_step s (s\<lparr>bk := Add_data k ds (bk s), workLock := Unlocked,
      added := (added s)(k := added s k @ ds)\<rparr>)"
| fires: "k \<in> set (delayed (bk s)) \<Longrightarrow> bucket_step s (s\<lparr>bk := delayed_fires k (bk s)\<rparr>)"
| get_begin: "wq_Get (queue (bk s)) = Some (Some k, q) \<Longrightarrow>
    bucket_step s (s\<lparr>bk := (bk s)\<lparr>queue := q\<rparr>, fetching := insert k (fetching s)\<rparr>)"
| get_end: "k \<in> fetching s \<Longrightarrow> workLock s = Unlocked \<Longrightarrow> Get_data k (bk s) = (ds, e) \<Longrightarrow>
    bucket_step s (s\<lparr>bk := e, fetching := fetching s - {k}, handed := (handed s)(k := handed s k @ ds)\<rparr>)"
| done_begin: "k \<in> inProgress (bk s) \<Longrightarrow> workLock s = Unlocked \<Longrightarrow>
    bucket_step s (s\<lparr>bk := Done_queue k (bk s), workLock := Finishing k\<rparr>)"
| done_end: "workLock s = Finishing k \<Longrightarrow>
    bucket_step s (s\<lparr>bk := Done_data k (bk s), workLock := Unlocked\<rparr>)"

definition bucket_start :: "'d system" where
  "bucket_start = \<lparr>bk = NewBucketingWorkQueue, workLock = Unlocked, fetching = {},
     added = (\<lambda>_. []), handed = (\<lambda>_. [])\<rparr>"

section \<open>The invariant\<close>

definition finishing :: "'d system \<Rightarrow> string set" where
  "finishing s = (case workLock s of Finishing k \<Rightarrow> {k} | _ \<Rightarrow> {})"

text \<open>Keys that will reach a worker: dirty, to be added later, or just taken from the queue.\<close>

definition on_the_way :: "'d system \<Rightarrow> string set" where
  "on_the_way s = q_dirty (queue (bk s)) \<union> set (delayed (bk s)) \<union> fetching s"

definition bucket_inv :: "'d system \<Rightarrow> bool" where
  "bucket_inv s \<longleftrightarrow>
     wq_inv (queue (bk s)) \<and> \<not> q_shuttingDown (queue (bk s)) \<and>
     q_processing (queue (bk s)) = fetching s \<union> (inProgress (bk s) - finishing s) \<and>
     fetching s \<inter> (inProgress (bk s) - finishing s) = {} \<and>
     finishing s \<subseteq> inProgress (bk s) \<and>
     (\<forall>k. dirtyWork (bk s) k \<noteq> [] \<longrightarrow> k \<in> inProgress (bk s)) \<and>
     (\<forall>k \<in> inProgress (bk s). work (bk s) k = []) \<and>
     (\<forall>k. work (bk s) k \<noteq> [] \<or> dirtyWork (bk s) k \<noteq> [] \<longrightarrow> k \<in> on_the_way s) \<and>
     (\<forall>k ds. workLock s = Adding k ds \<longrightarrow> k \<in> on_the_way s) \<and>
     (\<forall>k. added s k = handed s k @ work (bk s) k @ dirtyWork (bk s) k)"

lemmas bucket_defs = AddWithData_queue_def AddWithDataRateLimited_queue_def Add_data_def delayed_fires_def
  Done_queue_def Done_data_def Get_data_def

text \<open>The facts of the inner queue, for a queue that is not shut down.\<close>

lemmas queue_facts = wq.add_inv wq.add_dirty wq.add_processing wq.add_closed wq.done_inv wq.done_dirty
  wq.done_processing wq.done_closed

lemma inv_start: "bucket_inv bucket_start"
  by (simp add: bucket_inv_def bucket_start_def NewBucketingWorkQueue_def wq_New_def wq_inv_def finishing_def)

lemma inv_add_begin:
  assumes "bucket_inv s" "workLock s = Unlocked"
  shows "bucket_inv (s\<lparr>bk := AddWithData_queue k (bk s), workLock := Adding k ds\<rparr>)"
    and "bucket_inv (s\<lparr>bk := AddWithDataRateLimited_queue k (bk s), workLock := Adding k ds\<rparr>)"
  using assms by (auto simp: bucket_inv_def finishing_def on_the_way_def bucket_defs queue_facts)

lemma inv_add_end:
  assumes "bucket_inv s" "workLock s = Adding k ds"
  shows "bucket_inv (s\<lparr>bk := Add_data k ds (bk s), workLock := Unlocked, added := (added s)(k := added s k @ ds)\<rparr>)"
proof (cases "k \<in> inProgress (bk s)")
  case True
  with assms show ?thesis by (simp add: bucket_inv_def finishing_def on_the_way_def bucket_defs)
next
  case False
  then have "dirtyWork (bk s) k = []" using assms(1) by (auto simp: bucket_inv_def)
  with False assms show ?thesis by (auto simp: bucket_inv_def finishing_def on_the_way_def bucket_defs)
qed

lemma inv_fires:
  assumes "bucket_inv s" "k \<in> set (delayed (bk s))"
  shows "bucket_inv (s\<lparr>bk := delayed_fires k (bk s)\<rparr>)"
proof -
  have "set (delayed (bk s)) \<subseteq> insert k (set (remove1 k (delayed (bk s))))"
    using in_set_remove1 by fastforce
  then have "on_the_way s \<subseteq> on_the_way (s\<lparr>bk := delayed_fires k (bk s)\<rparr>)"
    using assms(1) by (auto simp: bucket_inv_def on_the_way_def bucket_defs queue_facts)
  with assms(1) show ?thesis
    unfolding bucket_inv_def by (auto simp: finishing_def bucket_defs queue_facts)
qed

lemma inv_get_begin:
  assumes "bucket_inv s" "wq_Get (queue (bk s)) = Some (Some k, q)"
  shows "bucket_inv (s\<lparr>bk := (bk s)\<lparr>queue := q\<rparr>, fetching := insert k (fetching s)\<rparr>)"
proof -
  have inv: "wq_inv (queue (bk s))" using assms(1) by (simp add: bucket_inv_def)
  note g = wq.get_key [OF inv assms(2)] wq.get_inv [OF inv assms(2)]
  have "on_the_way s \<subseteq> on_the_way (s\<lparr>bk := (bk s)\<lparr>queue := q\<rparr>, fetching := insert k (fetching s)\<rparr>)"
    using g by (auto simp: on_the_way_def)
  with assms(1) g show ?thesis unfolding bucket_inv_def by (auto simp: finishing_def)
qed

lemma inv_get_end:
  assumes "bucket_inv s" "k \<in> fetching s" "workLock s = Unlocked" "Get_data k (bk s) = (ds, e)"
  shows "bucket_inv (s\<lparr>bk := e, fetching := fetching s - {k}, handed := (handed s)(k := handed s k @ ds)\<rparr>)"
proof -
  have "k \<notin> inProgress (bk s)" using assms(1-3) by (auto simp: bucket_inv_def finishing_def)
  then have "dirtyWork (bk s) k = []" using assms(1) by (auto simp: bucket_inv_def)
  then show ?thesis
    using assms by (auto simp: bucket_inv_def finishing_def on_the_way_def bucket_defs split: if_splits)
qed

lemma inv_done_begin:
  assumes "bucket_inv s" "k \<in> inProgress (bk s)" "workLock s = Unlocked"
  shows "bucket_inv (s\<lparr>bk := Done_queue k (bk s), workLock := Finishing k\<rparr>)"
proof -
  have "k \<in> q_processing (queue (bk s))" "k \<notin> fetching s"
    using assms by (auto simp: bucket_inv_def finishing_def)
  with assms show ?thesis
    by (auto simp: bucket_inv_def finishing_def on_the_way_def bucket_defs queue_facts)
qed

lemma inv_done_end:
  assumes "bucket_inv s" "workLock s = Finishing k"
  shows "bucket_inv (s\<lparr>bk := Done_data k (bk s), workLock := Unlocked\<rparr>)"
proof -
  have "work (bk s) k = []" using assms by (auto simp: bucket_inv_def finishing_def)
  with assms show ?thesis by (auto simp: bucket_inv_def finishing_def on_the_way_def bucket_defs)
qed

lemma bucket_inv_step: "bucket_step s s' \<Longrightarrow> bucket_inv s \<Longrightarrow> bucket_inv s'"
  by (induction rule: bucket_step.induct)
    (intro inv_add_begin inv_add_end inv_fires inv_get_begin inv_get_end inv_done_begin inv_done_end; assumption)+

lemma bucket_inv_reachable: "bucket_step\<^sup>*\<^sup>* bucket_start s \<Longrightarrow> bucket_inv s"
  by (induction rule: rtranclp_induct) (auto intro: inv_start bucket_inv_step)

section \<open>Correctness\<close>

text \<open>C9: The bucketing queue loses, duplicates and reorders nothing, in any interleaving of the workers,
  the producers and the delayed adds: for every key, the data added is the data handed out, followed
  by the data waiting; a key with waiting data is dirty in the inner queue, about to be added to it, or
  in the hands of a worker that has still to collect the data; and no two workers have the same key.\<close>

theorem bucket_no_loss:
  assumes "bucket_step\<^sup>*\<^sup>* bucket_start s"
  shows "(\<forall>k. added s k = handed s k @ work (bk s) k @ dirtyWork (bk s) k) \<and>
    (\<forall>k. work (bk s) k \<noteq> [] \<or> dirtyWork (bk s) k \<noteq> [] \<longrightarrow>
       k \<in> q_dirty (queue (bk s)) \<or> k \<in> set (delayed (bk s)) \<or> k \<in> fetching s) \<and>
    (workLock s = Unlocked \<longrightarrow> fetching s \<inter> inProgress (bk s) = {})"
  using bucket_inv_reachable [OF assms] by (auto simp: bucket_inv_def on_the_way_def finishing_def)

text \<open>The queue at rest: the inner queue would block, nothing is in progress or about to be added. Then every data
  item that was ever added has been handed to a worker.\<close>

definition bucket_at_rest :: "'d system \<Rightarrow> bool" where
  "bucket_at_rest s \<longleftrightarrow> wq_Get (queue (bk s)) = None \<and> delayed (bk s) = [] \<and> fetching s = {} \<and> inProgress (bk s) = {}"

lemma rest_on_the_way:
  assumes "bucket_inv s" "bucket_at_rest s"
  shows "on_the_way s = {}" "work (bk s) k = []" "dirtyWork (bk s) k = []" "workLock s \<noteq> Adding k ds"
proof -
  have "q_dirty (queue (bk s)) \<subseteq> q_processing (queue (bk s))"
    using assms wq.get_blocks by (auto simp: bucket_inv_def bucket_at_rest_def)
  then show "on_the_way s = {}" using assms by (auto simp: bucket_inv_def bucket_at_rest_def on_the_way_def)
  then show "work (bk s) k = []" "dirtyWork (bk s) k = []" "workLock s \<noteq> Adding k ds"
    using assms(1) by (auto simp: bucket_inv_def)
qed

lemma bucket_idle_complete: "bucket_step\<^sup>*\<^sup>* bucket_start s \<Longrightarrow> bucket_at_rest s \<Longrightarrow> handed s k = added s k"
  using bucket_inv_reachable [of s] rest_on_the_way(2,3) [of s k] by (simp add: bucket_inv_def)

section \<open>A run\<close>

text \<open>
  Item 1 is being added for the key \<open>q\<close>; a worker takes the key from the inner queue before the item is
  stored, waits for the lock and collects the item; item 2 arrives during the work and waits for
  the next round.
\<close>

definition run0 :: "nat system" where "run0 = bucket_start"
definition run1 :: "nat system" where
  "run1 = run0\<lparr>bk := AddWithData_queue ''q'' (bk run0), workLock := Adding ''q'' [1]\<rparr>"
definition run2 :: "nat system" where
  "run2 = run1\<lparr>bk := (bk run1)\<lparr>queue := snd (the (wq_Get (queue (bk run1))))\<rparr>,
     fetching := insert ''q'' (fetching run1)\<rparr>"
definition run3 :: "nat system" where
  "run3 = run2\<lparr>bk := Add_data ''q'' [1] (bk run2), workLock := Unlocked,
     added := (added run2)(''q'' := added run2 ''q'' @ [1])\<rparr>"
definition run4 :: "nat system" where
  "run4 = run3\<lparr>bk := snd (Get_data ''q'' (bk run3)),
     fetching := fetching run3 - {''q''},
     handed := (handed run3)(''q'' := handed run3 ''q'' @ fst (Get_data ''q'' (bk run3)))\<rparr>"
definition run5 :: "nat system" where
  "run5 = run4\<lparr>bk := AddWithData_queue ''q'' (bk run4), workLock := Adding ''q'' [2]\<rparr>"
definition run6 :: "nat system" where
  "run6 = run5\<lparr>bk := Add_data ''q'' [2] (bk run5), workLock := Unlocked,
     added := (added run5)(''q'' := added run5 ''q'' @ [2])\<rparr>"

lemmas run_eval = bucket_defs wq_Add_def wq_Get_def wq_Done_def

lemma run0_val: "run0 = \<lparr>bk = \<lparr>queue = \<lparr>q_queue = [], q_dirty = {}, q_processing = {}, q_shuttingDown = False\<rparr>,
     work = (\<lambda>_. []), dirtyWork = (\<lambda>_. []), inProgress = {}, delayed = []\<rparr>,
     workLock = Unlocked, fetching = {}, added = (\<lambda>_. []), handed = (\<lambda>_. [])\<rparr>"
  by (simp add: run0_def bucket_start_def NewBucketingWorkQueue_def wq_New_def)
lemma run1_val: "run1 = \<lparr>bk = \<lparr>queue = \<lparr>q_queue = [''q''], q_dirty = {''q''}, q_processing = {}, q_shuttingDown = False\<rparr>,
     work = (\<lambda>_. []), dirtyWork = (\<lambda>_. []), inProgress = {}, delayed = []\<rparr>,
     workLock = Adding ''q'' [1], fetching = {}, added = (\<lambda>_. []), handed = (\<lambda>_. [])\<rparr>"
  by (simp add: run1_def run0_val run_eval)
lemma run2_val: "run2 = \<lparr>bk = \<lparr>queue = \<lparr>q_queue = [], q_dirty = {}, q_processing = {''q''}, q_shuttingDown = False\<rparr>,
     work = (\<lambda>_. []), dirtyWork = (\<lambda>_. []), inProgress = {}, delayed = []\<rparr>,
     workLock = Adding ''q'' [1], fetching = {''q''}, added = (\<lambda>_. []), handed = (\<lambda>_. [])\<rparr>"
  by (simp add: run2_def run1_val run_eval)
lemma run3_val: "run3 = \<lparr>bk = \<lparr>queue = \<lparr>q_queue = [], q_dirty = {}, q_processing = {''q''}, q_shuttingDown = False\<rparr>,
     work = ((\<lambda>_. [])(''q'' := [1])), dirtyWork = (\<lambda>_. []), inProgress = {}, delayed = []\<rparr>,
     workLock = Unlocked, fetching = {''q''}, added = ((\<lambda>_. [])(''q'' := [1])), handed = (\<lambda>_. [])\<rparr>"
  by (simp add: run3_def run2_val run_eval)
lemma run4_val: "run4 = \<lparr>bk = \<lparr>queue = \<lparr>q_queue = [], q_dirty = {}, q_processing = {''q''}, q_shuttingDown = False\<rparr>,
     work = ((\<lambda>_. [])(''q'' := [])), dirtyWork = ((\<lambda>_. [])(''q'' := [])), inProgress = {''q''}, delayed = []\<rparr>,
     workLock = Unlocked, fetching = {}, added = ((\<lambda>_. [])(''q'' := [1])), handed = ((\<lambda>_. [])(''q'' := [1]))\<rparr>"
  by (simp add: run4_def run3_val run_eval)
lemma run5_val: "run5 = \<lparr>bk = \<lparr>queue = \<lparr>q_queue = [], q_dirty = {''q''}, q_processing = {''q''}, q_shuttingDown = False\<rparr>,
     work = ((\<lambda>_. [])(''q'' := [])), dirtyWork = ((\<lambda>_. [])(''q'' := [])), inProgress = {''q''}, delayed = []\<rparr>,
     workLock = Adding ''q'' [2], fetching = {}, added = ((\<lambda>_. [])(''q'' := [1])), handed = ((\<lambda>_. [])(''q'' := [1]))\<rparr>"
  by (simp add: run5_def run4_val run_eval)
lemma run6_val: "run6 = \<lparr>bk = \<lparr>queue = \<lparr>q_queue = [], q_dirty = {''q''}, q_processing = {''q''}, q_shuttingDown = False\<rparr>,
     work = ((\<lambda>_. [])(''q'' := [])), dirtyWork = ((\<lambda>_. [])(''q'' := [2])), inProgress = {''q''}, delayed = []\<rparr>,
     workLock = Unlocked, fetching = {}, added = ((\<lambda>_. [])(''q'' := [1, 2])), handed = ((\<lambda>_. [])(''q'' := [1]))\<rparr>"
  by (simp add: run6_def run5_val run_eval)

lemma run_steps:
  "bucket_step run0 run1"
  "bucket_step run1 run2"
  "bucket_step run2 run3"
  "bucket_step run3 run4"
  "bucket_step run4 run5"
  "bucket_step run5 run6"
proof -
  show "bucket_step run0 run1" unfolding run1_def by (rule add_begin) (simp_all add: run0_val run_eval)
  show "bucket_step run1 run2" unfolding run2_def by (rule get_begin) (simp add: run1_val run_eval)
  show "bucket_step run2 run3" unfolding run3_def by (rule add_end) (simp_all add: run2_val run_eval)
  show "bucket_step run3 run4" unfolding run4_def by (rule get_end) (simp_all add: run3_val run_eval)
  show "bucket_step run4 run5" unfolding run5_def by (rule add_begin) (simp_all add: run4_val run_eval)
  show "bucket_step run5 run6" unfolding run6_def by (rule add_end) (simp_all add: run5_val run_eval)
qed

lemma run_reachable: "bucket_step\<^sup>*\<^sup>* bucket_start run6"
  using run_steps unfolding run0_def by (meson rtranclp.intros)

theorem bucket_no_loss_witness:
  "added run6 ''q'' = [1, 2] \<and> handed run6 ''q'' = [1] \<and> dirtyWork (bk run6) ''q'' = [2] \<and>
   added run6 ''q'' = handed run6 ''q'' @ work (bk run6) ''q'' @ dirtyWork (bk run6) ''q'' \<and>
   (''q'' \<in> q_dirty (queue (bk run6)) \<or> ''q'' \<in> set (delayed (bk run6)) \<or> ''q'' \<in> fetching run6)"
proof -
  have "added run6 ''q'' = [1, 2]" "handed run6 ''q'' = [1]" "dirtyWork (bk run6) ''q'' = [2]"
    by (simp_all add: run6_val)
  then show ?thesis using bucket_no_loss [OF run_reachable] by auto
qed

end
