(* ===== verification/Quota_Reconciliation.thy ===== *)
theory Quota_Reconciliation
  imports Resource_Lists Queue_Bucket
begin

text \<open>
  The cluster quota reconciliation controller:
  \<open>src/pkg/quota/clusterquotareconciliation/reconciliation_controller.go\<close>.

  The controller keeps, in the status of every cluster resource quota, the usage of each matching
  namespace and the total. Its work arrives through the bucketing queue: a key is a quota name, the
  data of a key are work items (namespaces). The cluster quota mapper, the lister, the client and the
  evaluator registry are the record \<open>quota_client\<close>; the state of the cluster is the type variable \<open>'w\<close>.
\<close>

section \<open>Quotas\<close>

text \<open>\<open>ClusterResourceQuotaSelector\<close>: a label selector (match labels and expressions) and annotations.\<close>

record label_selector =
  ls_MatchLabels :: str_map
  ls_MatchExpressions :: "(string \<times> string \<times> string list) list"

record quota_selector =
  sel_LabelSelector :: "label_selector option"
  sel_AnnotationSelector :: str_map

record cluster_quota =
  cq_Name :: string
  cq_ResourceVersion :: nat
  cq_Selector :: quota_selector
  cq_Scopes :: "string list"
  cq_ScopeSelector :: scope_selector
  cq_Hard :: resource_list
  cq_Total :: quota_status
  cq_Namespaces :: statuses

record workItem =
  namespaceName :: string
  forceRecalculation :: bool

abbreviation forced :: "string \<Rightarrow> workItem" where
  "forced n \<equiv> \<lparr>namespaceName = n, forceRecalculation = True\<rparr>"

record 'w quota_client =
  mapper_GetNamespacesFor :: "'w \<Rightarrow> string \<Rightarrow> string list \<times> quota_selector"
  mapper_GetClusterQuotasFor :: "'w \<Rightarrow> string \<Rightarrow> string list"
  ql_Get :: "'w \<Rightarrow> string \<Rightarrow> api_error + cluster_quota"
  ql_List :: "'w \<Rightarrow> api_error + cluster_quota list"
  qc_UpdateStatus :: "'w \<Rightarrow> cluster_quota \<Rightarrow> (api_error + cluster_quota) \<times> 'w"
  qc_registry :: "'w evaluator list"
  qc_order :: "string set \<Rightarrow> string list"

datatype rec_error =
    MappingNotUpToDate quota_selector quota_selector
  | UsageFailed "string list"
  | UpdateStatusFailed api_error

section \<open>Reconciling one quota\<close>

definition quotaUsageCalculationFunc :: "'w quota_client \<Rightarrow> 'w \<Rightarrow> cluster_quota \<Rightarrow> string \<Rightarrow> resource_list \<times> string list" where
  "quotaUsageCalculationFunc cl w quota ns =
     CalculateUsage (qc_order cl) w ns (cq_Scopes quota) (cq_Hard quota) (qc_registry cl) (cq_ScopeSelector quota)"

definition sub_total :: "resource_list \<Rightarrow> cluster_quota \<Rightarrow> cluster_quota" where
  "sub_total used quota = quota\<lparr>cq_Total := (cq_Total quota)\<lparr>Used := rl_Subtract (Used (cq_Total quota)) used\<rparr>\<rparr>"

definition add_total :: "resource_list \<Rightarrow> cluster_quota \<Rightarrow> cluster_quota" where
  "add_total used quota = quota\<lparr>cq_Total := (cq_Total quota)\<lparr>Used := rl_Add (Used (cq_Total quota)) used\<rparr>\<rparr>"

text \<open>The body of the loop over the work items: the quota, the errors and the items to retry so far.\<close>

definition sync_item :: "'w quota_client \<Rightarrow> 'w \<Rightarrow> string set \<Rightarrow> workItem \<Rightarrow>
    cluster_quota \<times> rec_error list \<times> workItem list \<Rightarrow> cluster_quota \<times> rec_error list \<times> workItem list" where
  "sync_item cl w matchingNamespaceNames item acc =
     (case acc of (quota, reconcilationErrors, retryItems) \<Rightarrow>
      let ns = namespaceName item;
          (namespaceTotals, namespaceLoaded) = GetResourceQuotasStatusByNamespace (cq_Namespaces quota) ns
      in if ns \<notin> matchingNamespaceNames then
           (if namespaceLoaded
            then let quota' = sub_total (Used namespaceTotals) quota
                 in (quota'\<lparr>cq_Namespaces := RemoveResourceQuotasStatusByNamespace (cq_Namespaces quota') ns\<rparr>,
                     reconcilationErrors, retryItems)
            else (quota, reconcilationErrors, retryItems))
         else if \<not> forceRecalculation item \<and> namespaceLoaded \<and> Hard namespaceTotals = cq_Hard quota
         then (quota, reconcilationErrors, retryItems)
         else
           let (actualUsage, err) = quotaUsageCalculationFunc cl w quota ns
           in if err \<noteq> [] then (quota, reconcilationErrors @ [UsageFailed err], retryItems @ [item])
              else
                let recalculatedStatus = \<lparr>Hard = cq_Hard quota, Used = actualUsage\<rparr>;
                    quota' = add_total (Used recalculatedStatus) (sub_total (Used namespaceTotals) quota)
                in (quota'\<lparr>cq_Namespaces := InsertResourceQuotasStatus (cq_Namespaces quota') (ns, recalculatedStatus)\<rparr>,
                    reconcilationErrors, retryItems))"

text \<open>The loop over a copy of the status that drops the namespaces that no longer match.\<close>

fun drop_unmatched :: "string set \<Rightarrow> statuses \<Rightarrow> cluster_quota \<Rightarrow> cluster_quota" where
  "drop_unmatched matchingNamespaceNames [] quota = quota"
| "drop_unmatched matchingNamespaceNames ((ns, namespaceTotals) # statusCopy) quota =
     drop_unmatched matchingNamespaceNames statusCopy
       (if ns \<notin> matchingNamespaceNames
        then let quota' = sub_total (Used namespaceTotals) quota
             in quota'\<lparr>cq_Namespaces := RemoveResourceQuotasStatusByNamespace (cq_Namespaces quota') ns\<rparr>
        else quota)"

definition reconcile :: "'w quota_client \<Rightarrow> 'w \<Rightarrow> string set \<Rightarrow> cluster_quota \<Rightarrow> workItem list \<Rightarrow>
    cluster_quota \<times> rec_error list \<times> workItem list" where
  "reconcile cl w matchingNamespaceNames originalQuota workItems =
     (case fold (sync_item cl w matchingNamespaceNames) workItems (originalQuota, [], []) of
        (quota, reconcilationErrors, retryItems) \<Rightarrow>
          let quota' = drop_unmatched matchingNamespaceNames (cq_Namespaces quota) quota
          in (quota'\<lparr>cq_Total := (cq_Total quota')\<lparr>Hard := cq_Hard quota'\<rparr>\<rparr>, reconcilationErrors, retryItems))"

text \<open>The errors (none is the empty list, as in \<open>NewAggregate\<close>), the items to retry, and the cluster.\<close>

definition syncQuotaForNamespaces :: "'w quota_client \<Rightarrow> 'w \<Rightarrow> cluster_quota \<Rightarrow> workItem list \<Rightarrow>
    rec_error list \<times> workItem list \<times> 'w" where
  "syncQuotaForNamespaces cl w originalQuota workItems =
     (let (matchingNamespaceNamesList, quotaSelector) = mapper_GetNamespacesFor cl w (cq_Name originalQuota)
      in if quotaSelector \<noteq> cq_Selector originalQuota
         then ([MappingNotUpToDate quotaSelector (cq_Selector originalQuota)], workItems, w)
         else
           let (quota, reconcilationErrors, retryItems) =
                 reconcile cl w (set matchingNamespaceNamesList) originalQuota workItems
           in if quota = originalQuota then (reconcilationErrors, retryItems, w)
              else case qc_UpdateStatus cl w quota of
                     (Inl err, w') \<Rightarrow> (reconcilationErrors @ [UpdateStatusFailed err], workItems, w')
                   | (Inr _, w') \<Rightarrow> (reconcilationErrors, retryItems, w'))"

section \<open>Queueing work\<close>

text \<open>
  The queue, and how often the rate limiter has been asked for each key since it was forgotten
  (\<open>workqueue.DefaultControllerRateLimiter\<close>: the count decides the delay).
\<close>

record quota_queue =
  qq_bucket :: "workItem bucket"
  qq_failures :: "string \<Rightarrow> nat"

definition qq_AddWithData :: "string \<Rightarrow> workItem list \<Rightarrow> quota_queue \<Rightarrow> quota_queue" where
  "qq_AddWithData key data q = q\<lparr>qq_bucket := AddWithData key data (qq_bucket q)\<rparr>"

definition qq_AddWithDataRateLimited :: "string \<Rightarrow> workItem list \<Rightarrow> quota_queue \<Rightarrow> quota_queue" where
  "qq_AddWithDataRateLimited key data q =
     q\<lparr>qq_bucket := AddWithDataRateLimited key data (qq_bucket q),
       qq_failures := (qq_failures q)(key := qq_failures q key + 1)\<rparr>"

definition qq_Forget :: "string \<Rightarrow> quota_queue \<Rightarrow> quota_queue" where
  "qq_Forget key q = q\<lparr>qq_failures := (qq_failures q)(key := 0)\<rparr>"

definition qq_Done :: "string \<Rightarrow> quota_queue \<Rightarrow> quota_queue" where
  "qq_Done key q = q\<lparr>qq_bucket := bucket_Done key (qq_bucket q)\<rparr>"

definition calculate :: "string \<Rightarrow> string list \<Rightarrow> quota_queue \<Rightarrow> quota_queue" where
  "calculate quotaName namespaceNames q =
     (if namespaceNames = [] then q
      else qq_AddWithData quotaName
             (map (\<lambda>name. \<lparr>namespaceName = name, forceRecalculation = False\<rparr>) namespaceNames) q)"

definition forceCalculation :: "string \<Rightarrow> string list \<Rightarrow> quota_queue \<Rightarrow> quota_queue" where
  "forceCalculation quotaName namespaceNames q =
     (if namespaceNames = [] then q
      else qq_AddWithData quotaName
             (map (\<lambda>name. \<lparr>namespaceName = name, forceRecalculation = True\<rparr>) namespaceNames) q)"

definition calculate_one :: "'w quota_client \<Rightarrow> 'w \<Rightarrow> cluster_quota \<Rightarrow> quota_queue \<Rightarrow> quota_queue" where
  "calculate_one cl w quota q =
     (let namespaces = fst (mapper_GetNamespacesFor cl w (cq_Name quota))
      in if namespaces \<noteq> [] then forceCalculation (cq_Name quota) namespaces q
         else if cq_Namespaces quota \<noteq> [] then qq_AddWithData (cq_Name quota) [] q
         else q)"

definition calculateAll :: "'w quota_client \<Rightarrow> 'w \<Rightarrow> quota_queue \<Rightarrow> quota_queue" where
  "calculateAll cl w q =
     (case ql_List cl w of
        Inl _ \<Rightarrow> q
      | Inr quotas \<Rightarrow> fold (calculate_one cl w) quotas q)"

definition replenish_one :: "'w quota_client \<Rightarrow> 'w \<Rightarrow> 'w evaluator list \<Rightarrow> string \<Rightarrow> string \<Rightarrow> quota_queue \<Rightarrow> quota_queue" where
  "replenish_one cl w releventEvaluators namespace quotaName q =
     (case ql_Get cl w quotaName of
        Inl _ \<Rightarrow> q
      | Inr quota \<Rightarrow>
          let resourceQuotaResources = ResourceNames (qc_order cl) (Hard (cq_Total quota))
          in if list_ex (\<lambda>evaluator. ev_MatchingResources evaluator resourceQuotaResources \<noteq> []) releventEvaluators
             then forceCalculation quotaName [namespace] q
             else q)"

definition replenishQuota :: "'w quota_client \<Rightarrow> 'w \<Rightarrow> string \<times> string \<Rightarrow> string \<Rightarrow> quota_queue \<Rightarrow> quota_queue" where
  "replenishQuota cl w groupResource namespace q =
     (let releventEvaluators = filter (\<lambda>evaluator. ev_GroupResource evaluator = groupResource) (qc_registry cl)
      in if releventEvaluators = [] then q
         else fold (replenish_one cl w releventEvaluators namespace) (mapper_GetClusterQuotasFor cl w namespace) q)"

text \<open>\<open>None\<close> is an object that is no cluster quota.\<close>

definition enqueueClusterQuota :: "'w quota_client \<Rightarrow> 'w \<Rightarrow> cluster_quota option \<Rightarrow> quota_queue \<Rightarrow> quota_queue" where
  "enqueueClusterQuota cl w obj q =
     (case obj of
        None \<Rightarrow> q
      | Some quota \<Rightarrow> calculate (cq_Name quota) (fst (mapper_GetNamespacesFor cl w (cq_Name quota))) q)"

definition addClusterQuota :: "'w quota_client \<Rightarrow> 'w \<Rightarrow> cluster_quota option \<Rightarrow> quota_queue \<Rightarrow> quota_queue" where
  "addClusterQuota cl w cur q = enqueueClusterQuota cl w cur q"

definition updateClusterQuota :: "'w quota_client \<Rightarrow> 'w \<Rightarrow> cluster_quota option \<Rightarrow> cluster_quota option \<Rightarrow>
    quota_queue \<Rightarrow> quota_queue" where
  "updateClusterQuota cl w old cur q = enqueueClusterQuota cl w cur q"

definition AddMapping :: "string \<Rightarrow> string \<Rightarrow> quota_queue \<Rightarrow> quota_queue" where
  "AddMapping quotaName ns q = calculate quotaName [ns] q"

definition RemoveMapping :: "string \<Rightarrow> string \<Rightarrow> quota_queue \<Rightarrow> quota_queue" where
  "RemoveMapping quotaName ns q = calculate quotaName [ns] q"

section \<open>The worker\<close>

text \<open>What the worker does with a key and its data, up to the deferred \<open>Done\<close>.\<close>

definition work_on :: "'w quota_client \<Rightarrow> string \<Rightarrow> workItem list \<Rightarrow> quota_queue \<times> 'w \<Rightarrow> quota_queue \<times> 'w" where
  "work_on cl quotaName workItems s =
     (case s of (q, w) \<Rightarrow>
      case ql_Get cl w quotaName of
        Inl NotFound \<Rightarrow> (qq_Forget quotaName q, w)
      | Inl err \<Rightarrow> (qq_AddWithDataRateLimited quotaName workItems q, w)
      | Inr quota \<Rightarrow>
          (case syncQuotaForNamespaces cl w quota workItems of
             (err, retryItems, w') \<Rightarrow>
               if err = [] then (qq_Forget quotaName q, w')
               else (qq_AddWithDataRateLimited quotaName retryItems q, w')))"

text \<open>\<open>workFunc\<close>: \<open>None\<close> while \<open>GetWithData\<close> blocks; otherwise whether to quit, and the new state.\<close>

definition workFunc :: "'w quota_client \<Rightarrow> quota_queue \<times> 'w \<Rightarrow> (bool \<times> quota_queue \<times> 'w) option" where
  "workFunc cl s =
     (case s of (q, w) \<Rightarrow>
      case GetWithData (qq_bucket q) of
        None \<Rightarrow> None
      | Some (None, b) \<Rightarrow> Some (True, q\<lparr>qq_bucket := b\<rparr>, w)
      | Some (Some (key, data), b) \<Rightarrow>
          (case work_on cl key data (q\<lparr>qq_bucket := b\<rparr>, w) of
             (q', w') \<Rightarrow> Some (False, qq_Done key q', w')))"

section \<open>Well-formed status\<close>

definition namespaces_used :: "statuses \<Rightarrow> string \<Rightarrow> int" where
  "namespaces_used ss r = (\<Sum>(_, st) \<leftarrow> ss. amount (Used st) r)"

text \<open>
  No namespace twice, every resource a namespace uses has an entry in the total, and the total is the
  sum over the namespaces.
\<close>

definition consistent :: "cluster_quota \<Rightarrow> bool" where
  "consistent q \<longleftrightarrow> distinct_namespaces (cq_Namespaces q) \<and>
     (\<forall>(_, st) \<in> set (cq_Namespaces q). dom (Used st) \<subseteq> dom (Used (cq_Total q))) \<and>
     (\<forall>r. amount (Used (cq_Total q)) r = namespaces_used (cq_Namespaces q) r)"

text \<open>What the loops never change: everything but the status.\<close>

definition same_spec :: "cluster_quota \<Rightarrow> cluster_quota \<Rightarrow> bool" where
  "same_spec q q' \<longleftrightarrow> (\<exists>total nss. q' = q\<lparr>cq_Total := total, cq_Namespaces := nss\<rparr>)"

lemma same_spec_refl [simp]: "same_spec q q"
  by (auto simp: same_spec_def intro!: exI [of _ "cq_Total q"] exI [of _ "cq_Namespaces q"])

lemma same_spec_trans: "same_spec q q' \<Longrightarrow> same_spec q' q'' \<Longrightarrow> same_spec q q''"
  unfolding same_spec_def by (elim exE) (simp, blast)

lemma same_spec_fields:
  "same_spec q q' \<Longrightarrow> cq_Hard q' = cq_Hard q \<and> cq_Selector q' = cq_Selector q \<and> cq_Name q' = cq_Name q \<and>
     cq_Scopes q' = cq_Scopes q \<and> cq_ScopeSelector q' = cq_ScopeSelector q"
  by (auto simp: same_spec_def)

lemma same_spec_usage: "same_spec q q' \<Longrightarrow> quotaUsageCalculationFunc cl w q' = quotaUsageCalculationFunc cl w q"
  by (rule ext) (simp add: quotaUsageCalculationFunc_def same_spec_fields)

lemma total_eq: "distinct_namespaces ss \<Longrightarrow> qs.total (\<lambda>st. amount (Used st) r) ss = namespaces_used ss r"
proof (induction ss)
  case Nil
  have "status_of [] = Map.empty" by (simp add: status_of_def)
  then show ?case by (simp add: qs.total_def namespaces_used_def)
next
  case (Cons x ss)
  obtain n st where x: "x = (n, st)" by (cases x)
  then have "distinct_namespaces ss" "n \<notin> fst ` set ss" using Cons.prems by (auto simp: distinct_namespaces_def)
  then have "qs.total (\<lambda>st. amount (Used st) r) (InsertResourceQuotasStatus ss (n, st)) =
      namespaces_used ss r + amount (Used st) r"
    using Cons.IH qs.total_store [of ss "\<lambda>st. amount (Used st) r" n st]
    by (simp add: qs.weight_at_def) (simp add: status_of_def map_of_eq_None_iff [THEN iffD2])
  moreover have "status_of (InsertResourceQuotasStatus ss (n, st)) = status_of (x # ss)"
    by (simp add: status_of_Insert) (simp add: x status_of_def)
  ultimately show ?case by (simp add: qs.total_def namespaces_used_def x)
qed

lemma set_statuses: "distinct_namespaces ss \<Longrightarrow> (n, st) \<in> set ss \<longleftrightarrow> status_of ss n = Some st"
  by (auto simp: distinct_namespaces_def status_of_def)

lemma consistent_alt:
  "consistent q \<longleftrightarrow> distinct_namespaces (cq_Namespaces q) \<and>
     (\<forall>n st. status_of (cq_Namespaces q) n = Some st \<longrightarrow> dom (Used st) \<subseteq> dom (Used (cq_Total q))) \<and>
     (\<forall>r. amount (Used (cq_Total q)) r = qs.total (\<lambda>st. amount (Used st) r) (cq_Namespaces q))"
proof (cases "distinct_namespaces (cq_Namespaces q)")
  case True
  then have "(\<forall>(n, st) \<in> set (cq_Namespaces q). P st) \<longleftrightarrow> (\<forall>n st. status_of (cq_Namespaces q) n = Some st \<longrightarrow> P st)" for P
    by (simp add: Ball_def set_statuses split_paired_All)
  then show ?thesis using True by (simp add: consistent_def total_eq)
qed (simp add: consistent_def)

lemma consistent_remove:
  assumes "consistent q" and "status_of (cq_Namespaces q) n = Some st"
  shows "consistent ((sub_total (Used st) q)\<lparr>cq_Namespaces := RemoveResourceQuotasStatusByNamespace (cq_Namespaces q) n\<rparr>)"
proof -
  have d: "distinct_namespaces (cq_Namespaces q)"
    and k: "status_of (cq_Namespaces q) m = Some st' \<Longrightarrow> dom (Used st') \<subseteq> dom (Used (cq_Total q))"
    and t: "amount (Used (cq_Total q)) r = qs.total (\<lambda>st. amount (Used st) r) (cq_Namespaces q)" for m st' r
    using assms(1) by (simp_all add: consistent_alt)
  have "qs.weight_at (\<lambda>st. amount (Used st) r) (cq_Namespaces q) n = amount (Used st) r" for r
    by (simp add: qs.weight_at_def assms(2))
  then show ?thesis
    using d by (auto simp: consistent_alt sub_total_def qs.total_remove distinct_Remove status_of_Remove t
        dest!: k [THEN subsetD] split: if_splits)
qed

lemma consistent_store:
  assumes "consistent q"
    and "used = (case status_of (cq_Namespaces q) n of Some old \<Rightarrow> Used old | None \<Rightarrow> Map.empty)"
  shows "consistent ((add_total (Used st) (sub_total used q))
    \<lparr>cq_Namespaces := InsertResourceQuotasStatus (cq_Namespaces q) (n, st)\<rparr>)"
proof -
  have d: "distinct_namespaces (cq_Namespaces q)"
    and k: "status_of (cq_Namespaces q) m = Some st' \<Longrightarrow> dom (Used st') \<subseteq> dom (Used (cq_Total q))"
    and t: "amount (Used (cq_Total q)) r = qs.total (\<lambda>st. amount (Used st) r) (cq_Namespaces q)" for m st' r
    using assms(1) by (simp_all add: consistent_alt)
  have w: "qs.weight_at (\<lambda>st. amount (Used st) r) (cq_Namespaces q) n = amount used r" for r
    by (simp add: qs.weight_at_def assms(2) split: option.splits)
  show ?thesis
    using d by (auto simp: consistent_alt sub_total_def add_total_def qs.total_store distinct_Insert
        status_of_Insert t w dest!: k [THEN subsetD] split: if_splits)
qed

section \<open>The loops\<close>

definition fresh_status :: "'w quota_client \<Rightarrow> 'w \<Rightarrow> cluster_quota \<Rightarrow> string \<Rightarrow> quota_status" where
  "fresh_status cl w q n = \<lparr>Hard = cq_Hard q, Used = fst (quotaUsageCalculationFunc cl w q n)\<rparr>"

definition usage_fails :: "'w quota_client \<Rightarrow> 'w \<Rightarrow> cluster_quota \<Rightarrow> string \<Rightarrow> bool" where
  "usage_fails cl w q n \<longleftrightarrow> snd (quotaUsageCalculationFunc cl w q n) \<noteq> []"

definition skips :: "cluster_quota \<Rightarrow> workItem \<Rightarrow> bool" where
  "skips q item \<longleftrightarrow> \<not> forceRecalculation item \<and>
     (\<exists>st. status_of (cq_Namespaces q) (namespaceName item) = Some st \<and> Hard st = cq_Hard q)"

definition recalculates :: "'w quota_client \<Rightarrow> 'w \<Rightarrow> string set \<Rightarrow> cluster_quota \<Rightarrow> workItem \<Rightarrow> bool" where
  "recalculates cl w M q item \<longleftrightarrow> namespaceName item \<in> M \<and> \<not> skips q item"

lemma same_spec_fresh:
  "same_spec q q' \<Longrightarrow> fresh_status cl w q' = fresh_status cl w q"
  "same_spec q q' \<Longrightarrow> usage_fails cl w q' = usage_fails cl w q"
  by (auto simp: fun_eq_iff fresh_status_def usage_fails_def same_spec_usage same_spec_fields)

lemma drop_one:
  assumes "consistent q" and "status_of (cq_Namespaces q) n = Some st"
    and "q' = (sub_total (Used st) q)\<lparr>cq_Namespaces := RemoveResourceQuotasStatusByNamespace (cq_Namespaces q) n\<rparr>"
  shows "consistent q' \<and> same_spec q q' \<and> status_of (cq_Namespaces q') = (status_of (cq_Namespaces q))(n := None)"
proof -
  have "same_spec q q'" unfolding assms(3) sub_total_def same_spec_def by blast
  then show ?thesis using consistent_remove [OF assms(1,2)] assms(3) by (simp add: status_of_Remove)
qed

lemma store_one:
  assumes "consistent q"
    and "used = (case status_of (cq_Namespaces q) n of Some old \<Rightarrow> Used old | None \<Rightarrow> Map.empty)"
    and "q' = (add_total (Used st) (sub_total used q))\<lparr>cq_Namespaces := InsertResourceQuotasStatus (cq_Namespaces q) (n, st)\<rparr>"
  shows "consistent q' \<and> same_spec q q' \<and> status_of (cq_Namespaces q') = (status_of (cq_Namespaces q))(n \<mapsto> st)"
proof -
  have "same_spec q q'" unfolding assms(3) sub_total_def add_total_def same_spec_def by (simp, blast)
  then show ?thesis using consistent_store [OF assms(1,2)] assms(3) by (simp add: status_of_Insert)
qed

lemma sync_item_eq:
  "sync_item cl w M item (q, es, rs) =
    (let n = namespaceName item; old = status_of (cq_Namespaces q) n in
     if n \<notin> M then
       (case old of
          Some st \<Rightarrow> ((sub_total (Used st) q)\<lparr>cq_Namespaces := RemoveResourceQuotasStatusByNamespace (cq_Namespaces q) n\<rparr>, es, rs)
        | None \<Rightarrow> (q, es, rs))
     else if skips q item then (q, es, rs)
     else if usage_fails cl w q n then (q, es @ [UsageFailed (snd (quotaUsageCalculationFunc cl w q n))], rs @ [item])
     else ((add_total (Used (fresh_status cl w q n))
             (sub_total (case old of Some st \<Rightarrow> Used st | None \<Rightarrow> Map.empty) q))
             \<lparr>cq_Namespaces := InsertResourceQuotasStatus (cq_Namespaces q) (n, fresh_status cl w q n)\<rparr>, es, rs))"
  by (auto simp: sync_item_def Get_status_of skips_def usage_fails_def fresh_status_def zero_status_def
      sub_total_def add_total_def Let_def split: option.splits prod.splits)

lemma sync_item_status:
  assumes "consistent q" and step: "sync_item cl w M item (q, es, rs) = (q', es', rs')"
  shows "consistent q' \<and> same_spec q q' \<and>
    status_of (cq_Namespaces q') =
      (let n = namespaceName item; old = status_of (cq_Namespaces q) in
       if n \<notin> M then old(n := None)
       else if recalculates cl w M q item \<and> \<not> usage_fails cl w q n then old(n \<mapsto> fresh_status cl w q n)
       else old)"
proof -
  let ?n = "namespaceName item" and ?old = "status_of (cq_Namespaces q)"
  show ?thesis
  proof (cases "?n \<in> M")
    case False
    show ?thesis
    proof (cases "?old ?n")
      case None
      then have "?old(?n := None) = ?old" by auto
      then show ?thesis using step False None assms(1) by (simp add: sync_item_eq Let_def)
    next
      case (Some st)
      then show ?thesis
        using step False drop_one [OF assms(1) Some refl] by (simp add: sync_item_eq Let_def)
    qed
  next
    case True
    then show ?thesis
      using step assms(1) store_one [OF assms(1) refl refl, of ?n "fresh_status cl w q ?n"]
      by (auto simp: sync_item_eq recalculates_def Let_def split: if_splits)
  qed
qed

lemma sync_item_retry:
  assumes "sync_item cl w M item (q, es, rs) = (q', es', rs')"
  shows "if recalculates cl w M q item \<and> usage_fails cl w q (namespaceName item)
    then es' = es @ [UsageFailed (snd (quotaUsageCalculationFunc cl w q (namespaceName item)))] \<and> rs' = rs @ [item]
    else es' = es \<and> rs' = rs"
  using assms by (auto simp: sync_item_eq recalculates_def Let_def split: if_splits option.splits)

lemma drop_unmatched_status:
  "consistent q \<Longrightarrow> distinct_namespaces copy \<Longrightarrow>
   (\<And>n st. (n, st) \<in> set copy \<Longrightarrow> status_of (cq_Namespaces q) n = Some st) \<Longrightarrow>
   q' = drop_unmatched M copy q \<Longrightarrow>
   consistent q' \<and> same_spec q q' \<and>
   status_of (cq_Namespaces q') = status_of (cq_Namespaces q) |` (- (fst ` set copy - M))"
proof (induction copy arbitrary: q)
  case (Cons x copy)
  obtain n st where x: "x = (n, st)" by (cases x)
  let ?q = "if n \<notin> M then (sub_total (Used st) q)
      \<lparr>cq_Namespaces := RemoveResourceQuotasStatusByNamespace (cq_Namespaces q) n\<rparr> else q"
  have q': "q' = drop_unmatched M copy ?q" using Cons.prems(4) by (simp add: x Let_def sub_total_def)
  have n: "status_of (cq_Namespaces q) n = Some st" "n \<notin> fst ` set copy" and d: "distinct_namespaces copy"
    using Cons.prems(2,3) by (auto simp: x distinct_namespaces_def)
  have step: "consistent ?q \<and> same_spec q ?q \<and>
      status_of (cq_Namespaces ?q) = status_of (cq_Namespaces q) |` (- ({n} - M))"
    using Cons.prems(1) drop_one [OF Cons.prems(1) n(1) refl]
    by (auto simp: restrict_map_def fun_eq_iff)
  have "status_of (cq_Namespaces ?q) m = Some st'" if "(m, st') \<in> set copy" for m st'
  proof -
    have "m \<noteq> n" using n(2) that by force
    then show ?thesis using step Cons.prems(3) [of m st'] that by (simp add: x restrict_map_def)
  qed
  then have "consistent q' \<and> same_spec ?q q' \<and>
      status_of (cq_Namespaces q') = status_of (cq_Namespaces ?q) |` (- (fst ` set copy - M))"
    using Cons.IH [OF _ d _ q'] step by blast
  moreover have "(status_of (cq_Namespaces q) |` (- ({n} - M))) |` (- (fst ` set copy - M)) =
      status_of (cq_Namespaces q) |` (- (fst ` set (x # copy) - M))"
    by (auto simp: x restrict_map_def fun_eq_iff)
  ultimately show ?case using step same_spec_trans by auto
qed auto

lemma items_consistent:
  "consistent q \<Longrightarrow> fold (sync_item cl w M) items (q, es, rs) = (q', es', rs') \<Longrightarrow> consistent q' \<and> same_spec q q'"
proof (induction items arbitrary: q es rs)
  case (Cons item items)
  obtain q1 es1 rs1 where step: "sync_item cl w M item (q, es, rs) = (q1, es1, rs1)"
    by (cases "sync_item cl w M item (q, es, rs)")
  then show ?case
    using sync_item_status [OF Cons.prems(1) step] Cons.IH [of q1 es1 rs1] Cons.prems(2)
    by (auto intro: same_spec_trans)
qed simp

lemma items_keep_fresh:
  assumes "consistent q" and "fold (sync_item cl w M) items (q, es, rs) = (q', es', rs')"
    and "n \<in> M" and "status_of (cq_Namespaces q) n = Some (fresh_status cl w q n)"
  shows "status_of (cq_Namespaces q') n = Some (fresh_status cl w q n)"
  using assms
proof (induction items arbitrary: q es rs)
  case (Cons item items)
  obtain q1 es1 rs1 where step: "sync_item cl w M item (q, es, rs) = (q1, es1, rs1)"
    by (cases "sync_item cl w M item (q, es, rs)")
  note st = sync_item_status [OF Cons.prems(1) step]
  then have fresh: "fresh_status cl w q1 = fresh_status cl w q" by (simp add: same_spec_fresh)
  have "status_of (cq_Namespaces q1) n = Some (fresh_status cl w q n)"
    using st Cons.prems(3,4) by (auto simp: Let_def split: if_splits)
  then show ?case
    using Cons.IH [of q1 es1 rs1] st Cons.prems(2,3) step fresh by auto
qed simp

lemma items_fresh:
  assumes "consistent q" and "fold (sync_item cl w M) items (q, es, rs) = (q', es', rs')"
    and "n \<in> M" and "\<lparr>namespaceName = n, forceRecalculation = True\<rparr> \<in> set items" and "\<not> usage_fails cl w q n"
  shows "status_of (cq_Namespaces q') n = Some (fresh_status cl w q n)"
  using assms
proof (induction items arbitrary: q es rs)
  case (Cons item items)
  obtain q1 es1 rs1 where step: "sync_item cl w M item (q, es, rs) = (q1, es1, rs1)"
    by (cases "sync_item cl w M item (q, es, rs)")
  note st = sync_item_status [OF Cons.prems(1) step]
  then have fresh: "fresh_status cl w q1 = fresh_status cl w q" "usage_fails cl w q1 = usage_fails cl w q"
    by (simp_all add: same_spec_fresh)
  have rest: "fold (sync_item cl w M) items (q1, es1, rs1) = (q', es', rs')" using Cons.prems(2) step by simp
  show ?case
  proof (cases "item = \<lparr>namespaceName = n, forceRecalculation = True\<rparr>")
    case True
    then have "status_of (cq_Namespaces q1) n = Some (fresh_status cl w q n)"
      using st Cons.prems(3,5) by (simp add: Let_def recalculates_def skips_def)
    then show ?thesis using items_keep_fresh [OF _ rest Cons.prems(3)] st fresh by auto
  next
    case False
    then show ?thesis using Cons.IH [OF _ rest Cons.prems(3)] st Cons.prems(4,5) fresh by auto
  qed
qed simp

lemma items_retry:
  assumes "consistent q" and "fold (sync_item cl w M) items (q, es, rs) = (q', es', rs')"
  shows "\<exists>e r. es' = es @ e \<and> rs' = rs @ r \<and> length e = length r \<and> set r \<subseteq> set items \<and>
    (\<forall>item \<in> set r. namespaceName item \<in> M \<and> usage_fails cl w q (namespaceName item)) \<and>
    (\<forall>item \<in> set items. namespaceName item \<in> M \<and> forceRecalculation item \<and>
       usage_fails cl w q (namespaceName item) \<longrightarrow> item \<in> set r)"
  using assms
proof (induction items arbitrary: q es rs)
  case (Cons item items)
  obtain q1 es1 rs1 where step: "sync_item cl w M item (q, es, rs) = (q1, es1, rs1)"
    by (cases "sync_item cl w M item (q, es, rs)")
  note st = sync_item_status [OF Cons.prems(1) step]
  then have fails: "usage_fails cl w q1 = usage_fails cl w q" by (simp add: same_spec_fresh)
  from Cons.IH [of q1 es1 rs1] Cons.prems(2) step st
  obtain e r where ih: "es' = es1 @ e" "rs' = rs1 @ r" "length e = length r" "set r \<subseteq> set items"
    "\<forall>item \<in> set r. namespaceName item \<in> M \<and> usage_fails cl w q (namespaceName item)"
    "\<forall>item \<in> set items. namespaceName item \<in> M \<and> forceRecalculation item \<and>
       usage_fails cl w q (namespaceName item) \<longrightarrow> item \<in> set r"
    unfolding fails [symmetric] by auto
  let ?again = "recalculates cl w M q item \<and> usage_fails cl w q (namespaceName item)"
  show ?case
  proof (cases ?again)
    case True
    then have "es' = es @ (UsageFailed (snd (quotaUsageCalculationFunc cl w q (namespaceName item))) # e)"
      "rs' = rs @ item # r" "set (item # r) \<subseteq> set (item # items)"
      using sync_item_retry [OF step] ih by auto
    moreover have "\<forall>i \<in> set (item # r). namespaceName i \<in> M \<and> usage_fails cl w q (namespaceName i)"
      using True ih(5) by (simp add: recalculates_def)
    moreover have "\<forall>i \<in> set (item # items). namespaceName i \<in> M \<and> forceRecalculation i \<and>
        usage_fails cl w q (namespaceName i) \<longrightarrow> i \<in> set (item # r)"
      using ih(6) by simp
    ultimately show ?thesis using ih(3) by (metis length_Cons)
  next
    case False
    then have "es' = es @ e" "rs' = rs @ r" "set r \<subseteq> set (item # items)"
      using sync_item_retry [OF step] ih by (auto split: if_splits)
    moreover have "\<forall>i \<in> set (item # items). namespaceName i \<in> M \<and> forceRecalculation i \<and>
        usage_fails cl w q (namespaceName i) \<longrightarrow> i \<in> set r"
      using False ih(6) by (simp add: recalculates_def skips_def) blast
    ultimately show ?thesis using ih(3,5) by metis
  qed
qed simp

lemma reconcile_result:
  assumes "consistent q" and "reconcile cl w M q items = (q', es, rs)"
  shows "consistent q'" "same_spec q q'" "dom (status_of (cq_Namespaces q')) \<subseteq> M" "Hard (cq_Total q') = cq_Hard q"
    and "\<exists>q1. fold (sync_item cl w M) items (q, [], []) = (q1, es, rs) \<and>
      status_of (cq_Namespaces q') = status_of (cq_Namespaces q1) |` M"
proof -
  obtain q1 where q1: "fold (sync_item cl w M) items (q, [], []) = (q1, es, rs)"
    and q': "q' = (drop_unmatched M (cq_Namespaces q1) q1)
      \<lparr>cq_Total := (cq_Total (drop_unmatched M (cq_Namespaces q1) q1))\<lparr>Hard := cq_Hard (drop_unmatched M (cq_Namespaces q1) q1)\<rparr>\<rparr>"
    using assms(2) by (auto simp: reconcile_def Let_def split: prod.splits)
  let ?q2 = "drop_unmatched M (cq_Namespaces q1) q1"
  have c1: "consistent q1" and s1: "same_spec q q1" using items_consistent [OF assms(1) q1] by simp_all
  then have d: "distinct_namespaces (cq_Namespaces q1)" by (simp add: consistent_def)
  have q2: "consistent ?q2 \<and> same_spec q1 ?q2 \<and>
      status_of (cq_Namespaces ?q2) = status_of (cq_Namespaces q1) |` (- (fst ` set (cq_Namespaces q1) - M))"
    by (rule drop_unmatched_status [OF c1 d _ refl]) (simp add: set_statuses [OF d])
  have "status_of (cq_Namespaces q1) n = None" if "n \<notin> fst ` set (cq_Namespaces q1)" for n
    using that by (simp add: status_of_def map_of_eq_None_iff)
  then have r: "status_of (cq_Namespaces q1) |` (- (fst ` set (cq_Namespaces q1) - M)) = status_of (cq_Namespaces q1) |` M"
    by (auto simp: restrict_map_def fun_eq_iff)
  show "consistent q'" using q2 by (simp add: q' consistent_def)
  have "same_spec ?q2 q'" unfolding q' same_spec_def
    by (rule exI, rule exI [of _ "cq_Namespaces ?q2"]) simp
  then show spec: "same_spec q q'" using q2 s1 same_spec_trans by blast
  have st: "status_of (cq_Namespaces q') = status_of (cq_Namespaces q1) |` M" using q2 r by (simp add: q')
  then show "dom (status_of (cq_Namespaces q')) \<subseteq> M" by simp
  have "cq_Hard ?q2 = cq_Hard q" using q2 s1 same_spec_trans same_spec_fields by blast
  then show "Hard (cq_Total q') = cq_Hard q" by (simp add: q')
  show "\<exists>q1. fold (sync_item cl w M) items (q, [], []) = (q1, es, rs) \<and>
      status_of (cq_Namespaces q') = status_of (cq_Namespaces q1) |` M"
    using q1 st by blast
qed

section \<open>Correctness of a reconciliation\<close>

lemma sync_result:
  assumes "mapper_GetNamespacesFor cl w (cq_Name q) = (nss, sel)" and "reconcile cl w (set nss) q items = (q', es, rs)"
    and "syncQuotaForNamespaces cl w q items = (errs, retry, w')"
  shows "errs \<noteq> [] \<and> retry = items \<and> w' = w \<or>
    errs \<noteq> [] \<and> retry = items \<and> w' = snd (qc_UpdateStatus cl w q') \<or>
    errs = es \<and> retry = rs \<and> (w' = w \<or> w' = snd (qc_UpdateStatus cl w q'))"
proof -
  have run: "(errs, retry, w') =
      (if sel \<noteq> cq_Selector q then ([MappingNotUpToDate sel (cq_Selector q)], items, w)
       else if q' = q then (es, rs, w)
       else case qc_UpdateStatus cl w q' of
              (Inl err, w') \<Rightarrow> (es @ [UpdateStatusFailed err], items, w')
            | (Inr _, w') \<Rightarrow> (es, rs, w'))"
    unfolding assms(3) [symmetric] syncQuotaForNamespaces_def assms(1) by (simp add: assms(2))
  obtain res w1 where "qc_UpdateStatus cl w q' = (res, w1)" by (cases "qc_UpdateStatus cl w q'")
  with run show ?thesis by (cases res) (simp_all split: if_splits)
qed

text \<open>C4: The total never drifts from the namespaces: from a quota whose total is the sum over its
  namespaces, whatever the work items, failing evaluators and API answers, \<open>syncQuotaForNamespaces\<close>
  either writes nothing or one status update, and the status it sends is again the exact sum, has every
  namespace at most once and only namespaces that match, carries the hard limits of the specification,
  and leaves the specification as it is.\<close>

theorem quota_status_consistent:
  assumes "consistent q" and "syncQuotaForNamespaces cl w q items = (errs, retry, w')"
  shows "w' = w \<or> (\<exists>q'. w' = snd (qc_UpdateStatus cl w q') \<and> consistent q' \<and> same_spec q q' \<and>
    Hard (cq_Total q') = cq_Hard q \<and>
    fst ` set (cq_Namespaces q') \<subseteq> set (fst (mapper_GetNamespacesFor cl w (cq_Name q))))"
proof -
  obtain nss sel where m: "mapper_GetNamespacesFor cl w (cq_Name q) = (nss, sel)" by (cases "mapper_GetNamespacesFor cl w (cq_Name q)")
  obtain q' es rs where r: "reconcile cl w (set nss) q items = (q', es, rs)" by (cases "reconcile cl w (set nss) q items")
  note res = reconcile_result [OF assms(1) r]
  have "fst ` set (cq_Namespaces q') \<subseteq> set nss"
    using res(3) by (simp add: status_of_def dom_map_of_conv_image_fst)
  moreover have "w' = w \<or> w' = snd (qc_UpdateStatus cl w q')"
    using sync_result [OF m r assms(2)] by blast
  ultimately show ?thesis using res(1,2,4) m by auto
qed

text \<open>A full recalculation makes the status true: the status that results has exactly the matching
  namespaces, each with its calculated usage, and its total is the sum of the usages.\<close>

lemma full_recalculation:
  assumes "consistent q" and "mapper_GetNamespacesFor cl w (cq_Name q) = (nss, cq_Selector q)"
    and "\<forall>n \<in> set nss. \<lparr>namespaceName = n, forceRecalculation = True\<rparr> \<in> set items"
    and "\<forall>n \<in> set nss. snd (quotaUsageCalculationFunc cl w q n) = []"
  shows "\<exists>q'. syncQuotaForNamespaces cl w q items =
      (if q' = q then ([], [], w)
       else case qc_UpdateStatus cl w q' of
              (Inl e, w') \<Rightarrow> ([UpdateStatusFailed e], items, w')
            | (Inr _, w') \<Rightarrow> ([], [], w')) \<and>
    (\<forall>n. map_of (cq_Namespaces q') n =
       (if n \<in> set nss then Some \<lparr>Hard = cq_Hard q, Used = fst (quotaUsageCalculationFunc cl w q n)\<rparr> else None)) \<and>
    (\<forall>r. amount (Used (cq_Total q')) r = (\<Sum>n \<in> set nss. amount (fst (quotaUsageCalculationFunc cl w q n)) r))"
proof -
  obtain q' es rs where r: "reconcile cl w (set nss) q items = (q', es, rs)" by (cases "reconcile cl w (set nss) q items")
  note res = reconcile_result [OF assms(1) r]
  from res(5) obtain q1 where q1: "fold (sync_item cl w (set nss)) items (q, [], []) = (q1, es, rs)"
    and st: "status_of (cq_Namespaces q') = status_of (cq_Namespaces q1) |` set nss" by blast
  have ok: "\<not> usage_fails cl w q n" if "n \<in> set nss" for n using assms(4) that by (simp add: usage_fails_def)
  have "es = [] \<and> rs = []"
    using items_retry [OF assms(1) q1] ok by (metis append_Nil length_0_conv list.set_intros(1) neq_Nil_conv)
  then have run: "syncQuotaForNamespaces cl w q items =
      (if q' = q then ([], [], w)
       else case qc_UpdateStatus cl w q' of
              (Inl e, w') \<Rightarrow> ([UpdateStatusFailed e], items, w')
            | (Inr _, w') \<Rightarrow> ([], [], w'))"
    by (simp add: syncQuotaForNamespaces_def assms(2) r Let_def split: prod.splits sum.splits)
  have each: "status_of (cq_Namespaces q') n = (if n \<in> set nss then Some (fresh_status cl w q n) else None)" for n
    using items_fresh [OF assms(1) q1 _ _ ok] assms(3) by (simp add: st restrict_map_def)
  then have "dom (status_of (cq_Namespaces q')) = set nss" by (auto simp: domIff split: if_splits)
  then have "qs.total (\<lambda>st. amount (Used st) r) (cq_Namespaces q') = (\<Sum>n \<in> set nss. amount (Used (fresh_status cl w q n)) r)" for r
    by (simp add: qs.total_def each)
  then have "amount (Used (cq_Total q')) r = (\<Sum>n \<in> set nss. amount (Used (fresh_status cl w q n)) r)" for r
    using res(1) by (simp add: consistent_alt)
  then show ?thesis using run each by (auto simp: status_of_def fresh_status_def intro!: exI [of _ q'])
qed


lemma rl_Add_Subtract: "dom u \<subseteq> dom t \<Longrightarrow> rl_Add (rl_Subtract t u) u = t"
  by (auto simp: rl_Add_def rl_Subtract_def fun_eq_iff split: option.splits)

lemma Insert_same:
  assumes "distinct_namespaces ss" and "status_of ss n = Some st"
  shows "InsertResourceQuotasStatus ss (n, st) = ss"
proof -
  have "(n, st) \<in> set ss" using assms by (simp add: set_statuses)
  moreover have "x = (n, st)" if "x \<in> set ss" "fst x = n" for x
    using that set_statuses [OF assms(1), of n "snd x"] assms(2) by (metis option.inject prod.collapse)
  then have "map (\<lambda>curr. if fst curr = n then (n, st) else curr) ss = ss" by (intro map_idI) auto
  ultimately show ?thesis by (force simp: InsertResourceQuotasStatus_def Let_def list_ex_iff)
qed

lemma up_to_date_item:
  assumes "consistent q" and "dom (status_of (cq_Namespaces q)) \<subseteq> M"
    and "namespaceName item \<in> M \<longrightarrow> status_of (cq_Namespaces q) (namespaceName item) =
      Some (fresh_status cl w q (namespaceName item)) \<and> \<not> usage_fails cl w q (namespaceName item)"
  shows "sync_item cl w M item (q, es, rs) = (q, es, rs)"
proof (cases "namespaceName item \<in> M")
  case False
  then have "status_of (cq_Namespaces q) (namespaceName item) = None" using assms(2) by (auto simp: domIff)
  then show ?thesis using False by (simp add: sync_item_eq Let_def)
next
  case True
  let ?st = "fresh_status cl w q (namespaceName item)"
  have st: "status_of (cq_Namespaces q) (namespaceName item) = Some ?st" and ok: "\<not> usage_fails cl w q (namespaceName item)"
    using assms(3) True by simp_all
  have "InsertResourceQuotasStatus (cq_Namespaces q) (namespaceName item, ?st) = cq_Namespaces q"
    using assms(1) st by (auto simp: consistent_def intro: Insert_same)
  moreover have "rl_Add (rl_Subtract (Used (cq_Total q)) (Used ?st)) (Used ?st) = Used (cq_Total q)"
    using assms(1) st by (intro rl_Add_Subtract) (auto simp: consistent_alt)
  ultimately show ?thesis using True st ok by (simp add: sync_item_eq Let_def add_total_def sub_total_def)
qed

lemma drop_unmatched_none: "fst ` set copy \<subseteq> M \<Longrightarrow> drop_unmatched M copy q = q"
  by (induction copy) auto

text \<open>C31: A resync of an up to date quota writes nothing: when the status has the present usage of every
  namespace in the work items, no other than matching namespaces and the present hard limits, then even
  forced recalculations end without an API call, without an error and with nothing to retry.\<close>

theorem resync_writes_nothing:
  assumes "consistent q" and "mapper_GetNamespacesFor cl w (cq_Name q) = (nss, cq_Selector q)"
    and "Hard (cq_Total q) = cq_Hard q" and "fst ` set (cq_Namespaces q) \<subseteq> set nss"
    and "\<forall>item \<in> set items. namespaceName item \<in> set nss \<longrightarrow>
      map_of (cq_Namespaces q) (namespaceName item) =
        Some \<lparr>Hard = cq_Hard q, Used = fst (quotaUsageCalculationFunc cl w q (namespaceName item))\<rparr> \<and>
      snd (quotaUsageCalculationFunc cl w q (namespaceName item)) = []"
  shows "syncQuotaForNamespaces cl w q items = ([], [], w)"
proof -
  have dom: "dom (status_of (cq_Namespaces q)) \<subseteq> set nss"
    using assms(4) by (simp add: status_of_def dom_map_of_conv_image_fst)
  have "fold (sync_item cl w (set nss)) items (q, [], []) = (q, [], [])"
    using assms(5)
  proof (induction items)
    case (Cons item items)
    have "sync_item cl w (set nss) item (q, [], []) = (q, [], [])"
      using Cons.prems by (intro up_to_date_item [OF assms(1) dom]) (simp add: status_of_def fresh_status_def usage_fails_def)
    then show ?case using Cons by simp
  qed simp
  then have "reconcile cl w (set nss) q items = (q, [], [])"
    using assms(3) by (simp add: reconcile_def drop_unmatched_none [OF assms(4)] Let_def)
  then show ?thesis by (simp add: syncQuotaForNamespaces_def assms(2))
qed

section \<open>The worker and the queue\<close>

lemmas queue_defs = qq_AddWithDataRateLimited_def qq_AddWithData_def qq_Forget_def qq_Done_def
  AddWithDataRateLimited_def AddWithDataRateLimited_queue_def AddWithData_def AddWithData_queue_def
  Add_data_def bucket_Done_def Done_queue_def Done_data_def

text \<open>A worker's step hands every item to one reconciliation and puts back exactly what failed. When
  the step took the key \<open>k\<close> with its items: if the quota is gone or the reconciliation had no error, no
  work is left for \<open>k\<close> and its failure count is reset; if the lister failed all items, and if the
  reconciliation failed its retry items, are the waiting work of \<open>k\<close>, a delayed add of \<open>k\<close> is pending and
  the failure count went up. The key is no longer in progress, and no other key is touched.\<close>

lemma worker_puts_back_failures:
  assumes "GetWithData (qq_bucket q) = Some (Some (k, items), b)" and "workFunc cl (q, w) = Some (quit, q', w')"
    and "\<not> q_shuttingDown (queue (qq_bucket q))"
  shows "\<not> quit \<and> k \<notin> inProgress (qq_bucket q') \<and> items = work (qq_bucket q) k \<and>
    (\<forall>k'. k' \<noteq> k \<longrightarrow> work (qq_bucket q') k' = work (qq_bucket q) k' \<and> qq_failures q' k' = qq_failures q k') \<and>
    (case ql_Get cl w k of
       Inl NotFound \<Rightarrow> w' = w \<and> work (qq_bucket q') k = [] \<and> qq_failures q' k = 0
     | Inl _ \<Rightarrow> w' = w \<and> work (qq_bucket q') k = items \<and> k \<in> set (delayed (qq_bucket q')) \<and>
         qq_failures q' k = qq_failures q k + 1
     | Inr quota \<Rightarrow>
         (case syncQuotaForNamespaces cl w quota items of
            ([], _, w1) \<Rightarrow> w' = w1 \<and> work (qq_bucket q') k = [] \<and> qq_failures q' k = 0
          | (_ # _, retry, w1) \<Rightarrow> w' = w1 \<and> work (qq_bucket q') k = retry \<and> k \<in> set (delayed (qq_bucket q')) \<and>
              qq_failures q' k = qq_failures q k + 1))"
proof -
  obtain iq where b: "b = (qq_bucket q)\<lparr>queue := iq, work := (work (qq_bucket q))(k := []),
      dirtyWork := (dirtyWork (qq_bucket q))(k := []), inProgress := insert k (inProgress (qq_bucket q))\<rparr>"
    and items: "items = work (qq_bucket q) k" and shut: "\<not> q_shuttingDown iq"
    using assms(1,3) by (auto simp: GetWithData_def Get_data_def split: option.splits prod.splits elim!: wq_Get_cases)
  obtain q1 where q1: "work_on cl k items (q\<lparr>qq_bucket := b\<rparr>, w) = (q1, w')" "q' = qq_Done k q1" "\<not> quit"
    using assms by (auto simp: workFunc_def split: prod.splits)
  show ?thesis
    using q1 items shut
    by (auto simp: b work_on_def queue_defs split: sum.splits api_error.splits prod.splits list.splits if_splits)
qed

section \<open>Sources of work\<close>

text \<open>The data the next round of a key gets.\<close>

definition pending :: "quota_queue \<Rightarrow> string \<Rightarrow> workItem list" where
  "pending q k = (if k \<in> inProgress (qq_bucket q) then dirtyWork (qq_bucket q) k else work (qq_bucket q) k)"

abbreviation dirty_keys :: "quota_queue \<Rightarrow> string set" where
  "dirty_keys q \<equiv> q_dirty (queue (qq_bucket q))"

abbreviation shutting_down :: "quota_queue \<Rightarrow> bool" where
  "shutting_down q \<equiv> q_shuttingDown (queue (qq_bucket q))"

text \<open>An operation that adds the items \<open>ds\<close> for the key \<open>k\<close>, and adds the key itself if \<open>touch\<close>.\<close>

definition enqueues :: "string \<Rightarrow> workItem list \<Rightarrow> bool \<Rightarrow> quota_queue \<Rightarrow> quota_queue \<Rightarrow> bool" where
  "enqueues k ds touch q q' \<longleftrightarrow>
     (\<forall>k'. pending q' k' = pending q k' @ (if k' = k then ds else [])) \<and>
     inProgress (qq_bucket q') = inProgress (qq_bucket q) \<and> shutting_down q' = shutting_down q \<and>
     dirty_keys q' = dirty_keys q \<union> (if touch \<and> \<not> shutting_down q then {k} else {})"

lemma enqueues_nothing [simp]: "enqueues k [] False q q"
  by (simp add: enqueues_def)

lemma enqueues_AddWithData: "enqueues k ds True q (qq_AddWithData k ds q)"
  by (auto simp: enqueues_def pending_def queue_defs wq_Add_def)

lemma enqueues_calculate:
  "enqueues k (map (\<lambda>n. \<lparr>namespaceName = n, forceRecalculation = False\<rparr>) nss) (nss \<noteq> []) q (calculate k nss q)"
  "enqueues k (map (\<lambda>n. \<lparr>namespaceName = n, forceRecalculation = True\<rparr>) nss) (nss \<noteq> []) q (forceCalculation k nss q)"
  by (simp_all add: calculate_def forceCalculation_def enqueues_AddWithData)

lemma enqueues_fold:
  assumes "\<And>x q. enqueues (key x) (ds x) (touch x) q (f x q)" and "distinct (map key xs)"
  shows "pending (fold f xs q) k = pending q k @ concat (map ds (filter (\<lambda>x. key x = k) xs))"
    "inProgress (qq_bucket (fold f xs q)) = inProgress (qq_bucket q)"
    "\<not> shutting_down q \<Longrightarrow> dirty_keys (fold f xs q) = dirty_keys q \<union> key ` {x \<in> set xs. touch x}"
proof -
  show "pending (fold f xs q) k = pending q k @ concat (map ds (filter (\<lambda>x. key x = k) xs))"
  proof (induction xs arbitrary: q)
    case (Cons x xs)
    have "pending (f x q) k = pending q k @ (if k = key x then ds x else [])"
      using assms(1) [of x q] by (simp add: enqueues_def)
    then show ?case by (simp add: Cons.IH)
  qed simp
  show "inProgress (qq_bucket (fold f xs q)) = inProgress (qq_bucket q)"
  proof (induction xs arbitrary: q)
    case (Cons x xs)
    then show ?case using assms(1) [of x q] by (simp add: enqueues_def)
  qed simp
  show "\<not> shutting_down q \<Longrightarrow> dirty_keys (fold f xs q) = dirty_keys q \<union> key ` {x \<in> set xs. touch x}"
  proof (induction xs arbitrary: q)
    case (Cons x xs)
    have "\<not> shutting_down (f x q)" "dirty_keys (f x q) = dirty_keys q \<union> (if touch x then {key x} else {})"
      using assms(1) [of x q] Cons.prems by (simp_all add: enqueues_def)
    then show ?case using Cons.IH [of "f x q"] by auto
  qed simp
qed

lemma filter_distinct_key: "distinct (map key xs) \<Longrightarrow> x \<in> set xs \<Longrightarrow> filter (\<lambda>y. key y = key x) xs = [x]"
  by (induction xs) (auto simp: filter_empty_conv image_iff)

lemma enqueues_replenish:
  "enqueues k (if tracked then [\<lparr>namespaceName = ns, forceRecalculation = True\<rparr>] else []) tracked q
     (replenish_one cl w evs ns k q)"
  if "tracked \<longleftrightarrow> (\<exists>quota. ql_Get cl w k = Inr quota \<and>
    (\<exists>ev \<in> set evs. ev_MatchingResources ev (ResourceNames (qc_order cl) (Hard (cq_Total quota))) \<noteq> []))"
  using that enqueues_calculate(2) [of k "[ns]" q]
  by (auto simp: replenish_one_def Let_def list_ex_iff split: sum.splits)

lemma enqueues_calculate_one:
  "enqueues (cq_Name quota)
     (map (\<lambda>n. \<lparr>namespaceName = n, forceRecalculation = True\<rparr>) (fst (mapper_GetNamespacesFor cl w (cq_Name quota))))
     (fst (mapper_GetNamespacesFor cl w (cq_Name quota)) \<noteq> [] \<or> cq_Namespaces quota \<noteq> []) q (calculate_one cl w quota q)"
  using enqueues_calculate(2) [of "cq_Name quota" "fst (mapper_GetNamespacesFor cl w (cq_Name quota))" q]
    enqueues_AddWithData [of "cq_Name quota" "[]" q]
  by (auto simp: calculate_one_def Let_def)

text \<open>
  The quotas that a change of an object of the kind \<open>gr\<close> in a namespace concerns: those of the namespace that can be
  read and track a resource some evaluator of the kind measures.
\<close>

definition tracks :: "'w quota_client \<Rightarrow> 'w \<Rightarrow> string \<times> string \<Rightarrow> string \<Rightarrow> string \<Rightarrow> bool" where
  "tracks cl w gr ns k \<longleftrightarrow> k \<in> set (mapper_GetClusterQuotasFor cl w ns) \<and>
     (\<exists>quota ev. ql_Get cl w k = Inr quota \<and> ev \<in> set (qc_registry cl) \<and> ev_GroupResource ev = gr \<and>
       ev_MatchingResources ev (ResourceNames (qc_order cl) (Hard (cq_Total quota))) \<noteq> [])"

lemma replenishQuota_enqueues:
  assumes "distinct (mapper_GetClusterQuotasFor cl w ns)"
  shows "pending (replenishQuota cl w gr ns q) k =
      pending q k @ (if tracks cl w gr ns k then [\<lparr>namespaceName = ns, forceRecalculation = True\<rparr>] else [])"
    and "\<not> shutting_down q \<Longrightarrow> dirty_keys (replenishQuota cl w gr ns q) = dirty_keys q \<union> {k. tracks cl w gr ns k}"
proof -
  let ?evs = "filter (\<lambda>ev. ev_GroupResource ev = gr) (qc_registry cl)"
  let ?names = "mapper_GetClusterQuotasFor cl w ns"
  define t where "t k \<longleftrightarrow> (\<exists>quota. ql_Get cl w k = Inr quota \<and>
    (\<exists>ev \<in> set ?evs. ev_MatchingResources ev (ResourceNames (qc_order cl) (Hard (cq_Total quota))) \<noteq> []))" for k
  have tr: "tracks cl w gr ns k \<longleftrightarrow> k \<in> set ?names \<and> t k" for k unfolding tracks_def t_def by auto
  let ?ds = "\<lambda>k. if t k then [\<lparr>namespaceName = ns, forceRecalculation = True\<rparr>] else []"
  have step: "enqueues k (?ds k) (t k) q (replenish_one cl w ?evs ns k q)" for k q
    by (rule enqueues_replenish) (rule t_def)
  have eq: "replenishQuota cl w gr ns q = fold (replenish_one cl w ?evs ns) ?names q"
    if "?evs \<noteq> []" using that by (simp add: replenishQuota_def)
  have none: "\<not> t k" if "?evs = []" for k using that unfolding t_def by simp
  have one: "filter (\<lambda>x. x = k) ?names = (if k \<in> set ?names then [k] else [])" for k
    using filter_distinct_key [of "\<lambda>x. x" ?names k] assms(1) by (auto simp: filter_empty_conv)
  note fold = enqueues_fold [where key = "\<lambda>k. k" and f = "replenish_one cl w ?evs ns" and xs = ?names and q = q,
      OF step, unfolded map_ident, OF assms(1)]
  show "pending (replenishQuota cl w gr ns q) k =
      pending q k @ (if tracks cl w gr ns k then [\<lparr>namespaceName = ns, forceRecalculation = True\<rparr>] else [])"
    by (cases "?evs = []") (use none in \<open>simp add: replenishQuota_def tr\<close>, simp add: eq fold(1) one tr)
  show "dirty_keys (replenishQuota cl w gr ns q) = dirty_keys q \<union> {k. tracks cl w gr ns k}" if "\<not> shutting_down q"
    by (cases "?evs = []") (use none in \<open>simp add: replenishQuota_def tr\<close>, use eq fold(3) [OF that] tr in auto)
qed

text \<open>Replenishment recalculates exactly the quotas concerned: when an object of a resource goes away in
  a namespace, one forced item for that namespace is added to each quota of the namespace that can be
  read and tracks a resource some evaluator of that kind measures, and to no other quota; those quotas
  become dirty unless the queue is shutting down.\<close>

lemma replenish_enqueues_tracking:
  assumes "distinct (mapper_GetClusterQuotasFor cl w ns)"
    and "tracked = (\<lambda>k. k \<in> set (mapper_GetClusterQuotasFor cl w ns) \<and>
      (\<exists>quota ev. ql_Get cl w k = Inr quota \<and> ev \<in> set (qc_registry cl) \<and> ev_GroupResource ev = gr \<and>
        ev_MatchingResources ev (ResourceNames (qc_order cl) (Hard (cq_Total quota))) \<noteq> []))"
  shows "(\<forall>k. pending (replenishQuota cl w gr ns q) k =
      pending q k @ (if tracked k then [\<lparr>namespaceName = ns, forceRecalculation = True\<rparr>] else [])) \<and>
    (\<not> shutting_down q \<longrightarrow> dirty_keys (replenishQuota cl w gr ns q) = dirty_keys q \<union> {k. tracked k})"
proof -
  have "tracked = tracks cl w gr ns" unfolding assms(2) tracks_def by (rule ext) blast
  then show ?thesis using replenishQuota_enqueues [OF assms(1)] by simp
qed

lemma calculateAll_enqueues:
  assumes "ql_List cl w = Inr quotas" and "distinct (map cq_Name quotas)" and "quota \<in> set quotas"
  shows "pending (calculateAll cl w q) (cq_Name quota) = pending q (cq_Name quota) @
      map (\<lambda>n. \<lparr>namespaceName = n, forceRecalculation = True\<rparr>) (fst (mapper_GetNamespacesFor cl w (cq_Name quota)))"
    "inProgress (qq_bucket (calculateAll cl w q)) = inProgress (qq_bucket q)"
proof -
  note fold = enqueues_fold [where f = "calculate_one cl w" and xs = quotas and q = q, OF enqueues_calculate_one assms(2)]
  show "pending (calculateAll cl w q) (cq_Name quota) = pending q (cq_Name quota) @
      map (\<lambda>n. \<lparr>namespaceName = n, forceRecalculation = True\<rparr>) (fst (mapper_GetNamespacesFor cl w (cq_Name quota)))"
    using fold(1) [of "cq_Name quota"] assms(1)
    by (simp add: calculateAll_def filter_distinct_key [OF assms(2,3)])
  show "inProgress (qq_bucket (calculateAll cl w q)) = inProgress (qq_bucket q)"
    using fold(2) assms(1) by (simp add: calculateAll_def)
qed

text \<open>C30: The periodic resync repairs every quota. After \<open>calculateAll\<close>, when a worker takes the key of a
  listed quota that nobody was working on, with the mapping up to date and no evaluator failing, then
  the status it ends with (already there, or written in the one update of this step) has exactly the
  matching namespaces with their calculated usage, and the total is the sum of these usages.\<close>

theorem periodic_resync_exact:
  assumes "ql_List cl w = Inr quotas" and "distinct (map cq_Name quotas)" and "quota \<in> set quotas"
    and "consistent quota" and "mapper_GetNamespacesFor cl w (cq_Name quota) = (nss, cq_Selector quota)"
    and "\<forall>n \<in> set nss. snd (quotaUsageCalculationFunc cl w quota n) = []"
    and "cq_Name quota \<notin> inProgress (qq_bucket q)" and "ql_Get cl w (cq_Name quota) = Inr quota"
    and "GetWithData (qq_bucket (calculateAll cl w q)) = Some (Some (cq_Name quota, items), b)"
    and "workFunc cl (calculateAll cl w q, w) = Some (quit, q', w')"
  shows "\<exists>quota'. w' = (if quota' = quota then w else snd (qc_UpdateStatus cl w quota')) \<and>
    (\<forall>n. map_of (cq_Namespaces quota') n =
       (if n \<in> set nss then Some \<lparr>Hard = cq_Hard quota, Used = fst (quotaUsageCalculationFunc cl w quota n)\<rparr> else None)) \<and>
    (\<forall>r. amount (Used (cq_Total quota')) r = (\<Sum>n \<in> set nss. amount (fst (quotaUsageCalculationFunc cl w quota n)) r))"
proof -
  let ?k = "cq_Name quota" and ?q = "calculateAll cl w q"
  note all = calculateAll_enqueues [OF assms(1-3), of q]
  have "items = work (qq_bucket ?q) ?k"
    using assms(9) by (auto simp: GetWithData_def Get_data_def split: option.splits prod.splits)
  then have "items = pending ?q ?k" using all(2) assms(7) by (simp add: pending_def)
  then have "\<forall>n \<in> set nss. \<lparr>namespaceName = n, forceRecalculation = True\<rparr> \<in> set items"
    using all(1) assms(5) by auto
  from full_recalculation [OF assms(4,5) this assms(6)] obtain quota' where
    run: "syncQuotaForNamespaces cl w quota items =
      (if quota' = quota then ([], [], w)
       else case qc_UpdateStatus cl w quota' of
              (Inl e, w') \<Rightarrow> ([UpdateStatusFailed e], items, w')
            | (Inr _, w') \<Rightarrow> ([], [], w'))"
    and exact: "\<forall>n. map_of (cq_Namespaces quota') n =
       (if n \<in> set nss then Some \<lparr>Hard = cq_Hard quota, Used = fst (quotaUsageCalculationFunc cl w quota n)\<rparr> else None)"
      "\<forall>r. amount (Used (cq_Total quota')) r = (\<Sum>n \<in> set nss. amount (fst (quotaUsageCalculationFunc cl w quota n)) r)"
    by blast
  have "w' = snd (snd (syncQuotaForNamespaces cl w quota items))"
    using assms(8,9,10) by (auto simp: workFunc_def work_on_def split: prod.splits if_splits)
  then have "w' = (if quota' = quota then w else snd (qc_UpdateStatus cl w quota'))"
    by (simp add: run split: prod.splits sum.splits)
  then show ?thesis using exact by blast
qed

end
