(* ===== verification/Quota_Monitor.thy ===== *)
theory Quota_Monitor
  imports Go_Std Generic_Informers Quota_Reconciliation
begin

text \<open>
  Which resources the quota controllers monitor: \<open>Sync\<close>, \<open>resyncMonitors\<close>, \<open>printDiff\<close> and the constructor
  of \<open>reconciliation_controller.go\<close>, the discovery filter of \<open>src/pkg/cmd/controller/quota.go\<close>, and the
  vendored \<open>QuotaMonitor.SyncMonitors\<close> they call.
\<close>

section \<open>The monitors\<close>

text \<open>
  The resources that have a monitor and those that have one running. \<open>qm_ignored\<close> are groups and
  resources that are never monitored; \<open>qm_running\<close> is set once \<open>QuotaMonitor.Run\<close> has begun.
\<close>

record quota_monitor =
  qm_monitors :: "gvr set"
  qm_started :: "gvr set"
  qm_ignored :: "(string \<times> string) set"
  qm_running :: bool

definition ignored :: "quota_monitor \<Rightarrow> gvr \<Rightarrow> bool" where
  "ignored qm r \<longleftrightarrow> (gv_Group r, gv_Resource r) \<in> qm_ignored qm"

text \<open>\<open>can_start\<close> is whether \<open>controllerFor\<close> finds an informer. The result tells whether there was an error.\<close>

definition SyncMonitors :: "(gvr \<Rightarrow> bool) \<Rightarrow> quota_monitor \<Rightarrow> gvr set \<Rightarrow> bool \<times> quota_monitor" where
  "SyncMonitors can_start qm resources =
     (let wanted = {r \<in> resources. \<not> ignored qm r};
          current = {r \<in> wanted. r \<in> qm_monitors qm \<or> can_start r}
      in (wanted \<noteq> current, qm\<lparr>qm_monitors := current, qm_started := qm_started qm \<inter> current\<rparr>))"

definition StartMonitors :: "quota_monitor \<Rightarrow> quota_monitor" where
  "StartMonitors qm = (if \<not> qm_running qm then qm else qm\<lparr>qm_started := qm_monitors qm\<rparr>)"

definition qm_Run :: "quota_monitor \<Rightarrow> quota_monitor" where
  "qm_Run qm = StartMonitors (qm\<lparr>qm_running := True\<rparr>)"

definition resyncMonitors :: "(gvr \<Rightarrow> bool) \<Rightarrow> quota_monitor \<Rightarrow> gvr set \<Rightarrow> bool \<times> quota_monitor" where
  "resyncMonitors can_start qm resources =
     (case SyncMonitors can_start qm resources of (err, qm') \<Rightarrow> (err, StartMonitors qm'))"

section \<open>Following discovery\<close>

text \<open>\<open>IsGroupDiscoveryFailedError\<close> holds of the first.\<close>

datatype discovery_error = GroupDiscoveryFailed | OtherDiscoveryError string

text \<open>
  One round of \<open>Sync\<close>: the resources discovery returned with its error, the resources of the last round
  that went through, and the monitors.
\<close>

definition Sync_once :: "(gvr \<Rightarrow> bool) \<Rightarrow> gvr set \<times> discovery_error option \<Rightarrow>
    gvr set \<times> quota_monitor \<Rightarrow> gvr set \<times> quota_monitor" where
  "Sync_once can_start discovered s =
     (case (discovered, s) of ((newResources, err), (oldResources, qm)) \<Rightarrow>
      let merged = (case err of
                      None \<Rightarrow> Some newResources
                    | Some e \<Rightarrow>
                        if e = GroupDiscoveryFailed \<and> newResources \<noteq> {} then Some (newResources \<union> oldResources) else None)
      in case merged of
           None \<Rightarrow> s
         | Some resources \<Rightarrow>
             if resources = {} then s
             else if oldResources = resources then s
             else (case resyncMonitors can_start qm resources of
                     (True, qm') \<Rightarrow> (oldResources, qm')
                   | (False, qm') \<Rightarrow> (resources, qm')))"

definition Sync :: "(gvr \<Rightarrow> bool) \<Rightarrow> (gvr set \<times> discovery_error option) list \<Rightarrow> quota_monitor \<Rightarrow> gvr set \<times> quota_monitor" where
  "Sync can_start answers qm = fold (Sync_once can_start) answers ({}, qm)"

text \<open>
  The constructor: a group discovery failure and errors of the first \<open>SyncMonitors\<close> are only reported.
\<close>

definition NewClusterQuotaReconcilationController :: "(gvr \<Rightarrow> bool) \<Rightarrow> (string \<times> string) set \<Rightarrow>
    gvr set \<times> discovery_error option \<Rightarrow> discovery_error + (quota_queue \<times> quota_monitor)" where
  "NewClusterQuotaReconcilationController can_start ignoredResources discovered =
     (let qm = \<lparr>qm_monitors = {}, qm_started = {}, qm_ignored = ignoredResources, qm_running = False\<rparr>;
          ok = (\<lambda>resources. Inr (\<lparr>qq_bucket = NewBucketingWorkQueue, qq_failures = (\<lambda>_. 0)\<rparr>,
                                 snd (SyncMonitors can_start qm resources)))
      in case discovered of
           (resources, None) \<Rightarrow> ok resources
         | (resources, Some GroupDiscoveryFailed) \<Rightarrow> ok resources
         | (_, Some e) \<Rightarrow> Inl e)"

definition gvr_String :: "gvr \<Rightarrow> string" where
  "gvr_String r = gv_Group r @ ''/'' @ gv_Version r @ '', Resource='' @ gv_Resource r"

text \<open>\<open>%v\<close> of a list of strings.\<close>

fun spaced :: "string list \<Rightarrow> string" where
  "spaced [] = []"
| "spaced [s] = s"
| "spaced (s # ss) = s @ '' '' @ spaced ss"

definition printDiff :: "gvr set \<Rightarrow> gvr set \<Rightarrow> string" where
  "printDiff oldResources newResources =
     (let removed = gvr_String ` (oldResources - newResources); added = gvr_String ` (newResources - oldResources)
      in ''added: ['' @ spaced (sorted_list_of_set added) @ ''], removed: ['' @ spaced (sorted_list_of_set removed) @ '']'')"

section \<open>Monitors survive failing discovery\<close>

lemma SyncMonitors_set:
  assumes "SyncMonitors can_start qm resources = (err, qm')"
  shows "{r \<in> qm_monitors qm \<inter> resources. \<not> ignored qm r} \<subseteq> qm_monitors qm' \<and> qm_monitors qm' \<subseteq> resources \<and>
     (\<forall>r \<in> qm_monitors qm'. \<not> ignored qm' r) \<and> qm_ignored qm' = qm_ignored qm"
proof -
  define current where "current = {r \<in> {r \<in> resources. \<not> ignored qm r}. r \<in> qm_monitors qm \<or> can_start r}"
  have "snd (SyncMonitors can_start qm resources) = qm\<lparr>qm_monitors := current, qm_started := qm_started qm \<inter> current\<rparr>"
    unfolding SyncMonitors_def Let_def snd_conv current_def by (rule refl)
  then have "qm' = qm\<lparr>qm_monitors := current, qm_started := qm_started qm \<inter> current\<rparr>"
    unfolding assms snd_conv .
  then have eqs: "qm_monitors qm' = current" "qm_ignored qm' = qm_ignored qm" "ignored qm' = ignored qm"
    by (simp_all add: ignored_def fun_eq_iff)
  show ?thesis unfolding eqs current_def by blast
qed

lemma resyncMonitors_set:
  assumes "resyncMonitors can_start qm resources = (err, qm')"
  shows "{r \<in> qm_monitors qm \<inter> resources. \<not> ignored qm r} \<subseteq> qm_monitors qm' \<and> qm_monitors qm' \<subseteq> resources \<and>
     (\<forall>r \<in> qm_monitors qm'. \<not> ignored qm' r) \<and> qm_ignored qm' = qm_ignored qm"
proof -
  obtain e q1 where q1: "SyncMonitors can_start qm resources = (e, q1)" by (cases "SyncMonitors can_start qm resources")
  then have "qm' = StartMonitors q1" using assms by (simp add: resyncMonitors_def)
  then have "qm_monitors qm' = qm_monitors q1" "qm_ignored qm' = qm_ignored q1" "ignored qm' = ignored q1"
    by (simp_all add: StartMonitors_def ignored_def fun_eq_iff)
  then show ?thesis using SyncMonitors_set [OF q1] by metis
qed

text \<open>The monitored resources were all in the last round, and none of them is ignored.\<close>

definition monitors_tracked :: "gvr set \<times> quota_monitor \<Rightarrow> bool" where
  "monitors_tracked s \<longleftrightarrow> (case s of (oldResources, qm) \<Rightarrow>
     qm_monitors qm \<subseteq> oldResources \<and> (\<forall>r \<in> qm_monitors qm. \<not> ignored qm r))"

lemma Sync_once_eq:
  "Sync_once can_start (new, err) (old, qm) =
     (let resources = (if err = None then new else new \<union> old)
      in if new = {} \<or> err \<noteq> None \<and> err \<noteq> Some GroupDiscoveryFailed \<or> old = resources then (old, qm)
         else case resyncMonitors can_start qm resources of (e, qm') \<Rightarrow> (if e then old else resources, qm'))"
proof (cases err)
  case None
  then show ?thesis by (simp add: Sync_once_def Let_def split: prod.split bool.split)
next
  case (Some e)
  then show ?thesis by (cases e) (simp_all add: Sync_once_def Let_def split: prod.split bool.split)
qed

lemma Sync_once_cases:
  assumes "Sync_once can_start (new, err) (old, qm) = (old', qm')"
  obtains "old' = old" "qm' = qm" "new = {} \<or> err \<noteq> None \<and> err \<noteq> Some GroupDiscoveryFailed \<or> old = (if err = None then new else new \<union> old)"
  | e where "new \<noteq> {}" "resyncMonitors can_start qm (if err = None then new else new \<union> old) = (e, qm')"
      "old' = (if e then old else if err = None then new else new \<union> old)"
proof -
  define res where "res = (if err = None then new else new \<union> old)"
  obtain e q1 where r: "resyncMonitors can_start qm res = (e, q1)" by (cases "resyncMonitors can_start qm res")
  show thesis
  proof (cases "new = {} \<or> err \<noteq> None \<and> err \<noteq> Some GroupDiscoveryFailed \<or> old = res")
    case True
    then have "old' = old" "qm' = qm" using assms unfolding Sync_once_eq Let_def res_def by (metis prod.inject)+
    then show thesis using that(1) True unfolding res_def by blast
  next
    case False
    then have "Sync_once can_start (new, err) (old, qm) = (if e then old else res, q1)"
      unfolding Sync_once_eq Let_def res_def [symmetric] r prod.case by (simp only: if_False)
    then have "old' = (if e then old else res)" "qm' = q1" using assms by (metis prod.inject)+
    then show thesis using that(2) [of e] False r unfolding res_def by blast
  qed
qed

lemma resyncMonitors_ok: "\<forall>r. can_start r \<Longrightarrow> \<not> fst (resyncMonitors can_start qm resources)"
  by (simp add: resyncMonitors_def SyncMonitors_def Let_def split: prod.splits)

text \<open>Once a round went through, the monitors are tracked, and they stay so.\<close>

definition sync_inv :: "gvr set \<times> quota_monitor \<Rightarrow> bool" where
  "sync_inv s \<longleftrightarrow> fst s \<noteq> {} \<longrightarrow> monitors_tracked s"

lemma Sync_once_inv:
  assumes "\<forall>r. can_start r" and "sync_inv (old, qm)" and "Sync_once can_start (new, err) (old, qm) = (old', qm')"
  shows "sync_inv (old', qm') \<and>
    (old \<noteq> {} \<or> new \<noteq> {} \<and> (err = None \<or> err = Some GroupDiscoveryFailed) \<longrightarrow> old' \<noteq> {})"
  using assms(3)
proof (cases rule: Sync_once_cases)
  case 1
  then show ?thesis using assms(2) by (auto split: if_splits)
next
  case (2 e)
  have "\<not> e" using resyncMonitors_ok [OF assms(1)] 2(2) by (metis fst_conv)
  then have "monitors_tracked (old', qm')" "old' \<noteq> {}"
    using resyncMonitors_set [OF 2(2)] 2(1,3) unfolding monitors_tracked_def prod.case by (simp_all split: if_splits)
  then show ?thesis by (simp add: sync_inv_def)
qed

lemma Sync_inv:
  assumes "\<forall>r. can_start r" and "sync_inv s"
  shows "sync_inv (fold (Sync_once can_start) answers s) \<and>
    (fst s \<noteq> {} \<or> (\<exists>res e. (res, e) \<in> set answers \<and> res \<noteq> {} \<and> (e = None \<or> e = Some GroupDiscoveryFailed)) \<longrightarrow>
      fst (fold (Sync_once can_start) answers s) \<noteq> {})"
  using assms(2)
proof (induction answers arbitrary: s)
  case (Cons a answers)
  obtain new err where a: "a = (new, err)" by (cases a)
  obtain old qm where s: "s = (old, qm)" by (cases s)
  obtain old' qm' where r: "Sync_once can_start a s = (old', qm')" by (cases "Sync_once can_start a s")
  have i: "sync_inv (old', qm')"
    "old \<noteq> {} \<or> new \<noteq> {} \<and> (err = None \<or> err = Some GroupDiscoveryFailed) \<Longrightarrow> old' \<noteq> {}"
    using Sync_once_inv [OF assms(1), of old qm new err old' qm'] Cons.prems r by (simp_all add: a s)
  have f: "fold (Sync_once can_start) (a # answers) s = fold (Sync_once can_start) answers (old', qm')"
    by (simp add: r)
  show ?case unfolding f using Cons.IH [OF i(1)] i(2) by (auto simp: a s)
qed simp

text \<open>C20: A failing discovery never takes a monitor away. Where every resource has an informer, and after some
  round of discovery that returned resources, completely or in part, a round with a discovery error keeps
  every monitor and can only add some; a round that discovers no resource at all, with or without an error,
  changes nothing; and a monitor disappears only in a round without a discovery error, for a resource that is
  no longer there.\<close>

theorem failing_discovery_keeps_monitors:
  assumes "\<forall>r. can_start r"
    and "(res, e) \<in> set rounds" and "res \<noteq> {}" and "e = None \<or> e = Some GroupDiscoveryFailed"
    and "Sync can_start rounds qm0 = (old, qm)" and "Sync_once can_start (new, err) (old, qm) = (old', qm')"
  shows "(err \<noteq> None \<longrightarrow> qm_monitors qm \<subseteq> qm_monitors qm') \<and>
    (new = {} \<longrightarrow> old' = old \<and> qm' = qm) \<and>
    (\<forall>r. r \<in> qm_monitors qm - qm_monitors qm' \<longrightarrow> err = None \<and> r \<notin> new)"
proof -
  have "sync_inv ({}, qm0)" by (simp add: sync_inv_def)
  from Sync_inv [OF assms(1) this, of rounds] have tr: "monitors_tracked (old, qm)"
    using assms(2-5) by (auto simp: Sync_def sync_inv_def)
  show ?thesis
    using assms(6)
  proof (cases rule: Sync_once_cases)
    case (2 e')
    have kept: "r \<in> qm_monitors qm'" if "r \<in> qm_monitors qm" "r \<in> (if err = None then new else new \<union> old)" for r
      using resyncMonitors_set [OF 2(2)] tr that unfolding monitors_tracked_def by blast
    have "r \<in> (if err = None then new else new \<union> old)" if "r \<in> qm_monitors qm" "err \<noteq> None \<or> r \<in> new" for r
      using tr that by (auto simp: monitors_tracked_def)
    then show ?thesis using kept 2(1) by blast
  qed auto
qed

text \<open>
  The constructor starts monitors of its own, but \<open>Sync\<close> begins with no old resources: a first round
  with a partial discovery stops the monitors it does not mention.
\<close>

lemma first_partial_round_stops_monitors:
  assumes "ra \<noteq> rb"
  shows "\<exists>q qm. NewClusterQuotaReconcilationController (\<lambda>_. True) {} ({ra, rb}, None) = Inr (q, qm) \<and>
    rb \<in> qm_monitors qm \<and>
    rb \<notin> qm_monitors (snd (Sync (\<lambda>_. True) [({ra}, Some GroupDiscoveryFailed)] qm))"
  using assms
  by (auto simp: NewClusterQuotaReconcilationController_def Sync_def Sync_once_def resyncMonitors_def
      SyncMonitors_def StartMonitors_def ignored_def Let_def)

theorem failing_discovery_keeps_monitors_witness:
  "qm_monitors (snd (Sync_once (\<lambda>_. True) ({}, None) (Sync (\<lambda>_. True)
     [({\<lparr>gv_Group = ''apps'', gv_Version = ''v1'', gv_Resource = ''deployments''\<rparr>}, None)]
     \<lparr>qm_monitors = {}, qm_started = {}, qm_ignored = {}, qm_running = True\<rparr>))) =
   {\<lparr>gv_Group = ''apps'', gv_Version = ''v1'', gv_Resource = ''deployments''\<rparr>}"
proof -
  let ?depl = "\<lparr>gv_Group = ''apps'', gv_Version = ''v1'', gv_Resource = ''deployments''\<rparr>"
  let ?qm0 = "\<lparr>qm_monitors = {}, qm_started = {}, qm_ignored = {}, qm_running = True\<rparr>"
  let ?s = "Sync (\<lambda>_. True) [({?depl}, None)] ?qm0"
  have run: "qm_monitors (snd ?s) = {?depl}"
    by (simp add: Sync_def Sync_once_def resyncMonitors_def SyncMonitors_def StartMonitors_def ignored_def Let_def)
  obtain old qm where s: "?s = (old, qm)" by (cases ?s)
  obtain old' qm' where o: "Sync_once (\<lambda>_. True) ({}, None) (old, qm) = (old', qm')"
    by (cases "Sync_once (\<lambda>_. True) ({}, None) (old, qm)")
  have "qm' = qm"
    using failing_discovery_keeps_monitors [OF _ _ _ _ s o, of "{?depl}" None] by simp
  then show ?thesis using run by (simp only: s o snd_conv)
qed

text \<open>With the generic informer of the controller context no monitor fails to start.\<close>

lemma context_monitors_start:
  assumes "can_start = (\<lambda>r. case ForResource (ToGenericInformer c) r of Some (Inr (Some _)) \<Rightarrow> True | _ \<Rightarrow> False)"
  shows "\<not> fst (SyncMonitors can_start qm resources)"
proof -
  have "can_start r" for r
    unfolding assms by (subst ForResource.simps)
      (simp add: ToGenericInformer_def NewGenericInformers_def split: sum.splits)
  then show ?thesis unfolding SyncMonitors_def Let_def fst_conv by blast
qed

section \<open>The discovery filter of the resource quota manager\<close>

record api_resource_list =
  arl_GroupVersion :: string
  arl_APIResources :: "string list"

definition ParseGroupVersion :: "string \<Rightarrow> string + (string \<times> string)" where
  "ParseGroupVersion gv =
     (if gv = [] \<or> gv = ''/'' then Inr ([], [])
      else case Split CHR ''/'' gv of
             [v] \<Rightarrow> Inr ([], v)
           | [g, v] \<Rightarrow> Inr (g, v)
           | _ \<Rightarrow> Inl gv)"

text \<open>\<open>has\<close> is whether the registry has an evaluator for a group and resource.\<close>

fun interesting_loop :: "(string \<times> string \<Rightarrow> bool) \<Rightarrow> api_resource_list list \<Rightarrow> api_resource_list list \<Rightarrow>
    string + api_resource_list list" where
  "interesting_loop has interestingResources [] = Inr interestingResources"
| "interesting_loop has interestingResources (resourceList # rest) =
     (case ParseGroupVersion (arl_GroupVersion resourceList) of
        Inl err \<Rightarrow> Inl err
      | Inr (grp, _) \<Rightarrow>
          interesting_loop has
            (interestingResources @
             concat (map (\<lambda>name. if has (grp, name) then [resourceList] else []) (arl_APIResources resourceList))) rest)"

definition resourceQuotaDiscoveryWrapper :: "(string \<times> string \<Rightarrow> bool) \<Rightarrow>
    api_resource_list list \<times> discovery_error option \<Rightarrow> api_resource_list list \<times> discovery_error option" where
  "resourceQuotaDiscoveryWrapper has discovered =
     (case discovered of (discoveryResources, discoveryErr) \<Rightarrow>
      if discoveryErr \<noteq> None \<and> discoveryResources = [] then ([], discoveryErr)
      else case interesting_loop has [] discoveryResources of
             Inl err \<Rightarrow> ([], Some (OtherDiscoveryError err))
           | Inr interestingResources \<Rightarrow> (interestingResources, None))"

lemma interesting_loop_set:
  "interesting_loop has acc ls = Inr out \<Longrightarrow>
   set out = set acc \<union> {l \<in> set ls. \<exists>g v. ParseGroupVersion (arl_GroupVersion l) = Inr (g, v) \<and>
     (\<exists>name \<in> set (arl_APIResources l). has (g, name))}"
proof (induction ls arbitrary: acc)
  case (Cons l ls)
  obtain g v where p: "ParseGroupVersion (arl_GroupVersion l) = Inr (g, v)"
    using Cons.prems by (auto split: sum.splits)
  let ?new = "concat (map (\<lambda>name. if has (g, name) then [l] else []) (arl_APIResources l))"
  have "interesting_loop has (acc @ ?new) ls = Inr out" using Cons.prems p by simp
  from Cons.IH [OF this] have out: "set out = set acc \<union> set ?new \<union> {l \<in> set ls. \<exists>g v. ParseGroupVersion (arl_GroupVersion l) = Inr (g, v) \<and>
     (\<exists>name \<in> set (arl_APIResources l). has (g, name))}" by simp
  have "set ?new = (if \<exists>name \<in> set (arl_APIResources l). has (g, name) then {l} else {})" by auto
  then show ?case unfolding out using p by auto
qed simp

text \<open>The filter loses the error of a partial discovery, and repeats a list for every resource it matches.\<close>

lemma wrapper_drops_partial_error:
  "resourceQuotaDiscoveryWrapper (\<lambda>_. True)
     ([\<lparr>arl_GroupVersion = ''v1'', arl_APIResources = [''pods'', ''secrets'']\<rparr>], Some GroupDiscoveryFailed) =
   ([\<lparr>arl_GroupVersion = ''v1'', arl_APIResources = [''pods'', ''secrets'']\<rparr>,
     \<lparr>arl_GroupVersion = ''v1'', arl_APIResources = [''pods'', ''secrets'']\<rparr>], None)"
  by (simp add: resourceQuotaDiscoveryWrapper_def ParseGroupVersion_def)

end
