(* ===== verification/Quota_Examples.thy ===== *)
theory Quota_Examples
  imports Quota_Reconciliation
begin

text \<open>
  A small cluster for the quota controller. One evaluator counts pods: namespace \<open>a\<close> has 3, \<open>b\<close> has 4, and
  counting fails elsewhere. The cluster is the list of the status updates it has received; the quota
  still carries a namespace \<open>old\<close> that matches no more.
\<close>

definition ex_pods :: "cluster_quota list evaluator" where
  "ex_pods = \<lparr>ev_GroupResource = ([], ''pods''),
     ev_MatchingResources = filter (\<lambda>r. r = ''pods''),
     ev_UsageStats = (\<lambda>w opts.
       if uo_Namespace opts = ''a'' then Inr [''pods'' \<mapsto> 3]
       else if uo_Namespace opts = ''b'' then Inr [''pods'' \<mapsto> 4]
       else Inl ''no such namespace'')\<rparr>"

definition ex_selector :: quota_selector where
  "ex_selector = \<lparr>sel_LabelSelector = None, sel_AnnotationSelector = [''team'' \<mapsto> ''x'']\<rparr>"

definition ex_quota :: cluster_quota where
  "ex_quota = \<lparr>cq_Name = ''q'', cq_ResourceVersion = 1, cq_Selector = ex_selector, cq_Scopes = [], cq_ScopeSelector = None,
     cq_Hard = [''pods'' \<mapsto> 10],
     cq_Total = \<lparr>Hard = [''pods'' \<mapsto> 10], Used = [''pods'' \<mapsto> 2]\<rparr>,
     cq_Namespaces = [(''old'', \<lparr>Hard = [''pods'' \<mapsto> 10], Used = [''pods'' \<mapsto> 2]\<rparr>)]\<rparr>"

definition ex_qclient :: "string list \<Rightarrow> cluster_quota \<Rightarrow> cluster_quota list quota_client" where
  "ex_qclient nss quota =
     \<lparr>mapper_GetNamespacesFor = (\<lambda>w name. (nss, ex_selector)),
      mapper_GetClusterQuotasFor = (\<lambda>w ns. if ns \<in> set nss then [''q''] else []),
      ql_Get = (\<lambda>w name. if name = ''q'' then Inr quota else Inl NotFound),
      ql_List = (\<lambda>w. Inr [quota]),
      qc_UpdateStatus = (\<lambda>w q. (Inr q, w @ [q])),
      qc_registry = [ex_pods],
      qc_order = sorted_list_of_set\<rparr>"

lemmas ex_client_simps = ex_qclient_def ex_quota_def

lemma ex_consistent: "consistent ex_quota"
  by (simp add: consistent_def ex_quota_def distinct_namespaces_def namespaces_used_def)

lemma ex_quota_fields [simp]:
  "cq_Name ex_quota = ''q''" "cq_Selector ex_quota = ex_selector" "cq_Hard ex_quota = [''pods'' \<mapsto> 10]"
  by (simp_all add: ex_quota_def)

lemma ex_usage:
  assumes "cq_Hard quota = [''pods'' \<mapsto> 10]"
  shows "quotaUsageCalculationFunc (ex_qclient nss q) w quota n =
    (if n = ''a'' then ([''pods'' \<mapsto> 3], []) else if n = ''b'' then ([''pods'' \<mapsto> 4], [])
     else (Map.empty, [''no such namespace'']))"
  by (auto simp: quotaUsageCalculationFunc_def CalculateUsage_def ResourceNames_def ex_qclient_def ex_pods_def assms
      Intersection_def Difference_def Mask_def rl_Add_def Let_def fun_eq_iff split: prod.splits)

text \<open>With an empty status: the quota after a first reconciliation.\<close>

definition ex_fresh :: cluster_quota where
  "ex_fresh = ex_quota\<lparr>cq_Total := \<lparr>Hard = [''pods'' \<mapsto> 10], Used = [''pods'' \<mapsto> 7]\<rparr>,
     cq_Namespaces := [(''a'', \<lparr>Hard = [''pods'' \<mapsto> 10], Used = [''pods'' \<mapsto> 3]\<rparr>),
                       (''b'', \<lparr>Hard = [''pods'' \<mapsto> 10], Used = [''pods'' \<mapsto> 4]\<rparr>)]\<rparr>"

lemma ex_fresh_consistent: "consistent ex_fresh"
  by (auto simp: consistent_def ex_fresh_def distinct_namespaces_def namespaces_used_def amount_def)

lemma ex_fresh_fields [simp]:
  "cq_Name ex_fresh = ''q''" "cq_Selector ex_fresh = ex_selector" "cq_Hard ex_fresh = [''pods'' \<mapsto> 10]"
  by (simp_all add: ex_fresh_def)

theorem quota_status_consistent_witness:
  "consistent ex_quota \<and>
   (case syncQuotaForNamespaces (ex_qclient [''a'', ''b''] ex_quota) [] ex_quota [forced ''a''] of (errs, retry, w') \<Rightarrow>
     w' = [] \<or> (\<exists>q'. w' = [q'] \<and> consistent q' \<and> same_spec ex_quota q' \<and> Hard (cq_Total q') = [''pods'' \<mapsto> 10] \<and>
       fst ` set (cq_Namespaces q') \<subseteq> {''a'', ''b''}))"
proof -
  let ?cl = "ex_qclient [''a'', ''b''] ex_quota"
  obtain errs retry w' where run: "syncQuotaForNamespaces ?cl [] ex_quota [forced ''a''] = (errs, retry, w')"
    by (cases "syncQuotaForNamespaces ?cl [] ex_quota [forced ''a'']")
  show ?thesis
    using quota_status_consistent [OF ex_consistent run] ex_consistent
    unfolding run by (simp add: ex_qclient_def)
qed


theorem resync_writes_nothing_witness:
  "syncQuotaForNamespaces (ex_qclient [''a'', ''b''] ex_fresh) [] ex_fresh [forced ''a'', forced ''b'', forced ''old''] = ([], [], [])"
proof (rule resync_writes_nothing [OF ex_fresh_consistent, where nss = "[''a'', ''b'']"])
  show "mapper_GetNamespacesFor (ex_qclient [''a'', ''b''] ex_fresh) [] (cq_Name ex_fresh) = ([''a'', ''b''], cq_Selector ex_fresh)"
    by (simp add: ex_qclient_def)
qed (simp_all add: ex_usage, simp_all add: ex_fresh_def)

text \<open>An idle queue, and what the periodic resync makes of it.\<close>

definition ex_queue :: quota_queue where
  "ex_queue = \<lparr>qq_bucket = NewBucketingWorkQueue, qq_failures = (\<lambda>_. 0)\<rparr>"

lemma ex_resync_queue:
  "calculateAll (ex_qclient [''a'', ''b''] ex_quota) [] ex_queue =
   \<lparr>qq_bucket = \<lparr>queue = \<lparr>q_queue = [''q''], q_dirty = {''q''}, q_processing = {}, q_shuttingDown = False\<rparr>,
      work = (\<lambda>_. [])(''q'' := [forced ''a'', forced ''b'']), dirtyWork = (\<lambda>_. []), inProgress = {}, delayed = []\<rparr>,
    qq_failures = (\<lambda>_. 0)\<rparr>"
  by (simp add: calculateAll_def calculate_one_def forceCalculation_def ex_queue_def queue_defs
      NewBucketingWorkQueue_def wq_New_def wq_Add_def ex_qclient_def)

lemma ex_resync_get:
  "\<exists>b. GetWithData (qq_bucket (calculateAll (ex_qclient [''a'', ''b''] ex_quota) [] ex_queue)) =
     Some (Some (''q'', [forced ''a'', forced ''b'']), b)"
  by (simp add: ex_resync_queue GetWithData_def Get_data_def wq_Get_def)

lemma workFunc_returns:
  assumes "GetWithData (qq_bucket q) = Some (Some (k, items), b)"
  obtains q' w' where "workFunc cl (q, w) = Some (False, q', w')"
  using assms by (cases "work_on cl k items (q\<lparr>qq_bucket := b\<rparr>, w)") (simp add: workFunc_def)

lemma worker_puts_back_failures_witness:
  "\<exists>q' w'. workFunc (ex_qclient [''a'', ''b''] ex_quota) (calculateAll (ex_qclient [''a'', ''b''] ex_quota) [] ex_queue, []) =
       Some (False, q', w') \<and> ''q'' \<notin> inProgress (qq_bucket q')"
proof -
  let ?cl = "ex_qclient [''a'', ''b''] ex_quota"
  obtain b where get: "GetWithData (qq_bucket (calculateAll ?cl [] ex_queue)) = Some (Some (''q'', [forced ''a'', forced ''b'']), b)"
    using ex_resync_get by blast
  obtain q' w' where run: "workFunc ?cl (calculateAll ?cl [] ex_queue, []) = Some (False, q', w')"
    by (rule workFunc_returns [OF get])
  have "\<not> q_shuttingDown (queue (qq_bucket (calculateAll ?cl [] ex_queue)))" by (simp add: ex_resync_queue)
  then show ?thesis using worker_puts_back_failures [OF get run] run by blast
qed

lemma replenish_enqueues_tracking_witness:
  "pending (replenishQuota (ex_qclient [''a'', ''b''] ex_quota) [] ([], ''pods'') ''a'' ex_queue) ''q'' = [forced ''a''] \<and>
   pending (replenishQuota (ex_qclient [''a'', ''b''] ex_quota) [] ([], ''secrets'') ''a'' ex_queue) ''q'' = []"
proof -
  let ?cl = "ex_qclient [''a'', ''b''] ex_quota"
  have d: "distinct (mapper_GetClusterQuotasFor ?cl [] ''a'')" by (simp add: ex_qclient_def)
  have p: "pending ex_queue ''q'' = []" by (simp add: pending_def ex_queue_def NewBucketingWorkQueue_def)
  show ?thesis
    using replenish_enqueues_tracking [OF d refl, of "([], ''pods'')" ex_queue]
      replenish_enqueues_tracking [OF d refl, of "([], ''secrets'')" ex_queue]
    by (simp add: p ex_qclient_def ex_pods_def ResourceNames_def ex_quota_def)
qed

theorem periodic_resync_exact_witness:
  "\<exists>q' w' quota'. workFunc (ex_qclient [''a'', ''b''] ex_quota) (calculateAll (ex_qclient [''a'', ''b''] ex_quota) [] ex_queue, []) =
       Some (False, q', w') \<and> w' = [quota'] \<and> amount (Used (cq_Total quota')) ''pods'' = 7 \<and>
     map_of (cq_Namespaces quota') ''old'' = None \<and>
     map_of (cq_Namespaces quota') ''a'' = Some \<lparr>Hard = [''pods'' \<mapsto> 10], Used = [''pods'' \<mapsto> 3]\<rparr>"
proof -
  let ?cl = "ex_qclient [''a'', ''b''] ex_quota" and ?q = "ex_queue"
  obtain b where get: "GetWithData (qq_bucket (calculateAll ?cl [] ?q)) = Some (Some (cq_Name ex_quota, [forced ''a'', forced ''b'']), b)"
    using ex_resync_get by auto
  obtain q' w' where run: "workFunc ?cl (calculateAll ?cl [] ?q, []) = Some (False, q', w')"
    by (rule workFunc_returns [OF get])
  have "\<exists>quota'. w' = (if quota' = ex_quota then [] else snd (qc_UpdateStatus ?cl [] quota')) \<and>
    (\<forall>n. map_of (cq_Namespaces quota') n =
       (if n \<in> set [''a'', ''b''] then Some \<lparr>Hard = cq_Hard ex_quota, Used = fst (quotaUsageCalculationFunc ?cl [] ex_quota n)\<rparr> else None)) \<and>
    (\<forall>r. amount (Used (cq_Total quota')) r = (\<Sum>n \<in> set [''a'', ''b'']. amount (fst (quotaUsageCalculationFunc ?cl [] ex_quota n)) r))"
  proof (rule periodic_resync_exact [OF _ _ _ ex_consistent _ _ _ _ get run, where quotas = "[ex_quota]"])
    show "mapper_GetNamespacesFor ?cl [] (cq_Name ex_quota) = ([''a'', ''b''], cq_Selector ex_quota)"
      by (simp add: ex_qclient_def)
    show "cq_Name ex_quota \<notin> inProgress (qq_bucket ?q)" by (simp add: ex_queue_def NewBucketingWorkQueue_def)
  qed (simp_all add: ex_usage, simp_all add: ex_qclient_def)
  then obtain quota' where q: "w' = (if quota' = ex_quota then [] else snd (qc_UpdateStatus ?cl [] quota'))"
    "map_of (cq_Namespaces quota') ''old'' = None"
    "map_of (cq_Namespaces quota') ''a'' = Some \<lparr>Hard = [''pods'' \<mapsto> 10], Used = [''pods'' \<mapsto> 3]\<rparr>"
    "amount (Used (cq_Total quota')) ''pods'' = 7"
    by (auto simp: ex_usage amount_def)
  moreover have "quota' \<noteq> ex_quota" using q(2) by (auto simp: ex_quota_def)
  ultimately show ?thesis using run by (auto simp: ex_qclient_def)
qed

end
