(* ===== verification/Quota_Run.thy ===== *)
theory Quota_Run
  imports Quota_Monitor Quota_Examples
begin

text \<open>
  The goroutines of the cluster quota controller: \<open>Run\<close>, the loop of \<open>worker\<close>, and how long a round of \<open>Sync\<close>
  keeps the workers waiting (\<open>src/pkg/quota/clusterquotareconciliation/reconciliation_controller.go\<close>). The lemmas
  show that a worker returns after the queue has been shut down, and that a round of discovery holds the lock of
  the workers for at most one period.
\<close>

section \<open>The worker and Run\<close>

definition qq_ShutDown :: "quota_queue \<Rightarrow> quota_queue" where
  "qq_ShutDown q = q\<lparr>qq_bucket := bucket_ShutDown (qq_bucket q)\<rparr>"

text \<open>\<open>worker\<close>: the loop around \<open>workFunc\<close>.\<close>

definition quota_worker :: "'w quota_client \<Rightarrow> quota_queue \<times> 'w \<Rightarrow> (quota_queue \<times> 'w) option" where
  "quota_worker cl = worker_loop (workFunc cl)"

text \<open>
  \<open>Run\<close>: the goroutines it starts, in order, and what it does to the queue when the context has ended. If the
  caches do not sync, \<open>Run\<close> returns with only the monitors started, and leaves the queue open.
\<close>

datatype quota_goroutine = MonitorRun | QuotaWorker | CalculateAllEvery int

definition quota_Run :: "nat \<Rightarrow> int \<Rightarrow> bool \<Rightarrow> quota_queue \<Rightarrow> quota_goroutine list \<times> quota_queue" where
  "quota_Run workers resyncPeriod cachesSynced q =
     (if \<not> cachesSynced then ([MonitorRun], q)
      else ([MonitorRun] @ replicate workers QuotaWorker @ [CalculateAllEvery resyncPeriod], qq_ShutDown q))"

section \<open>Shutdown\<close>

text \<open>What one step of a worker on the key \<open>k\<close> with its items makes of everything outside the queue.\<close>

definition quota_work :: "'w quota_client \<Rightarrow> string \<Rightarrow> workItem list \<Rightarrow> 'w \<Rightarrow> 'w" where
  "quota_work cl k items w =
     (case ql_Get cl w k of
        Inl _ \<Rightarrow> w
      | Inr quota \<Rightarrow> (case syncQuotaForNamespaces cl w quota items of (err, retryItems, w') \<Rightarrow> w'))"

abbreviation inner :: "quota_queue \<Rightarrow> wqueue" where
  "inner q \<equiv> queue (qq_bucket q)"

lemma work_on_shut:
  assumes "k \<in> inProgress (qq_bucket q)" "q_shuttingDown (inner q)"
  shows "\<exists>q'. work_on cl k items (q, w) = (q', quota_work cl k items w) \<and> inner q' = inner q \<and>
    delayed (qq_bucket q') = delayed (qq_bucket q) \<and> (\<forall>j. j \<noteq> k \<longrightarrow> work (qq_bucket q') j = work (qq_bucket q) j)"
  using assms
  by (auto simp: work_on_def quota_work_def queue_defs split: sum.splits api_error.splits prod.splits)

lemma workFunc_shut:
  assumes "wq_inv (inner q)" "q_shuttingDown (inner q)" "q_queue (inner q) = k # ks"
  shows "\<exists>q'. workFunc cl (q, w) = Some (False, q', quota_work cl k (work (qq_bucket q) k) w) \<and>
    inner q' = (inner q)\<lparr>q_queue := ks, q_dirty := q_dirty (inner q) - {k}\<rparr> \<and>
    delayed (qq_bucket q') = delayed (qq_bucket q) \<and> (\<forall>j. j \<noteq> k \<longrightarrow> work (qq_bucket q') j = work (qq_bucket q) j)"
proof -
  let ?iq = "(inner q)\<lparr>q_queue := ks, q_processing := insert k (q_processing (inner q)), q_dirty := q_dirty (inner q) - {k}\<rparr>"
  let ?b = "snd (Get_data k ((qq_bucket q)\<lparr>queue := ?iq\<rparr>))"
  have get: "GetWithData (qq_bucket q) = Some (Some (k, work (qq_bucket q) k), ?b)"
    using wq_shut_item(1) [OF assms] by (simp add: GetWithData_def Get_data_def)
  obtain q1 where q1: "work_on cl k (work (qq_bucket q) k) (q\<lparr>qq_bucket := ?b\<rparr>, w) = (q1, quota_work cl k (work (qq_bucket q) k) w)"
    "inner q1 = ?iq" "delayed (qq_bucket q1) = delayed (qq_bucket q)" "\<forall>j. j \<noteq> k \<longrightarrow> work (qq_bucket q1) j = work (qq_bucket q) j"
    using work_on_shut [of k "q\<lparr>qq_bucket := ?b\<rparr>" cl "work (qq_bucket q) k" w] assms(2) by (auto simp: Get_data_def)
  have "workFunc cl (q, w) = Some (False, qq_Done k q1, quota_work cl k (work (qq_bucket q) k) w)"
    using get q1(1) by (simp add: workFunc_def)
  moreover have "inner (qq_Done k q1) = (inner q)\<lparr>q_queue := ks, q_dirty := q_dirty (inner q) - {k}\<rparr>"
    using q1(2) wq_shut_item(2) [OF assms] by (simp add: queue_defs)
  ultimately show ?thesis using q1(3,4) by (intro exI [of _ "qq_Done k q1"]) (simp add: queue_defs)
qed

text \<open>C37: A quota worker returns after the shutdown. It has reconciled each quota that was still in the queue
  exactly once, in the order of the queue and with the items collected for it, and leaves an empty queue; what
  failed is not queued again, and keys that other workers hold are not touched.\<close>

theorem quota_worker_returns:
  fixes cl :: "'w quota_client"
  assumes "wq_inv (inner q)"
  shows "\<exists>q'. quota_worker cl (qq_ShutDown q, w) =
      Some (q', fold (\<lambda>k. quota_work cl k (work (qq_bucket q) k)) (q_queue (inner q)) w) \<and>
    q_queue (inner q') = [] \<and> q_processing (inner q') = q_processing (inner q) \<and>
    delayed (qq_bucket q') = delayed (qq_bucket q)"
proof -
  let ?good = "\<lambda>(q' :: quota_queue, w :: 'w). wq_inv (inner q') \<and> q_shuttingDown (inner q') \<and>
    q_processing (inner q') = q_processing (inner q) \<and> delayed (qq_bucket q') = delayed (qq_bucket q) \<and>
    (\<forall>k \<in> set (q_queue (inner q')). work (qq_bucket q') k = work (qq_bucket q) k)"
  let ?todo = "\<lambda>(q' :: quota_queue, w :: 'w). q_queue (inner q')"
  let ?f = "\<lambda>k. quota_work cl k (work (qq_bucket q) k)"
  have "\<exists>s'. worker_loop (workFunc cl) (qq_ShutDown q, w) = Some s' \<and> ?good s' \<and> ?todo s' = [] \<and>
      snd s' = fold ?f (?todo (qq_ShutDown q, w)) (snd (qq_ShutDown q, w))"
  proof (rule worker_loop_uses_up)
    fix s assume "?good s" "?todo s = []"
    then show "workFunc cl s = Some (True, s)"
      by (cases s) (simp add: workFunc_def GetWithData_def wq_shut_empty)
  next
    fix s k ks assume s: "?good s" "?todo s = k # ks"
    obtain q1 w1 where q1: "s = (q1, w1)" by (cases s)
    have inv: "wq_inv (inner q1)" "q_shuttingDown (inner q1)" "q_queue (inner q1) = k # ks" using s by (simp_all add: q1)
    have "k \<notin> set ks" using inv(1,3) by (simp add: wq_inv_def)
    moreover have "\<forall>j \<in> set (k # ks). work (qq_bucket q1) j = work (qq_bucket q) j" using s by (simp add: q1)
    ultimately have k: "k \<notin> set ks" "work (qq_bucket q1) k = work (qq_bucket q) k"
      "\<forall>j \<in> set ks. work (qq_bucket q1) j = work (qq_bucket q) j" by simp_all
    obtain q' where q': "workFunc cl (q1, w1) = Some (False, q', ?f k w1)"
      "inner q' = (inner q1)\<lparr>q_queue := ks, q_dirty := q_dirty (inner q1) - {k}\<rparr>"
      "delayed (qq_bucket q') = delayed (qq_bucket q1)" "\<forall>j. j \<noteq> k \<longrightarrow> work (qq_bucket q') j = work (qq_bucket q1) j"
      using workFunc_shut [OF inv, of cl w1] unfolding k(2) by (elim exE conjE) (rule that)
    have "\<forall>j \<in> set ks. work (qq_bucket q') j = work (qq_bucket q) j" using q'(4) k(1,3) by metis
    then have "?good (q', ?f k w1)" using s wq_shut_item(3) [OF inv] by (simp add: q1 q'(2,3))
    then show "\<exists>s'. workFunc cl s = Some (False, s') \<and> ?good s' \<and> ?todo s' = ks \<and> snd s' = ?f k (snd s)"
      using q'(1,2) by (intro exI [of _ "(q', ?f k w1)"]) (simp add: q1)
  qed (use assms in \<open>simp add: qq_ShutDown_def bucket_ShutDown_def wq_ShutDown_def wq_inv_def\<close>)
  then show ?thesis by (auto simp: quota_worker_def qq_ShutDown_def bucket_ShutDown_def)
qed

theorem quota_worker_returns_witness:
  "\<exists>q'. quota_worker (ex_qclient [''a'', ''b''] ex_quota)
      (qq_ShutDown (calculateAll (ex_qclient [''a'', ''b''] ex_quota) [] ex_queue), []) =
      Some (q', quota_work (ex_qclient [''a'', ''b''] ex_quota) ''q'' [forced ''a'', forced ''b''] []) \<and>
    q_queue (inner q') = []"
proof -
  let ?cl = "ex_qclient [''a'', ''b''] ex_quota"
  have "wq_inv (inner (calculateAll ?cl [] ex_queue))" by (simp add: ex_resync_queue wq_inv_def)
  from quota_worker_returns [OF this, of ?cl "[]"] show ?thesis by (auto simp: ex_resync_queue)
qed

section \<open>Waiting for the monitors\<close>

text \<open>
  Instants in nanoseconds. A channel that is only ever closed is the instant of its closing, or \<open>None\<close> if it stays
  open; what the caches report is the instant from which on they are synced. The interval at which
  \<open>cache.WaitForCacheSync\<close> looks is not modelled.
\<close>

type_synonym instant = int

definition waitForStopOrTimeout :: "instant \<Rightarrow> instant option \<Rightarrow> int \<Rightarrow> instant option" where
  "waitForStopOrTimeout now stopCh timeout =
     (case stopCh of
        None \<Rightarrow> Some (now + timeout)
      | Some t \<Rightarrow> Some (min (max now t) (now + timeout)))"

text \<open>
  Whether the caches synced, and when the call returns; no result when it waits forever. The caches are asked once
  at the start, even if the channel is closed already.
\<close>

fun WaitForCacheSync :: "instant \<Rightarrow> instant option \<Rightarrow> instant option \<Rightarrow> (bool \<times> instant) option" where
  "WaitForCacheSync now None None = None"
| "WaitForCacheSync now None (Some t) = Some (True, max now t)"
| "WaitForCacheSync now (Some s) None = Some (False, max now s)"
| "WaitForCacheSync now (Some s) (Some t) =
     (if t \<le> now \<or> t < s then Some (True, max now t) else Some (False, max now s))"

text \<open>
  The part of a round of \<open>Sync\<close> under \<open>workerLock\<close> after \<open>resyncMonitors\<close>, from the instant \<open>now\<close>: whether the
  monitors synced, and when the lock is released.
\<close>

definition Sync_wait :: "instant \<Rightarrow> instant option \<Rightarrow> int \<Rightarrow> instant option \<Rightarrow> (bool \<times> instant) option" where
  "Sync_wait now stopCh period monitorsSynced =
     WaitForCacheSync now (waitForStopOrTimeout now stopCh period) monitorsSynced"

text \<open>A round of discovery never stops the workers for good. Whether or not the monitors ever sync, the wait
  ends within one period, and earlier when the context ends or the monitors have synced; it reports a success
  exactly when the monitors were synced at its start or synced before either.\<close>

lemma Sync_wait_bounded:
  assumes "0 \<le> period"
  shows "\<exists>ok t. Sync_wait now stopCh period monitorsSynced = Some (ok, t) \<and> now \<le> t \<and> t \<le> now + period \<and>
    (\<forall>s. stopCh = Some s \<longrightarrow> t \<le> max now s) \<and> (\<forall>m. monitorsSynced = Some m \<longrightarrow> t \<le> max now m) \<and>
    (ok \<longleftrightarrow> (\<exists>m. monitorsSynced = Some m \<and> (m \<le> now \<or> m < now + period \<and> (\<forall>s. stopCh = Some s \<longrightarrow> m < s))))"
  using assms by (cases stopCh; cases monitorsSynced) (auto simp: Sync_wait_def waitForStopOrTimeout_def)

lemma Sync_wait_bounded_witness:
  "\<exists>ok t. Sync_wait 0 None 30000000000 None = Some (ok, t) \<and> 0 \<le> t \<and> t \<le> 30000000000 \<and> \<not> ok"
  using Sync_wait_bounded [of 30000000000 0 None None] by auto

end
