(* ===== verification/Quota_Settle.thy ===== *)
theory Quota_Settle
  imports Quota_Run
begin

text \<open>
  The quota controller as a whole: event handlers that enqueue work, workers between the two halves of every
  method of the bucketing queue, reconciliations, retries and changes of the cluster, in any order. At rest, each
  recalculation that was ever asked for has reached the status of the quota.
\<close>

section \<open>Workers on the bucketing queue\<close>

text \<open>What a worker on a key puts back into the queue, if anything.\<close>

definition put_back :: "'w quota_client \<Rightarrow> string \<Rightarrow> workItem list \<Rightarrow> 'w \<Rightarrow> workItem list option" where
  "put_back cl k items w =
     (case ql_Get cl w k of
        Inl NotFound \<Rightarrow> None
      | Inl _ \<Rightarrow> Some items
      | Inr quota \<Rightarrow>
          (case syncQuotaForNamespaces cl w quota items of (err, retryItems, w') \<Rightarrow>
             if err = [] then None else Some retryItems))"

lemma work_on_put_back:
  "work_on cl k items (q, w) =
     (case put_back cl k items w of
        None \<Rightarrow> qq_Forget k q
      | Some ds \<Rightarrow> qq_AddWithDataRateLimited k ds q, quota_work cl k items w)"
  by (simp add: work_on_def put_back_def quota_work_def split: sum.split api_error.split prod.split)

text \<open>
  Where a worker on a key is: holding its items, with items to put back, or about to call \<open>Done\<close>. The log, newest
  entry first, has what was asked for and what was worked on in which state of the cluster.
\<close>

datatype phase = Idle | Holding "workItem list" | PuttingBack "workItem list" | Ready

datatype 'w quota_entry = QAsked string workItem | QWorked string "workItem list" 'w

type_synonym 'w quota_run = "workItem system \<times> 'w \<times> (string \<Rightarrow> phase) \<times> 'w quota_entry list"

inductive quota_step :: "'w quota_client \<Rightarrow> 'w quota_run \<Rightarrow> 'w quota_run \<Rightarrow> bool" for cl :: "'w quota_client" where
  cluster: "quota_step cl (s, w, ph, l) (s, w', ph, l)"
| asked: "workLock s = Unlocked \<Longrightarrow>
    quota_step cl (s, w, ph, l)
      (s\<lparr>bk := AddWithData_queue k (bk s), workLock := Adding k ds\<rparr>, w, ph, rev (map (QAsked k) ds) @ l)"
| stored: "workLock s = Adding k ds \<Longrightarrow>
    quota_step cl (s, w, ph, l)
      (s\<lparr>bk := Add_data k ds (bk s), workLock := Unlocked, added := (added s)(k := added s k @ ds)\<rparr>, w, ph, l)"
| fires: "k \<in> set (delayed (bk s)) \<Longrightarrow> quota_step cl (s, w, ph, l) (s\<lparr>bk := delayed_fires k (bk s)\<rparr>, w, ph, l)"
| got: "wq_Get (queue (bk s)) = Some (Some k, q) \<Longrightarrow>
    quota_step cl (s, w, ph, l) (s\<lparr>bk := (bk s)\<lparr>queue := q\<rparr>, fetching := insert k (fetching s)\<rparr>, w, ph, l)"
| collected: "k \<in> fetching s \<Longrightarrow> workLock s = Unlocked \<Longrightarrow> Get_data k (bk s) = (ds, e) \<Longrightarrow>
    quota_step cl (s, w, ph, l)
      (s\<lparr>bk := e, fetching := fetching s - {k}, handed := (handed s)(k := handed s k @ ds)\<rparr>, w, ph(k := Holding ds), l)"
| worked: "ph k = Holding items \<Longrightarrow>
    quota_step cl (s, w, ph, l)
      (s, quota_work cl k items w,
       ph(k := (case put_back cl k items w of None \<Rightarrow> Ready | Some ds \<Rightarrow> PuttingBack ds)), QWorked k items w # l)"
| returned: "ph k = PuttingBack ds \<Longrightarrow> workLock s = Unlocked \<Longrightarrow>
    quota_step cl (s, w, ph, l)
      (s\<lparr>bk := AddWithDataRateLimited_queue k (bk s), workLock := Adding k ds\<rparr>, w, ph(k := Ready), l)"
| finished: "ph k = Ready \<Longrightarrow> workLock s = Unlocked \<Longrightarrow>
    quota_step cl (s, w, ph, l) (s\<lparr>bk := Done_queue k (bk s), workLock := Finishing k\<rparr>, w, ph(k := Idle), l)"
| released: "workLock s = Finishing k \<Longrightarrow>
    quota_step cl (s, w, ph, l) (s\<lparr>bk := Done_data k (bk s), workLock := Unlocked\<rparr>, w, ph, l)"

abbreviation quota_start :: "'w \<Rightarrow> 'w quota_run" where
  "quota_start w \<equiv> (bucket_start, w, \<lambda>_. Idle, [])"

section \<open>No item is lost\<close>

text \<open>A recalculation is owed while it was asked for, or put back, after the last work on it.\<close>

fun owed :: "'w quota_client \<Rightarrow> string \<Rightarrow> workItem \<Rightarrow> 'w quota_entry list \<Rightarrow> bool" where
  "owed cl k i [] \<longleftrightarrow> False"
| "owed cl k i (QAsked k' i' # l) \<longleftrightarrow> k' = k \<and> i' = i \<or> owed cl k i l"
| "owed cl k i (QWorked k' items w # l) \<longleftrightarrow>
     (if k' = k \<and> i \<in> set items then (\<exists>ds. put_back cl k items w = Some ds \<and> i \<in> set ds) else owed cl k i l)"

lemma owed_asked: "owed cl k i (rev (map (QAsked k') ds) @ l) \<longleftrightarrow> k' = k \<and> i \<in> set ds \<or> owed cl k i l"
  by (induction ds rule: rev_induct) auto

text \<open>The items of a key that are on their way: waiting, being stored, or with a worker.\<close>

definition in_flight :: "workItem system \<Rightarrow> (string \<Rightarrow> phase) \<Rightarrow> string \<Rightarrow> workItem set" where
  "in_flight s ph k = set (work (bk s) k) \<union> set (dirtyWork (bk s) k) \<union>
     (case workLock s of Adding k' ds \<Rightarrow> if k' = k then set ds else {} | _ \<Rightarrow> {}) \<union>
     (case ph k of Holding ds \<Rightarrow> set ds | PuttingBack ds \<Rightarrow> set ds | _ \<Rightarrow> {})"

definition quota_inv :: "'w quota_client \<Rightarrow> 'w quota_run \<Rightarrow> bool" where
  "quota_inv cl = (\<lambda>(s, w, ph, l).
     bucket_inv s \<and> (\<forall>k. ph k \<noteq> Idle \<longrightarrow> k \<in> inProgress (bk s) - finishing s) \<and>
     (\<forall>k i. owed cl k i l \<longrightarrow> i \<in> in_flight s ph k))"

lemma quota_inv_start: "quota_inv cl (quota_start w)"
  by (simp add: quota_inv_def inv_start)

text \<open>Every step is one of the bucketing queue, or leaves the queue alone.\<close>

lemma quota_step_bucket:
  assumes "quota_step cl r r'" "quota_inv cl r"
  shows "bucket_inv (fst r')"
  using assms
proof (induction rule: quota_step.induct)
  case (finished ph k s w l)
  then have "k \<in> inProgress (bk s)" "bucket_inv s" by (auto simp: quota_inv_def)
  then show ?case using finished(2) inv_done_begin by simp
qed (auto simp: quota_inv_def intro: inv_add_begin inv_add_end inv_fires inv_get_begin inv_get_end inv_done_end)

lemmas flight_defs = in_flight_def finishing_def bucket_defs

lemma quota_step_busy:
  assumes "quota_step cl r r'" "quota_inv cl r"
  shows "case r' of (s, w, ph, l) \<Rightarrow> \<forall>k. ph k \<noteq> Idle \<longrightarrow> k \<in> inProgress (bk s) - finishing s"
  using assms
  by (induction rule: quota_step.induct) (auto simp: quota_inv_def flight_defs split: if_splits)

lemma quota_inv_owed: "quota_inv cl (s, w, ph, l) \<Longrightarrow> owed cl k i l \<Longrightarrow> i \<in> in_flight s ph k"
  by (simp add: quota_inv_def)

lemma quota_step_owed:
  assumes "quota_step cl r r'" "quota_inv cl r"
  shows "case r' of (s, w, ph, l) \<Rightarrow> owed cl k i l \<longrightarrow> i \<in> in_flight s ph k"
  using assms
proof (induction rule: quota_step.induct)
  case (asked s w ph l k' ds)
  then show ?case using quota_inv_owed [OF asked(2), of k i] by (auto simp: flight_defs owed_asked)
next
  case (collected k' s ds e w ph l)
  then have "k' \<notin> inProgress (bk s)" by (auto simp: quota_inv_def bucket_inv_def finishing_def)
  then have "ph k' = Idle" "dirtyWork (bk s) k' = []"
    using collected(4) by (auto simp: quota_inv_def bucket_inv_def)
  then show ?case using collected(1-3) quota_inv_owed [OF collected(4), of k i]
    by (cases "k' = k") (auto simp: flight_defs)
next
  case (worked ph k' items s w l)
  then show ?case using quota_inv_owed [OF worked(2), of k i]
    by (cases "k' = k") (auto simp: flight_defs split: option.splits)
next
  case (released s k' w ph l)
  then have "work (bk s) k' = []" by (auto simp: quota_inv_def bucket_inv_def finishing_def)
  then show ?case using released(1) quota_inv_owed [OF released(2), of k i]
    by (cases "k' = k") (auto simp: flight_defs)
next
  case (stored s k' ds w ph l)
  then show ?case using quota_inv_owed [OF stored(2), of k i] by (auto simp: flight_defs)
next
  case (returned ph k' ds s w l)
  then show ?case using quota_inv_owed [OF returned(3), of k i] by (cases "k' = k") (auto simp: flight_defs)
next
  case (finished ph k' s w l)
  then show ?case using quota_inv_owed [OF finished(3), of k i] by (cases "k' = k") (auto simp: flight_defs)
qed (auto dest: quota_inv_owed simp: flight_defs)

lemma quota_inv_reachable: "(quota_step cl)\<^sup>*\<^sup>* (quota_start w) r \<Longrightarrow> quota_inv cl r"
proof (induction rule: rtranclp_induct)
  case (step r r')
  then show ?case
    using quota_step_bucket [OF step(2)] quota_step_busy [OF step(2)] quota_step_owed [OF step(2)]
    by (cases r') (simp add: quota_inv_def)
qed (rule quota_inv_start)

lemma owed_none_at_rest:
  assumes "quota_inv cl (s, w, ph, l)" "bucket_at_rest s"
  shows "\<not> owed cl k i l"
proof -
  have "ph k = Idle" using assms by (auto simp: quota_inv_def bucket_at_rest_def)
  then have "in_flight s ph k = {}"
    using assms rest_on_the_way [of s] by (auto simp: quota_inv_def in_flight_def split: lock.split)
  then show ?thesis using assms(1) by (auto simp: quota_inv_def)
qed

text \<open>What was asked for and is not owed was worked on afterwards, and not put back by the last work on it.\<close>

lemma owed_split:
  assumes "\<not> owed cl k i l" "QAsked k i \<in> set l"
  shows "\<exists>l1 items w l2. l = l1 @ QWorked k items w # l2 \<and> i \<in> set items \<and> QAsked k i \<notin> set l1 \<and>
    (\<forall>items' w'. QWorked k items' w' \<in> set l1 \<longrightarrow> i \<notin> set items') \<and>
    (\<forall>ds. put_back cl k items w = Some ds \<longrightarrow> i \<notin> set ds)"
  using assms
proof (induction l)
  case (Cons x l)
  show ?case
  proof (cases "\<exists>items w. x = QWorked k items w \<and> i \<in> set items")
    case True
    then obtain items w where x: "x = QWorked k items w" "i \<in> set items" by blast
    then show ?thesis using Cons.prems(1) by (intro exI [of _ "[]"] exI [of _ items] exI [of _ w] exI [of _ l]) auto
  next
    case False
    then have "\<not> owed cl k i l" "QAsked k i \<in> set l" "x \<noteq> QAsked k i"
      using Cons.prems by (cases x; auto split: if_splits)+
    with Cons.IH obtain l1 items w l2 where l: "l = l1 @ QWorked k items w # l2" "i \<in> set items" "QAsked k i \<notin> set l1"
      "\<forall>items' w'. QWorked k items' w' \<in> set l1 \<longrightarrow> i \<notin> set items'"
      "\<forall>ds. put_back cl k items w = Some ds \<longrightarrow> i \<notin> set ds" by blast
    then show ?thesis using False \<open>x \<noteq> QAsked k i\<close>
      by (intro exI [of _ "x # l1"] exI [of _ items] exI [of _ w] exI [of _ l2]) auto
  qed
qed simp

section \<open>The usage is current\<close>

text \<open>A forced recalculation that is not put back is in the status that was there or has been written.\<close>

lemma handled_forced:
  assumes "consistent quota" and "forced n \<in> set items"
    and sync: "syncQuotaForNamespaces cl w quota items = (errs, retry, w')" and "errs = [] \<or> forced n \<notin> set retry"
  shows "\<exists>nss quota'. mapper_GetNamespacesFor cl w (cq_Name quota) = (nss, cq_Selector quota) \<and>
    consistent quota' \<and> same_spec quota quota' \<and>
    map_of (cq_Namespaces quota') n = (if n \<in> set nss then Some (fresh_status cl w quota n) else None) \<and>
    (n \<in> set nss \<longrightarrow> \<not> usage_fails cl w quota n) \<and>
    (quota' = quota \<or> (\<exists>r. qc_UpdateStatus cl w quota' = (Inr r, w')))"
proof -
  obtain nss sel where m: "mapper_GetNamespacesFor cl w (cq_Name quota) = (nss, sel)" by fastforce
  obtain quota' es rs where r: "reconcile cl w (set nss) quota items = (quota', es, rs)" by (metis prod_cases3)
  note res = reconcile_result [OF assms(1) r]
  from res(5) obtain q1 where q1: "fold (sync_item cl w (set nss)) items (quota, [], []) = (q1, es, rs)"
    and st: "status_of (cq_Namespaces quota') = status_of (cq_Namespaces q1) |` set nss" by blast
  have wrote: "sel = cq_Selector quota \<and> errs = es \<and> retry = rs \<and> (quota' = quota \<or> (\<exists>r. qc_UpdateStatus cl w quota' = (Inr r, w')))"
    using sync assms(2,4) by (auto simp: syncQuotaForNamespaces_def m r Let_def split: if_splits prod.splits sum.splits)
  have "forced n \<notin> set rs" using assms(4) wrote items_retry [OF assms(1) q1] by auto
  then have ok: "n \<in> set nss \<longrightarrow> \<not> usage_fails cl w quota n"
    using items_retry [OF assms(1) q1, unfolded append_Nil] assms(2) by fastforce
  then have "status_of (cq_Namespaces quota') n = (if n \<in> set nss then Some (fresh_status cl w quota n) else None)"
    using items_fresh [OF assms(1) q1 _ assms(2)] by (simp add: st restrict_map_def)
  then show ?thesis using m wrote res(1,2) ok by (intro exI [of _ nss] exI [of _ quota']) (simp add: status_of_def)
qed

text \<open>C5: Quota usage is current. However recalculations asked for by events, workers, retries and changes of the
  cluster interleave, down to the two halves of each method of the queue: once the queue is at rest, each forced
  recalculation of a namespace was part of a reconciliation after it was last asked for, and the last such
  reconciliation found the quota gone, or found an up to date mapping and left the quota, unchanged or written to
  the API server, with a consistent status: exactly the usage calculated then for the namespace, or no entry
  when it does not match. (Statuses that reach the workers are consistent.)\<close>

theorem usage_current_at_rest:
  assumes "(quota_step cl)\<^sup>*\<^sup>* (quota_start start) (s, w, ph, l)" and "bucket_at_rest s"
    and "QAsked k (forced n) \<in> set l"
    and "\<forall>items w1 quota. QWorked k items w1 \<in> set l \<and> ql_Get cl w1 k = Inr quota \<longrightarrow> consistent quota"
  shows "\<exists>l1 items w1 l2. l = l1 @ QWorked k items w1 # l2 \<and> forced n \<in> set items \<and> QAsked k (forced n) \<notin> set l1 \<and>
    (\<forall>items' w'. QWorked k items' w' \<in> set l1 \<longrightarrow> forced n \<notin> set items') \<and>
    (case ql_Get cl w1 k of
       Inl e \<Rightarrow> e = NotFound
     | Inr quota \<Rightarrow> \<exists>nss quota'. mapper_GetNamespacesFor cl w1 (cq_Name quota) = (nss, cq_Selector quota) \<and>
         consistent quota' \<and> same_spec quota quota' \<and>
         map_of (cq_Namespaces quota') n = (if n \<in> set nss
           then Some \<lparr>Hard = cq_Hard quota, Used = fst (quotaUsageCalculationFunc cl w1 quota n)\<rparr> else None) \<and>
         (n \<in> set nss \<longrightarrow> snd (quotaUsageCalculationFunc cl w1 quota n) = []) \<and>
         (quota' = quota \<or> (\<exists>r w2. qc_UpdateStatus cl w1 quota' = (Inr r, w2))))"
proof -
  have "\<not> owed cl k (forced n) l" by (rule owed_none_at_rest [OF quota_inv_reachable [OF assms(1)] assms(2)])
  from owed_split [OF this assms(3)] obtain l1 items w1 l2 where
    l: "l = l1 @ QWorked k items w1 # l2" "forced n \<in> set items" "QAsked k (forced n) \<notin> set l1"
    "\<forall>items' w'. QWorked k items' w' \<in> set l1 \<longrightarrow> forced n \<notin> set items'"
    and kept: "\<forall>ds. put_back cl k items w1 = Some ds \<longrightarrow> forced n \<notin> set ds" by (elim exE conjE) (rule that)
  have "case ql_Get cl w1 k of
       Inl e \<Rightarrow> e = NotFound
     | Inr quota \<Rightarrow> \<exists>nss quota'. mapper_GetNamespacesFor cl w1 (cq_Name quota) = (nss, cq_Selector quota) \<and>
         consistent quota' \<and> same_spec quota quota' \<and>
         map_of (cq_Namespaces quota') n = (if n \<in> set nss then Some (fresh_status cl w1 quota n) else None) \<and>
         (n \<in> set nss \<longrightarrow> \<not> usage_fails cl w1 quota n) \<and>
         (quota' = quota \<or> (\<exists>r w2. qc_UpdateStatus cl w1 quota' = (Inr r, w2)))"
  proof (cases "ql_Get cl w1 k")
    case (Inl e)
    then show ?thesis using kept l(2) by (cases e) (simp_all add: put_back_def)
  next
    case (Inr quota)
    obtain errs retry w2 where sync: "syncQuotaForNamespaces cl w1 quota items = (errs, retry, w2)" by (metis prod_cases3)
    have "consistent quota" using assms(4) Inr by (auto simp: l(1))
    moreover have "errs = [] \<or> forced n \<notin> set retry" using kept Inr sync by (auto simp: put_back_def)
    ultimately show ?thesis using handled_forced [OF _ l(2) sync] Inr by (simp, meson)
  qed
  then show ?thesis unfolding fresh_status_def usage_fails_def not_not
    by (intro exI [of _ l1] exI [of _ items] exI [of _ w1] exI [of _ l2] conjI l)
qed

section \<open>Methods that are not interrupted\<close>

text \<open>The methods of the queue, and the whole of \<open>workFunc\<close>, are runs of the interleaved system.\<close>

lemma add_steps:
  assumes "workLock s = Unlocked"
  shows "(quota_step cl)\<^sup>*\<^sup>* (s, w, ph, l)
    (s\<lparr>bk := AddWithData k ds (bk s), workLock := Unlocked, added := (added s)(k := added s k @ ds)\<rparr>, w, ph, rev (map (QAsked k) ds) @ l)"
  by (rule converse_rtranclp_into_rtranclp, rule asked [OF assms, of _ _ _ _ k ds], rule r_into_rtranclp)
    (use stored [of "s\<lparr>bk := AddWithData_queue k (bk s), workLock := Adding k ds\<rparr>" k ds cl] in \<open>simp add: AddWithData_def\<close>)

lemma limited_steps:
  assumes "workLock s = Unlocked" "ph k = PuttingBack ds"
  shows "(quota_step cl)\<^sup>*\<^sup>* (s, w, ph, l)
    (s\<lparr>bk := AddWithDataRateLimited k ds (bk s), workLock := Unlocked, added := (added s)(k := added s k @ ds)\<rparr>, w, ph(k := Ready), l)"
  by (rule converse_rtranclp_into_rtranclp, rule returned [of ph k ds s, OF assms(2,1)], rule r_into_rtranclp)
    (use stored [of "s\<lparr>bk := AddWithDataRateLimited_queue k (bk s), workLock := Adding k ds\<rparr>" k ds cl] in
      \<open>simp add: AddWithDataRateLimited_def\<close>)

lemma done_steps:
  assumes "workLock s = Unlocked" "ph k = Ready"
  shows "(quota_step cl)\<^sup>*\<^sup>* (s, w, ph, l) (s\<lparr>bk := bucket_Done k (bk s), workLock := Unlocked\<rparr>, w, ph(k := Idle), l)"
  by (rule converse_rtranclp_into_rtranclp, rule finished [of ph k s, OF assms(2,1)], rule r_into_rtranclp)
    (use released [of "s\<lparr>bk := Done_queue k (bk s), workLock := Finishing k\<rparr>" k cl] in \<open>simp add: bucket_Done_def\<close>)

lemma get_steps:
  assumes "workLock s = Unlocked" "GetWithData (bk s) = Some (Some (k, ds), e)"
  shows "(quota_step cl)\<^sup>*\<^sup>* (s, w, ph, l)
    (s\<lparr>bk := e, fetching := fetching s - {k}, handed := (handed s)(k := handed s k @ ds)\<rparr>, w, ph(k := Holding ds), l)"
proof -
  obtain q where q: "wq_Get (queue (bk s)) = Some (Some k, q)" "Get_data k ((bk s)\<lparr>queue := q\<rparr>) = (ds, e)"
    using assms(2) by (auto simp: GetWithData_def split: option.splits prod.splits)
  show ?thesis
    by (rule converse_rtranclp_into_rtranclp, rule got [OF q(1)], rule r_into_rtranclp)
      (use collected [of k "s\<lparr>bk := (bk s)\<lparr>queue := q\<rparr>, fetching := insert k (fetching s)\<rparr>" ds e cl] assms(1) q(2) in simp)
qed

lemma workFunc_steps:
  assumes "workLock s = Unlocked" and "bk s = qq_bucket q" and "GetWithData (bk s) = Some (Some (k, items), b)"
    and "workFunc cl (q, w) = Some (quit, q', w')"
  shows "\<exists>s'. (quota_step cl)\<^sup>*\<^sup>* (s, w, ph, l) (s', w', ph(k := Idle), QWorked k items w # l) \<and>
    bk s' = qq_bucket q' \<and> workLock s' = Unlocked \<and> fetching s' = fetching s - {k}"
proof -
  let ?s1 = "s\<lparr>bk := b, fetching := fetching s - {k}, handed := (handed s)(k := handed s k @ items)\<rparr>"
  let ?ph = "ph(k := (case put_back cl k items w of None \<Rightarrow> Ready | Some ds \<Rightarrow> PuttingBack ds))" and ?l = "QWorked k items w # l"
  have w': "w' = quota_work cl k items w"
    and q': "qq_bucket q' = bucket_Done k (case put_back cl k items w of None \<Rightarrow> b | Some ds \<Rightarrow> AddWithDataRateLimited k ds b)"
    using assms(2-4) by (auto simp: workFunc_def work_on_put_back qq_Done_def qq_Forget_def qq_AddWithDataRateLimited_def split: option.splits)
  have "quota_step cl (?s1, w, ph(k := Holding items), l) (?s1, w', ?ph, ?l)"
    using worked [of "ph(k := Holding items)" k items cl ?s1 w l] by (simp add: w')
  then have run: "(quota_step cl)\<^sup>*\<^sup>* (s, w, ph, l) (?s1, w', ?ph, ?l)"
    using get_steps [OF assms(1,3)] by (rule rtranclp.rtrancl_into_rtrancl [rotated])
  show ?thesis
  proof (cases "put_back cl k items w")
    case None
    then have "(quota_step cl)\<^sup>*\<^sup>* (s, w, ph, l) (?s1\<lparr>bk := bucket_Done k b, workLock := Unlocked\<rparr>, w', ph(k := Idle), ?l)"
      using rtranclp_trans [OF run done_steps [of ?s1 ?ph k]] assms(1) by simp
    then show ?thesis using None q' by (intro exI) (rule conjI, assumption, simp)
  next
    case (Some ds)
    let ?s2 = "?s1\<lparr>bk := AddWithDataRateLimited k ds b, workLock := Unlocked, added := (added s)(k := added s k @ ds)\<rparr>"
    have "(quota_step cl)\<^sup>*\<^sup>* (?s1, w', ?ph, ?l) (?s2, w', ph(k := Ready), ?l)"
      using limited_steps [of ?s1 ?ph k ds cl w' ?l] Some assms(1) by simp
    moreover have "(quota_step cl)\<^sup>*\<^sup>* (?s2, w', ph(k := Ready), ?l)
        (?s2\<lparr>bk := bucket_Done k (bk ?s2), workLock := Unlocked\<rparr>, w', ph(k := Idle), ?l)"
      using done_steps [of ?s2 "ph(k := Ready)" k cl w' ?l] by simp
    ultimately have "(quota_step cl)\<^sup>*\<^sup>* (s, w, ph, l) (?s2\<lparr>bk := bucket_Done k (bk ?s2), workLock := Unlocked\<rparr>, w', ph(k := Idle), ?l)"
      using run by (meson rtranclp_trans)
    then show ?thesis using Some q' by (intro exI) (rule conjI, assumption, simp)
  qed
qed

section \<open>An example\<close>

text \<open>A recalculation of the namespace \<open>a\<close> is asked for and done.\<close>

abbreviation ex_cl :: "cluster_quota list quota_client" where
  "ex_cl \<equiv> ex_qclient [''a''] ex_quota"

lemma ex_mapper: "mapper_GetNamespacesFor ex_cl w (cq_Name ex_quota) = ([''a''], cq_Selector ex_quota)"
  by (simp add: ex_qclient_def)

lemma ex_put_back: "put_back ex_cl ''q'' [forced ''a''] [] = None"
proof -
  have usage: "\<forall>n \<in> set [''a'']. forced n \<in> set [forced ''a'']"
    "\<forall>n \<in> set [''a'']. snd (quotaUsageCalculationFunc ex_cl [] ex_quota n) = []"
    by (simp_all add: ex_usage)
  obtain quota' where "syncQuotaForNamespaces ex_cl [] ex_quota [forced ''a''] =
      (if quota' = ex_quota then ([], [], [])
       else case qc_UpdateStatus ex_cl [] quota' of
              (Inl e, w') \<Rightarrow> ([UpdateStatusFailed e], [forced ''a''], w')
            | (Inr _, w') \<Rightarrow> ([], [], w'))"
    using full_recalculation [OF ex_consistent ex_mapper usage] by (elim exE conjE) (rule that)
  moreover have "qc_UpdateStatus ex_cl [] quota' = (Inr quota', [quota'])" for quota' by (simp add: ex_qclient_def)
  ultimately have "fst (syncQuotaForNamespaces ex_cl [] ex_quota [forced ''a'']) = []" by auto
  moreover have "ql_Get ex_cl [] ''q'' = Inr ex_quota" by (simp add: ex_qclient_def)
  ultimately show ?thesis by (cases "syncQuotaForNamespaces ex_cl [] ex_quota [forced ''a'']") (simp add: put_back_def)
qed

lemma ex_settled_run:
  "\<exists>s w. (quota_step ex_cl)\<^sup>*\<^sup>* (quota_start []) (s, w, \<lambda>_. Idle, [QWorked ''q'' [forced ''a''] [], QAsked ''q'' (forced ''a'')]) \<and>
     bucket_at_rest s"
proof -
  let ?q = "forceCalculation ''q'' [''a''] ex_queue"
  let ?s = "bucket_start\<lparr>bk := AddWithData ''q'' [forced ''a''] (bk bucket_start), workLock := Unlocked,
    added := (added bucket_start)(''q'' := added bucket_start ''q'' @ [forced ''a''])\<rparr>"
  have q: "bk ?s = qq_bucket ?q"
    by (simp add: bucket_start_def forceCalculation_def qq_AddWithData_def ex_queue_def)
  define b :: "workItem bucket" where "b = \<lparr>queue = \<lparr>q_queue = [], q_dirty = {}, q_processing = {''q''}, q_shuttingDown = False\<rparr>,
      work = (\<lambda>_. []), dirtyWork = (\<lambda>_. []), inProgress = {''q''}, delayed = []\<rparr>"
  have get: "GetWithData (bk ?s) = Some (Some (''q'', [forced ''a'']), b)"
    by (auto simp: b_def bucket_start_def NewBucketingWorkQueue_def wq_New_def AddWithData_def bucket_defs wq_Add_def
        GetWithData_def wq_Get_def)
  obtain q' w' where run: "workFunc ex_cl (?q, []) = Some (False, q', w')"
    by (rule workFunc_returns) (rule get [unfolded q])
  have q': "qq_bucket q' = bucket_Done ''q'' b"
    using run get by (auto simp: workFunc_def q work_on_put_back ex_put_back qq_Done_def qq_Forget_def)
  have "workLock ?s = Unlocked" by simp
  from workFunc_steps [OF this q get run, of "\<lambda>_. Idle" "[QAsked ''q'' (forced ''a'')]"] obtain s where
    s: "(quota_step ex_cl)\<^sup>*\<^sup>* (?s, [], \<lambda>_. Idle, [QAsked ''q'' (forced ''a'')])
      (s, w', \<lambda>_. Idle, [QWorked ''q'' [forced ''a''] [], QAsked ''q'' (forced ''a'')])"
    "bk s = qq_bucket q'" "fetching s = {}"
    by (auto simp: bucket_start_def fun_upd_idem)
  have "(quota_step ex_cl)\<^sup>*\<^sup>* (quota_start []) (?s, [], \<lambda>_. Idle, [QAsked ''q'' (forced ''a'')])"
    using add_steps [of bucket_start ex_cl "[]" "\<lambda>_. Idle" "[]" "''q''" "[forced ''a'']"] by (simp add: bucket_start_def)
  from rtranclp_trans [OF this s(1)] have "(quota_step ex_cl)\<^sup>*\<^sup>* (quota_start [])
      (s, w', \<lambda>_. Idle, [QWorked ''q'' [forced ''a''] [], QAsked ''q'' (forced ''a'')])" .
  moreover have "bucket_at_rest s"
    using s(2,3) by (simp add: bucket_at_rest_def q' b_def bucket_Done_def bucket_defs wq_Done_def wq_Get_def)
  ultimately show ?thesis by blast
qed

theorem usage_current_at_rest_witness:
  "\<exists>quota'. consistent quota' \<and> same_spec ex_quota quota' \<and>
     map_of (cq_Namespaces quota') ''a'' = Some \<lparr>Hard = [''pods'' \<mapsto> 10], Used = [''pods'' \<mapsto> 3]\<rparr> \<and>
     qc_UpdateStatus ex_cl [] quota' = (Inr quota', [quota'])"
proof -
  let ?l = "[QWorked ''q'' [forced ''a''] [], QAsked ''q'' (forced ''a'')]"
  obtain s w where run: "(quota_step ex_cl)\<^sup>*\<^sup>* (quota_start []) (s, w, \<lambda>_. Idle, ?l)" "bucket_at_rest s"
    using ex_settled_run by blast
  have get: "ql_Get ex_cl v ''q'' = Inr ex_quota" for v by (simp add: ex_qclient_def)
  have asked: "QAsked ''q'' (forced ''a'') \<in> set ?l" by simp
  have "\<forall>items w1 quota. QWorked ''q'' items w1 \<in> set ?l \<and> ql_Get ex_cl w1 ''q'' = Inr quota \<longrightarrow> consistent quota"
    using ex_consistent by (simp add: get)
  from usage_current_at_rest [OF run asked this] obtain w1 where
    st: "case ql_Get ex_cl w1 ''q'' of
       Inl e \<Rightarrow> e = NotFound
     | Inr quota \<Rightarrow> \<exists>nss quota'. mapper_GetNamespacesFor ex_cl w1 (cq_Name quota) = (nss, cq_Selector quota) \<and>
         consistent quota' \<and> same_spec quota quota' \<and>
         map_of (cq_Namespaces quota') ''a'' = (if ''a'' \<in> set nss
           then Some \<lparr>Hard = cq_Hard quota, Used = fst (quotaUsageCalculationFunc ex_cl w1 quota ''a'')\<rparr> else None) \<and>
         (''a'' \<in> set nss \<longrightarrow> snd (quotaUsageCalculationFunc ex_cl w1 quota ''a'') = []) \<and>
         (quota' = quota \<or> (\<exists>r w2. qc_UpdateStatus ex_cl w1 quota' = (Inr r, w2)))"
    by (elim exE conjE) (rule that)
  from st obtain quota' where q: "consistent quota'" "same_spec ex_quota quota'"
    "map_of (cq_Namespaces quota') ''a'' = Some \<lparr>Hard = [''pods'' \<mapsto> 10], Used = [''pods'' \<mapsto> 3]\<rparr>"
    unfolding get sum.case ex_mapper by (auto simp del: ex_quota_fields(1) simp: ex_usage)
  moreover have "qc_UpdateStatus ex_cl [] quota' = (Inr quota', [quota'])" by (simp add: ex_qclient_def)
  ultimately show ?thesis by blast
qed

end
