(* ===== verification/Quota_Events.thy ===== *)
theory Quota_Events
  imports Quota_Run
begin

text \<open>
  What the monitors do with the events of the resources they watch: the handlers, the queue of changes and the loop
  that calls \<open>replenishQuota\<close>
  (\<open>src/vendor/k8s.io/kubernetes/pkg/controller/resourcequota/resource_quota_monitor.go\<close>).
\<close>

section \<open>Events of monitored resources\<close>

datatype eventType = addEvent | updateEvent | deleteEvent

record 'o monitor_event =
  me_eventType :: eventType
  me_obj :: 'o
  me_oldObj :: "'o option"
  me_gvr :: gvr

text \<open>
  \<open>resourceChanges\<close>: its items are pointers to new events, so no two of them are equal and the queue is a list in
  the order of arrival. A queue that is shutting down takes nothing.
\<close>

record 'o changes_queue =
  rc_events :: "'o monitor_event list"
  rc_shuttingDown :: bool

definition rc_New :: "'o changes_queue" where
  "rc_New = \<lparr>rc_events = [], rc_shuttingDown = False\<rparr>"

definition rc_Add :: "'o monitor_event \<Rightarrow> 'o changes_queue \<Rightarrow> 'o changes_queue" where
  "rc_Add e q = (if rc_shuttingDown q then q else q\<lparr>rc_events := rc_events q @ [e]\<rparr>)"

definition rc_ShutDown :: "'o changes_queue \<Rightarrow> 'o changes_queue" where
  "rc_ShutDown q = q\<lparr>rc_shuttingDown := True\<rparr>"

text \<open>What an informer tells its handlers; a deletion it has missed comes with the last known object wrapped.\<close>

datatype 'o deleted_obj = Direct 'o | DeletedFinalStateUnknown 'o

datatype 'o notice = NoticeAdd 'o | NoticeUpdate 'o 'o | NoticeDelete "'o deleted_obj"

text \<open>The handlers \<open>controllerFor\<close> registers for a resource. Without an update filter no update counts.\<close>

definition monitor_handler :: "(gvr \<Rightarrow> 'o \<Rightarrow> 'o \<Rightarrow> bool) option \<Rightarrow> gvr \<Rightarrow> 'o notice \<Rightarrow> 'o changes_queue \<Rightarrow> 'o changes_queue" where
  "monitor_handler updateFilter resource n q =
     (case n of
        NoticeAdd _ \<Rightarrow> q
      | NoticeUpdate oldObj newObj \<Rightarrow>
          (if (case updateFilter of None \<Rightarrow> False | Some f \<Rightarrow> f resource oldObj newObj)
           then rc_Add \<lparr>me_eventType = updateEvent, me_obj = newObj, me_oldObj = Some oldObj, me_gvr = resource\<rparr> q
           else q)
      | NoticeDelete d \<Rightarrow>
          (let obj = (case d of Direct x \<Rightarrow> x | DeletedFinalStateUnknown x \<Rightarrow> x)
           in rc_Add \<lparr>me_eventType = deleteEvent, me_obj = obj, me_oldObj = None, me_gvr = resource\<rparr> q))"

text \<open>
  \<open>processResourceChanges\<close>, with whether to quit. \<open>accessor\<close> is \<open>meta.Accessor\<close> up to the namespace of the object,
  \<open>None\<close> when it fails. No result while the queue blocks.
\<close>

definition processResourceChanges :: "('o \<Rightarrow> string option) \<Rightarrow> (string \<times> string \<Rightarrow> string \<Rightarrow> 's \<Rightarrow> 's) \<Rightarrow>
    'o changes_queue \<times> 's \<Rightarrow> (bool \<times> 'o changes_queue \<times> 's) option" where
  "processResourceChanges accessor replenishmentFunc s =
     (case s of (q, st) \<Rightarrow>
      case rc_events q of
        [] \<Rightarrow> (if rc_shuttingDown q then Some (True, q, st) else None)
      | event # rest \<Rightarrow>
          Some (False, q\<lparr>rc_events := rest\<rparr>,
            case accessor (me_obj event) of
              None \<Rightarrow> st
            | Some namespace \<Rightarrow> replenishmentFunc (gv_Group (me_gvr event), gv_Resource (me_gvr event)) namespace st))"

definition runProcessResourceChanges :: "('o \<Rightarrow> string option) \<Rightarrow> (string \<times> string \<Rightarrow> string \<Rightarrow> 's \<Rightarrow> 's) \<Rightarrow>
    'o changes_queue \<times> 's \<Rightarrow> ('o changes_queue \<times> 's) option" where
  "runProcessResourceChanges accessor replenishmentFunc = worker_loop (processResourceChanges accessor replenishmentFunc)"

text \<open>\<open>IsSynced\<close>, over whether the controller of a monitor has synced, and the end of \<open>Run\<close>.\<close>

definition IsSynced :: "(gvr \<Rightarrow> bool) \<Rightarrow> quota_monitor \<Rightarrow> bool" where
  "IsSynced hasSynced qm \<longleftrightarrow> qm_monitors qm \<noteq> {} \<and> (\<forall>r \<in> qm_monitors qm. hasSynced r)"

definition qm_stop :: "quota_monitor \<times> 'o changes_queue \<Rightarrow> quota_monitor \<times> 'o changes_queue" where
  "qm_stop s = (case s of (qm, q) \<Rightarrow> (qm\<lparr>qm_running := False, qm_monitors := {}, qm_started := {}\<rparr>, rc_ShutDown q))"

section \<open>Every change is replenished once\<close>

text \<open>The group, resource and namespace of the change a notice stands for, if it stands for one.\<close>

fun change_of :: "(gvr \<Rightarrow> 'o \<Rightarrow> 'o \<Rightarrow> bool) option \<Rightarrow> ('o \<Rightarrow> string option) \<Rightarrow> gvr \<times> 'o notice \<Rightarrow> ((string \<times> string) \<times> string) option" where
  "change_of updateFilter accessor (r, NoticeAdd _) = None"
| "change_of updateFilter accessor (r, NoticeUpdate oldObj newObj) =
     (if (\<exists>f. updateFilter = Some f \<and> f r oldObj newObj)
      then map_option (Pair (gv_Group r, gv_Resource r)) (accessor newObj) else None)"
| "change_of updateFilter accessor (r, NoticeDelete (Direct obj)) = map_option (Pair (gv_Group r, gv_Resource r)) (accessor obj)"
| "change_of updateFilter accessor (r, NoticeDelete (DeletedFinalStateUnknown obj)) =
     map_option (Pair (gv_Group r, gv_Resource r)) (accessor obj)"

definition event_change :: "('o \<Rightarrow> string option) \<Rightarrow> 'o monitor_event \<Rightarrow> ((string \<times> string) \<times> string) option" where
  "event_change accessor e = map_option (Pair (gv_Group (me_gvr e), gv_Resource (me_gvr e))) (accessor (me_obj e))"

lemma handler_events:
  assumes "\<not> rc_shuttingDown q"
  shows "List.map_filter (event_change accessor) (rc_events (monitor_handler updateFilter r n q)) =
      List.map_filter (event_change accessor) (rc_events q) @
      (case change_of updateFilter accessor (r, n) of None \<Rightarrow> [] | Some c \<Rightarrow> [c])"
    and "\<not> rc_shuttingDown (monitor_handler updateFilter r n q)"
  using assms
  by (auto simp: monitor_handler_def rc_Add_def event_change_def List.map_filter_def split: notice.splits deleted_obj.splits option.splits)

lemma handlers_events:
  assumes "\<not> rc_shuttingDown q"
  shows "List.map_filter (event_change accessor) (rc_events (fold (\<lambda>(r, n). monitor_handler updateFilter r n) notices q)) =
      List.map_filter (event_change accessor) (rc_events q) @ List.map_filter (change_of updateFilter accessor) notices"
  using assms
proof (induction notices arbitrary: q)
  case (Cons x notices)
  obtain r n where x: "x = (r, n)" by fastforce
  show ?case using Cons.IH [of "monitor_handler updateFilter r n q"] handler_events(1) [OF Cons.prems, of accessor updateFilter r n]
      handler_events(2) [OF Cons.prems, of updateFilter r n] x
    by (simp add: List.map_filter_simps split: option.split)
qed (simp add: List.map_filter_simps)

text \<open>The loop after the shutdown: every event is handed on, in order.\<close>

lemma runProcess_drains:
  assumes "rc_shuttingDown q"
  shows "\<exists>q'. runProcessResourceChanges accessor repl (q, st) =
      Some (q', fold (\<lambda>(gr, ns). repl gr ns) (List.map_filter (event_change accessor) (rc_events q)) st) \<and> rc_events q' = []"
proof -
  let ?f = "\<lambda>e st. case event_change accessor e of None \<Rightarrow> st | Some (gr, ns) \<Rightarrow> repl gr ns st"
  have "\<exists>s'. worker_loop (processResourceChanges accessor repl) (q, st) = Some s' \<and> rc_shuttingDown (fst s') \<and>
      rc_events (fst s') = [] \<and> snd s' = fold ?f (rc_events (fst (q, st))) (snd (q, st))"
    by (rule worker_loop_uses_up)
      (use assms in \<open>auto simp: processResourceChanges_def event_change_def split: option.splits\<close>)
  moreover have "fold ?f es st = fold (\<lambda>(gr, ns). repl gr ns) (List.map_filter (event_change accessor) es) st" for es st
    by (induction es arbitrary: st) (auto simp: List.map_filter_simps split: option.splits)
  ultimately show ?thesis unfolding runProcessResourceChanges_def by force
qed

lemma fold_replenish_pending:
  assumes "\<And>ns. distinct (mapper_GetClusterQuotasFor cl w ns)"
  shows "pending (fold (\<lambda>(gr, ns). replenishQuota cl w gr ns) cs q) k =
    pending q k @ map (\<lambda>(gr, ns). \<lparr>namespaceName = ns, forceRecalculation = True\<rparr>) (filter (\<lambda>(gr, ns). tracks cl w gr ns k) cs)"
  by (induction cs arbitrary: q) (auto simp: replenishQuota_enqueues(1) [OF assms])

text \<open>C29: No change of a monitored object is lost. Whatever the informers of the monitored resources tell, in any order:
  once the monitor shuts down, the loop over the changes ends with an empty queue, and every quota has received, in
  order, exactly one forced item for each deletion, missed ones included, and each update the filter lets pass, in
  a namespace and of a kind that the quota tracks. The caches stay as they are in between.\<close>

theorem changes_reach_quotas:
  assumes "\<And>ns. distinct (mapper_GetClusterQuotasFor cl w ns)"
    and "q = fold (\<lambda>(r, n). monitor_handler updateFilter r n) notices rc_New"
  shows "\<exists>q' quotas'. runProcessResourceChanges accessor (replenishQuota cl w) (rc_ShutDown q, quotas) = Some (q', quotas') \<and>
    rc_events q' = [] \<and>
    (\<forall>k. pending quotas' k = pending quotas k @
       map (\<lambda>(gr, ns). \<lparr>namespaceName = ns, forceRecalculation = True\<rparr>)
         (filter (\<lambda>(gr, ns). tracks cl w gr ns k) (List.map_filter (change_of updateFilter accessor) notices)))"
proof -
  have "List.map_filter (event_change accessor) (rc_events (rc_ShutDown q)) = List.map_filter (change_of updateFilter accessor) notices"
    using handlers_events [of rc_New accessor updateFilter notices] unfolding assms(2)
    by (simp add: rc_New_def rc_ShutDown_def List.map_filter_simps)
  then show ?thesis
    using runProcess_drains [of "rc_ShutDown q" accessor "replenishQuota cl w" quotas] fold_replenish_pending [OF assms(1)]
    by (auto simp: rc_ShutDown_def)
qed

text \<open>A pod deletion the informer has missed, a new pod, an update nobody filters for, and the deletion of a secret.\<close>

definition ex_resource :: "string \<Rightarrow> gvr" where
  "ex_resource name = \<lparr>gv_Group = [], gv_Version = ''v1'', gv_Resource = name\<rparr>"

definition ex_notices :: "(gvr \<times> string notice) list" where
  "ex_notices = [(ex_resource ''pods'', NoticeDelete (DeletedFinalStateUnknown ''a'')), (ex_resource ''pods'', NoticeAdd ''b''),
     (ex_resource ''pods'', NoticeUpdate ''b'' ''b''), (ex_resource ''secrets'', NoticeDelete (Direct ''b'')),
     (ex_resource ''pods'', NoticeDelete (Direct ''b''))]"

theorem changes_reach_quotas_witness:
  "\<exists>q' quotas'. runProcessResourceChanges Some (replenishQuota (ex_qclient [''a'', ''b''] ex_quota) [])
      (rc_ShutDown (fold (\<lambda>(r, n). monitor_handler None r n) ex_notices rc_New), ex_queue) = Some (q', quotas') \<and>
    rc_events q' = [] \<and> pending quotas' ''q'' = [forced ''a'', forced ''b'']"
proof -
  let ?cl = "ex_qclient [''a'', ''b''] ex_quota"
  have d: "distinct (mapper_GetClusterQuotasFor ?cl [] ns)" for ns by (simp add: ex_qclient_def)
  have p: "pending ex_queue ''q'' = []" by (simp add: pending_def ex_queue_def NewBucketingWorkQueue_def)
  have c: "List.map_filter (change_of None Some) ex_notices = [(([], ''pods''), ''a''), (([], ''secrets''), ''b''), (([], ''pods''), ''b'')]"
    by (simp add: ex_notices_def ex_resource_def List.map_filter_simps)
  have t: "tracks ?cl [] (g, r) ns ''q'' \<longleftrightarrow> g = [] \<and> r = ''pods'' \<and> ns \<in> {''a'', ''b''}" for g r ns
    by (auto simp: tracks_def ex_qclient_def ex_pods_def ResourceNames_def ex_quota_def)
  obtain q' quotas' where r: "runProcessResourceChanges Some (replenishQuota ?cl [])
      (rc_ShutDown (fold (\<lambda>(r, n). monitor_handler None r n) ex_notices rc_New), ex_queue) = Some (q', quotas')" "rc_events q' = []"
    and k: "pending quotas' ''q'' = pending ex_queue ''q'' @ map (\<lambda>(gr, ns). forced ns)
      (filter (\<lambda>(gr, ns). tracks ?cl [] gr ns ''q'') (List.map_filter (change_of None Some) ex_notices))"
    using changes_reach_quotas [OF d refl, of Some None ex_notices ex_queue] by blast
  have "pending quotas' ''q'' = [forced ''a'', forced ''b'']" unfolding k p c by (simp add: t)
  then show ?thesis using r by blast
qed

end
