(* ===== verification/Quota_Mapper.thy ===== *)
theory Quota_Mapper
  imports Quota_Examples
begin

text \<open>
  Which cluster quota selects which namespace:
  \<open>vendor/github.com/openshift/library-go/pkg/quota/clusterquotamapping/mapper.go\<close>, with the matcher of
  \<open>helpers.go\<close>. The quota reconciliation controller reads the mapping and is told about its changes.

  Every method first looks under a read lock and decides under the write lock, checking again; an early return
  reports what it has read. Each method is therefore one function of the state. The mapper keeps, for quotas
  and namespaces, what it has last seen (\<open>required\<close>) and what has been scanned (\<open>completed\<close>), and the mapping in both
  directions.
\<close>

section \<open>Matching\<close>

text \<open>
  \<open>labels.Requirement\<close> with the operators an expression of a label selector can have, and \<open>metav1.LabelSelectorAsSelector\<close>:
  the operator, the number of values, and what is matched. A label to match is a requirement of equality.
  The syntax of label keys and values is the parameter \<open>valid\<close>. \<open>None\<close> is an error.
\<close>

definition NewRequirement :: "(string \<Rightarrow> string list \<Rightarrow> bool) \<Rightarrow> string \<times> string \<times> string list \<Rightarrow> bool" where
  "NewRequirement valid expr =
     (case expr of (key, op, vals) \<Rightarrow>
        valid key vals \<and>
        (if op \<in> {''In'', ''NotIn''} then vals \<noteq> []
         else if op \<in> {''Exists'', ''DoesNotExist''} then vals = []
         else False))"

definition Requirement_Matches :: "string \<times> string \<times> string list \<Rightarrow> str_map \<Rightarrow> bool" where
  "Requirement_Matches expr ls =
     (case expr of (key, op, vals) \<Rightarrow>
        if op = ''In'' then (case ls key of None \<Rightarrow> False | Some val \<Rightarrow> val \<in> set vals)
        else if op = ''NotIn'' then (case ls key of None \<Rightarrow> True | Some val \<Rightarrow> val \<notin> set vals)
        else if op = ''Exists'' then ls key \<noteq> None
        else if op = ''DoesNotExist'' then ls key = None
        else False)"

definition LabelSelectorAsSelector :: "(string \<Rightarrow> string list \<Rightarrow> bool) \<Rightarrow> label_selector \<Rightarrow> (str_map \<Rightarrow> bool) option" where
  "LabelSelectorAsSelector valid ps =
     (if (\<forall>key \<in> dom (ls_MatchLabels ps). valid key [the (ls_MatchLabels ps key)]) \<and>
         list_all (NewRequirement valid) (ls_MatchExpressions ps)
      then Some (\<lambda>ls. ls_MatchLabels ps \<subseteq>\<^sub>m ls \<and> list_all (\<lambda>expr. Requirement_Matches expr ls) (ls_MatchExpressions ps))
      else None)"

text \<open>\<open>SelectionFields\<close>: what a selector looks at in a namespace.\<close>

record selection_fields =
  sf_Labels :: str_map
  sf_Annotations :: str_map

definition GetSelectionFields :: "namespace \<Rightarrow> selection_fields" where
  "GetSelectionFields namespace = \<lparr>sf_Labels = ns_Labels namespace, sf_Annotations = ns_Annotations namespace\<rparr>"

definition GetObjectMatcher :: "(string \<Rightarrow> string list \<Rightarrow> bool) \<Rightarrow> quota_selector \<Rightarrow> (selection_fields \<Rightarrow> bool) option" where
  "GetObjectMatcher valid selector =
     (case sel_LabelSelector selector of
        None \<Rightarrow> Some (\<lambda>obj. sel_AnnotationSelector selector \<subseteq>\<^sub>m sf_Annotations obj)
      | Some ls \<Rightarrow>
          (case LabelSelectorAsSelector valid ls of
             None \<Rightarrow> None
           | Some labelSelector \<Rightarrow>
               Some (\<lambda>obj. labelSelector (sf_Labels obj) \<and> sel_AnnotationSelector selector \<subseteq>\<^sub>m sf_Annotations obj)))"

section \<open>The mapper\<close>

text \<open>\<open>notified\<close> is what a listener that was there from the start has been told, oldest first.\<close>

datatype mapping_change = AddedMapping string string | RemovedMapping string string

record mapper =
  requiredQuotaToSelector :: "string \<rightharpoonup> quota_selector"
  requiredNamespaceToLabels :: "string \<rightharpoonup> selection_fields"
  completedQuotaToSelector :: "string \<rightharpoonup> quota_selector"
  completedNamespaceToLabels :: "string \<rightharpoonup> selection_fields"
  quotaToNamespaces :: "string \<rightharpoonup> string set"
  namespaceToQuota :: "string \<rightharpoonup> string set"
  notified :: "mapping_change list"

definition NewClusterQuotaMapper :: mapper where
  "NewClusterQuotaMapper =
     \<lparr>requiredQuotaToSelector = Map.empty, requiredNamespaceToLabels = Map.empty,
      completedQuotaToSelector = Map.empty, completedNamespaceToLabels = Map.empty,
      quotaToNamespaces = Map.empty, namespaceToQuota = Map.empty, notified = []\<rparr>"

text \<open>Go's zero values for what a missing key returns.\<close>

definition zero_selector :: quota_selector where
  "zero_selector = \<lparr>sel_LabelSelector = None, sel_AnnotationSelector = Map.empty\<rparr>"

definition zero_fields :: selection_fields where
  "zero_fields = \<lparr>sf_Labels = Map.empty, sf_Annotations = Map.empty\<rparr>"

definition set_at :: "(string \<rightharpoonup> string set) \<Rightarrow> string \<Rightarrow> string set" where
  "set_at m k = (case m k of None \<Rightarrow> {} | Some S \<Rightarrow> S)"

definition GetClusterQuotasFor :: "string \<Rightarrow> mapper \<Rightarrow> string list \<times> selection_fields" where
  "GetClusterQuotasFor nsName m =
     (case namespaceToQuota m nsName of
        None \<Rightarrow> []
      | Some quotas \<Rightarrow> sorted_list_of_set quotas,
      case completedNamespaceToLabels m nsName of None \<Rightarrow> zero_fields | Some f \<Rightarrow> f)"

definition GetNamespacesFor :: "string \<Rightarrow> mapper \<Rightarrow> string list \<times> quota_selector" where
  "GetNamespacesFor quotaName m =
     (case quotaToNamespaces m quotaName of
        None \<Rightarrow> []
      | Some namespaces \<Rightarrow> sorted_list_of_set namespaces,
      case completedQuotaToSelector m quotaName of None \<Rightarrow> zero_selector | Some s \<Rightarrow> s)"

text \<open>A nil map and an empty one are one value here; \<open>DeepEqual\<close> tells them apart in a namespace, at the cost of a scan.\<close>

definition selectorMatches :: "quota_selector option \<Rightarrow> cluster_quota \<Rightarrow> bool" where
  "selectorMatches selector quota \<longleftrightarrow> selector = Some (cq_Selector quota)"

definition selectionFieldsMatch :: "selection_fields option \<Rightarrow> namespace \<Rightarrow> bool" where
  "selectionFieldsMatch selectionFields namespace \<longleftrightarrow> selectionFields = Some (GetSelectionFields namespace)"

definition requireQuota :: "cluster_quota \<Rightarrow> mapper \<Rightarrow> bool \<times> mapper" where
  "requireQuota quota m =
     (if selectorMatches (requiredQuotaToSelector m (cq_Name quota)) quota then (False, m)
      else (True, m\<lparr>requiredQuotaToSelector := (requiredQuotaToSelector m)(cq_Name quota \<mapsto> cq_Selector quota)\<rparr>))"

definition completeQuota :: "cluster_quota \<Rightarrow> mapper \<Rightarrow> mapper" where
  "completeQuota quota m =
     m\<lparr>completedQuotaToSelector := (completedQuotaToSelector m)(cq_Name quota \<mapsto> cq_Selector quota)\<rparr>"

text \<open>The order in which the range over the map meets the namespaces is the argument \<open>ord\<close>.\<close>

definition removeQuota :: "(string set \<Rightarrow> string list) \<Rightarrow> string \<Rightarrow> mapper \<Rightarrow> mapper" where
  "removeQuota ord quotaName m =
     m\<lparr>requiredQuotaToSelector := (requiredQuotaToSelector m)(quotaName := None),
       completedQuotaToSelector := (completedQuotaToSelector m)(quotaName := None),
       quotaToNamespaces := (quotaToNamespaces m)(quotaName := None),
       namespaceToQuota := (\<lambda>n. map_option (\<lambda>quotas. quotas - {quotaName}) (namespaceToQuota m n)),
       notified := notified m @ map (RemovedMapping quotaName) (ord {n. quotaName \<in> set_at (namespaceToQuota m) n})\<rparr>"

definition requireNamespace :: "namespace \<Rightarrow> mapper \<Rightarrow> bool \<times> mapper" where
  "requireNamespace namespace m =
     (if selectionFieldsMatch (requiredNamespaceToLabels m (ns_Name namespace)) namespace then (False, m)
      else (True, m\<lparr>requiredNamespaceToLabels :=
              (requiredNamespaceToLabels m)(ns_Name namespace \<mapsto> GetSelectionFields namespace)\<rparr>))"

definition completeNamespace :: "namespace \<Rightarrow> mapper \<Rightarrow> mapper" where
  "completeNamespace namespace m =
     m\<lparr>completedNamespaceToLabels := (completedNamespaceToLabels m)(ns_Name namespace \<mapsto> GetSelectionFields namespace)\<rparr>"

definition removeNamespace :: "(string set \<Rightarrow> string list) \<Rightarrow> string \<Rightarrow> mapper \<Rightarrow> mapper" where
  "removeNamespace ord nsName m =
     m\<lparr>requiredNamespaceToLabels := (requiredNamespaceToLabels m)(nsName := None),
       completedNamespaceToLabels := (completedNamespaceToLabels m)(nsName := None),
       namespaceToQuota := (namespaceToQuota m)(nsName := None),
       quotaToNamespaces := (\<lambda>q. map_option (\<lambda>namespaces. namespaces - {nsName}) (quotaToNamespaces m q)),
       notified := notified m @ map (\<lambda>q. RemovedMapping q nsName) (ord {q. nsName \<in> set_at (quotaToNamespaces m) q})\<rparr>"

text \<open>\<open>setMapping\<close> after its checks.\<close>

definition unmap_pair :: "string \<Rightarrow> string \<Rightarrow> mapper \<Rightarrow> mapper" where
  "unmap_pair q n m =
     (let mutated = (n \<in> set_at (quotaToNamespaces m) q \<or> q \<in> set_at (namespaceToQuota m) n)
      in m\<lparr>quotaToNamespaces := (quotaToNamespaces m)(q \<mapsto> set_at (quotaToNamespaces m) q - {n}),
           namespaceToQuota := (namespaceToQuota m)(n \<mapsto> set_at (namespaceToQuota m) n - {q}),
           notified := notified m @ (if mutated then [RemovedMapping q n] else [])\<rparr>)"

definition map_pair :: "string \<Rightarrow> string \<Rightarrow> mapper \<Rightarrow> mapper" where
  "map_pair q n m =
     (let mutated = (n \<notin> set_at (quotaToNamespaces m) q \<or> q \<notin> set_at (namespaceToQuota m) n)
      in m\<lparr>quotaToNamespaces := (quotaToNamespaces m)(q \<mapsto> insert n (set_at (quotaToNamespaces m) q)),
           namespaceToQuota := (namespaceToQuota m)(n \<mapsto> insert q (set_at (namespaceToQuota m) n)),
           notified := notified m @ (if mutated then [AddedMapping q n] else [])\<rparr>)"

definition setMapping :: "cluster_quota \<Rightarrow> namespace \<Rightarrow> bool \<Rightarrow> mapper \<Rightarrow> (bool \<times> bool \<times> bool) \<times> mapper" where
  "setMapping quota namespace remove m =
     (let quotaMatches = selectorMatches (requiredQuotaToSelector m (cq_Name quota)) quota;
          namespaceMatches = selectionFieldsMatch (requiredNamespaceToLabels m (ns_Name namespace)) namespace
      in if \<not> quotaMatches then ((False, False, namespaceMatches), m)
         else if \<not> namespaceMatches then ((False, True, False), m)
         else if remove then ((True, True, True), unmap_pair (cq_Name quota) (ns_Name namespace) m)
         else ((True, True, True), map_pair (cq_Name quota) (ns_Name namespace) m))"

section \<open>The contract\<close>

text \<open>The pairs of the mapping, and its invariant: both directions agree, and only known names are mapped.\<close>

definition mapped :: "mapper \<Rightarrow> (string \<times> string) set" where
  "mapped m = {(q, n). n \<in> set_at (quotaToNamespaces m) q}"

definition mapper_inv :: "mapper \<Rightarrow> bool" where
  "mapper_inv m \<longleftrightarrow> finite (mapped m) \<and>
     (\<forall>q n. q \<in> set_at (namespaceToQuota m) n \<longleftrightarrow> (q, n) \<in> mapped m) \<and>
     (\<forall>q n. (q, n) \<in> mapped m \<longrightarrow> requiredQuotaToSelector m q \<noteq> None \<and> requiredNamespaceToLabels m n \<noteq> None)"

lemma mapped_iff: "(q, n) \<in> mapped m \<longleftrightarrow> n \<in> set_at (quotaToNamespaces m) q"
  by (simp add: mapped_def)

lemma mapper_invD:
  assumes "mapper_inv m"
  shows "finite (mapped m)" "q \<in> set_at (namespaceToQuota m) n \<longleftrightarrow> (q, n) \<in> mapped m"
    "(q, n) \<in> mapped m \<Longrightarrow> requiredQuotaToSelector m q \<noteq> None" "(q, n) \<in> mapped m \<Longrightarrow> requiredNamespaceToLabels m n \<noteq> None"
  using assms unfolding mapper_inv_def by blast+

text \<open>
  What a controller over the mapper may rely on: what each operation does to the pairs and to the required
  selectors and fields.
\<close>

locale quota_mapper =
  fixes ok :: "'m \<Rightarrow> bool"
    and pairs :: "'m \<Rightarrow> (string \<times> string) set"
    and reqQ :: "'m \<Rightarrow> string \<Rightarrow> quota_selector option"
    and reqN :: "'m \<Rightarrow> string \<Rightarrow> selection_fields option"
    and set_mapping :: "cluster_quota \<Rightarrow> namespace \<Rightarrow> bool \<Rightarrow> 'm \<Rightarrow> (bool \<times> bool \<times> bool) \<times> 'm"
    and require_quota :: "cluster_quota \<Rightarrow> 'm \<Rightarrow> bool \<times> 'm"
    and require_namespace :: "namespace \<Rightarrow> 'm \<Rightarrow> bool \<times> 'm"
    and remove_quota remove_namespace :: "string \<Rightarrow> 'm \<Rightarrow> 'm"
  assumes set_refused: "reqQ m (cq_Name q) \<noteq> Some (cq_Selector q) \<or> reqN m (ns_Name n) \<noteq> Some (GetSelectionFields n) \<Longrightarrow>
      set_mapping q n r m = ((False, reqQ m (cq_Name q) = Some (cq_Selector q),
        reqN m (ns_Name n) = Some (GetSelectionFields n)), m)"
    and set_done: "reqQ m (cq_Name q) = Some (cq_Selector q) \<Longrightarrow> reqN m (ns_Name n) = Some (GetSelectionFields n) \<Longrightarrow>
      fst (set_mapping q n r m) = (True, True, True)"
    and set_pairs: "ok m \<Longrightarrow> fst (set_mapping q n r m) = (True, True, True) \<Longrightarrow>
      pairs (snd (set_mapping q n r m)) =
        (if r then pairs m - {(cq_Name q, ns_Name n)} else insert (cq_Name q, ns_Name n) (pairs m))"
    and set_req: "reqQ (snd (set_mapping q n r m)) = reqQ m" "reqN (snd (set_mapping q n r m)) = reqN m"
    and set_ok: "ok m \<Longrightarrow> ok (snd (set_mapping q n r m))"
    and require_quota: "require_quota q m = (b, m') \<Longrightarrow>
      b = (reqQ m (cq_Name q) \<noteq> Some (cq_Selector q)) \<and> reqQ m' = (reqQ m)(cq_Name q \<mapsto> cq_Selector q) \<and>
      reqN m' = reqN m \<and> pairs m' = pairs m \<and> (ok m \<longrightarrow> ok m')"
    and require_namespace: "require_namespace n m = (b, m') \<Longrightarrow>
      b = (reqN m (ns_Name n) \<noteq> Some (GetSelectionFields n)) \<and> reqN m' = (reqN m)(ns_Name n \<mapsto> GetSelectionFields n) \<and>
      reqQ m' = reqQ m \<and> pairs m' = pairs m \<and> (ok m \<longrightarrow> ok m')"
    and remove_quota: "ok m \<Longrightarrow> ok (remove_quota k m) \<and> reqQ (remove_quota k m) = (reqQ m)(k := None) \<and>
      reqN (remove_quota k m) = reqN m \<and> pairs (remove_quota k m) = {p \<in> pairs m. fst p \<noteq> k}"
    and remove_namespace: "ok m \<Longrightarrow> ok (remove_namespace k m) \<and> reqN (remove_namespace k m) = (reqN m)(k := None) \<and>
      reqQ (remove_namespace k m) = reqQ m \<and> pairs (remove_namespace k m) = {p \<in> pairs m. snd p \<noteq> k}"
begin

text \<open>An attempt to set a pair: it changes at most this pair, and succeeds on what is required now.\<close>

lemma set_mapping_cases:
  assumes "set_mapping q n r m = ((success, quotaMatches, namespaceMatches), m')" "ok m"
  obtains (refused) "\<not> success" "m' = m" "quotaMatches \<longleftrightarrow> reqQ m (cq_Name q) = Some (cq_Selector q)"
      "namespaceMatches \<longleftrightarrow> reqN m (ns_Name n) = Some (GetSelectionFields n)" "\<not> quotaMatches \<or> \<not> namespaceMatches"
  | (stored) success "reqQ m (cq_Name q) = Some (cq_Selector q)" "reqN m (ns_Name n) = Some (GetSelectionFields n)"
      "pairs m' = (if r then pairs m - {(cq_Name q, ns_Name n)} else insert (cq_Name q, ns_Name n) (pairs m))" "ok m'"
      "reqQ m' = reqQ m" "reqN m' = reqN m"
proof (cases "reqQ m (cq_Name q) = Some (cq_Selector q) \<and> reqN m (ns_Name n) = Some (GetSelectionFields n)")
  case True
  then have d: "fst (set_mapping q n r m) = (True, True, True)" using set_done by blast
  show thesis
    using stored True d assms(1) set_pairs [OF assms(2) d] set_ok [OF assms(2), of q n r] set_req [of q n r m] by simp
next
  case False
  then show thesis using refused assms(1) set_refused [of m q n r] by auto
qed

end

text \<open>An order of a finite set.\<close>

definition orders :: "(string set \<Rightarrow> string list) \<Rightarrow> bool" where
  "orders ord \<longleftrightarrow> (\<forall>S. finite S \<longrightarrow> distinct (ord S) \<and> set (ord S) = S)"

lemma orders_D: "orders ord \<Longrightarrow> finite S \<Longrightarrow> distinct (ord S)" "orders ord \<Longrightarrow> finite S \<Longrightarrow> set (ord S) = S"
  by (simp_all add: orders_def)

lemmas mapper_defs = setMapping_def requireQuota_def requireNamespace_def removeQuota_def removeNamespace_def
  completeQuota_def completeNamespace_def map_pair_def unmap_pair_def selectorMatches_def selectionFieldsMatch_def

lemma set_at_simps [simp]:
  "set_at (m(k \<mapsto> S)) j = (if j = k then S else set_at m j)"
  "set_at (m(k := None)) j = (if j = k then {} else set_at m j)"
  "set_at (\<lambda>j. map_option (\<lambda>S. S - D) (m j)) k = set_at m k - D"
  "set_at Map.empty k = {}"
  by (auto simp: set_at_def split: option.split)

lemma mapped_ops:
  "mapped (map_pair q n m) = insert (q, n) (mapped m)"
  "mapped (unmap_pair q n m) = mapped m - {(q, n)}"
  "mapped (removeQuota ord q m) = {p \<in> mapped m. fst p \<noteq> q}"
  "mapped (removeNamespace ord n m) = {p \<in> mapped m. snd p \<noteq> n}"
  by (auto simp: mapped_def mapper_defs Let_def split: if_splits)

lemma mapper_inv_pair:
  assumes "mapper_inv m" "requiredQuotaToSelector m q \<noteq> None" "requiredNamespaceToLabels m n \<noteq> None"
  shows "mapper_inv (map_pair q n m)" "mapper_inv (unmap_pair q n m)"
  using assms unfolding mapper_inv_def mapped_ops by (simp_all add: map_pair_def unmap_pair_def Let_def) blast

lemma mapper_inv_require:
  "requireQuota q m = (b, m') \<Longrightarrow> mapper_inv m \<Longrightarrow> mapper_inv m'"
  "requireNamespace n m = (b, m') \<Longrightarrow> mapper_inv m \<Longrightarrow> mapper_inv m'"
  by (auto simp: mapper_inv_def requireQuota_def requireNamespace_def mapped_iff split: if_splits)
    (simp_all add: mapped_def)

lemma mapper_inv_complete [simp]:
  "mapper_inv (completeQuota q m) = mapper_inv m" "mapper_inv (completeNamespace n m) = mapper_inv m"
  "mapped (completeQuota q m) = mapped m" "mapped (completeNamespace n m) = mapped m"
  by (simp_all add: mapper_inv_def mapper_defs mapped_def)

lemma mapper_inv_remove:
  assumes "mapper_inv m"
  shows "mapper_inv (removeQuota ord q m)" "mapper_inv (removeNamespace ord n m)"
  using assms unfolding mapper_inv_def mapped_ops by (auto simp: mapper_defs)

lemma remove_req:
  "requiredQuotaToSelector (removeQuota ord q m) = (requiredQuotaToSelector m)(q := None)"
  "requiredNamespaceToLabels (removeQuota ord q m) = requiredNamespaceToLabels m"
  "requiredNamespaceToLabels (removeNamespace ord n m) = (requiredNamespaceToLabels m)(n := None)"
  "requiredQuotaToSelector (removeNamespace ord n m) = requiredQuotaToSelector m"
  by (simp_all add: mapper_defs)

interpretation qm: quota_mapper mapper_inv mapped requiredQuotaToSelector requiredNamespaceToLabels
  setMapping requireQuota requireNamespace "removeQuota ord" "removeNamespace ord"
  for ord :: "string set \<Rightarrow> string list"
proof
  fix m q n r
  assume "mapper_inv m"
  then show "mapper_inv (snd (setMapping q n r m))"
    using mapper_inv_pair [of m "cq_Name q" "ns_Name n"] by (auto simp: setMapping_def selectorMatches_def selectionFieldsMatch_def Let_def)
next
  fix m q n r
  assume "fst (setMapping q n r m) = (True, True, True)"
  then show "mapped (snd (setMapping q n r m)) =
      (if r then mapped m - {(cq_Name q, ns_Name n)} else insert (cq_Name q, ns_Name n) (mapped m))"
    by (auto simp: setMapping_def mapped_ops Let_def split: if_splits)
next
  fix q m b m'
  assume r: "requireQuota q m = (b, m')"
  have "b = (requiredQuotaToSelector m (cq_Name q) \<noteq> Some (cq_Selector q)) \<and>
      requiredQuotaToSelector m' = (requiredQuotaToSelector m)(cq_Name q \<mapsto> cq_Selector q) \<and>
      requiredNamespaceToLabels m' = requiredNamespaceToLabels m \<and> mapped m' = mapped m"
    using r by (auto simp: requireQuota_def selectorMatches_def mapped_def fun_upd_idem split: if_splits)
  then show "b = (requiredQuotaToSelector m (cq_Name q) \<noteq> Some (cq_Selector q)) \<and>
      requiredQuotaToSelector m' = (requiredQuotaToSelector m)(cq_Name q \<mapsto> cq_Selector q) \<and>
      requiredNamespaceToLabels m' = requiredNamespaceToLabels m \<and> mapped m' = mapped m \<and> (mapper_inv m \<longrightarrow> mapper_inv m')"
    using mapper_inv_require(1) [OF r] by blast
next
  fix n m b m'
  assume r: "requireNamespace n m = (b, m')"
  have "b = (requiredNamespaceToLabels m (ns_Name n) \<noteq> Some (GetSelectionFields n)) \<and>
      requiredNamespaceToLabels m' = (requiredNamespaceToLabels m)(ns_Name n \<mapsto> GetSelectionFields n) \<and>
      requiredQuotaToSelector m' = requiredQuotaToSelector m \<and> mapped m' = mapped m"
    using r by (auto simp: requireNamespace_def selectionFieldsMatch_def mapped_def fun_upd_idem split: if_splits)
  then show "b = (requiredNamespaceToLabels m (ns_Name n) \<noteq> Some (GetSelectionFields n)) \<and>
      requiredNamespaceToLabels m' = (requiredNamespaceToLabels m)(ns_Name n \<mapsto> GetSelectionFields n) \<and>
      requiredQuotaToSelector m' = requiredQuotaToSelector m \<and> mapped m' = mapped m \<and> (mapper_inv m \<longrightarrow> mapper_inv m')"
    using mapper_inv_require(2) [OF r] by blast
qed (simp_all add: mapper_inv_remove remove_req mapped_ops, auto simp: setMapping_def selectorMatches_def
    selectionFieldsMatch_def map_pair_def unmap_pair_def Let_def)

section \<open>What a listener knows\<close>

text \<open>The pairs according to the changes a listener was told, and whether each of them was a change.\<close>

fun after_change :: "mapping_change \<Rightarrow> (string \<times> string) set \<Rightarrow> (string \<times> string) set" where
  "after_change (AddedMapping q n) ps = insert (q, n) ps"
| "after_change (RemovedMapping q n) ps = ps - {(q, n)}"

fun real_change :: "mapping_change \<Rightarrow> (string \<times> string) set \<Rightarrow> bool" where
  "real_change (AddedMapping q n) ps \<longleftrightarrow> (q, n) \<notin> ps"
| "real_change (RemovedMapping q n) ps \<longleftrightarrow> (q, n) \<in> ps"

fun real_changes :: "mapping_change list \<Rightarrow> (string \<times> string) set \<Rightarrow> bool" where
  "real_changes [] ps \<longleftrightarrow> True"
| "real_changes (c # cs) ps \<longleftrightarrow> real_change c ps \<and> real_changes cs (after_change c ps)"

lemma real_changes_append:
  "real_changes (cs @ ds) ps \<longleftrightarrow> real_changes cs ps \<and> real_changes ds (fold after_change cs ps)"
  by (induction cs arbitrary: ps) auto

lemma removals:
  assumes "distinct xs" "\<forall>x \<in> set xs. f x \<in> ps" "inj f" "\<And>x. \<exists>q n. c x = RemovedMapping q n \<and> f x = (q, n)"
  shows "fold after_change (map c xs) ps = ps - f ` set xs \<and> real_changes (map c xs) ps"
  using assms(1,2)
proof (induction xs arbitrary: ps)
  case (Cons x xs)
  obtain q n where x: "c x = RemovedMapping q n" "f x = (q, n)" using assms(4) by blast
  have "\<forall>y \<in> set xs. f y \<in> ps - {f x}" using Cons.prems assms(3) by (auto dest: injD)
  then show ?case using Cons.IH [of "ps - {f x}"] Cons.prems x by auto
qed simp

text \<open>The operations the controllers perform, in any order.\<close>

datatype mapper_op = RequireQuota cluster_quota | CompleteQuota cluster_quota | RemoveQuota string
  | RequireNamespace namespace | CompleteNamespace namespace | RemoveNamespace string
  | SetMapping cluster_quota namespace bool

fun mapper_step :: "(string set \<Rightarrow> string list) \<Rightarrow> mapper_op \<Rightarrow> mapper \<Rightarrow> mapper" where
  "mapper_step ord (RequireQuota q) m = snd (requireQuota q m)"
| "mapper_step ord (CompleteQuota q) m = completeQuota q m"
| "mapper_step ord (RemoveQuota k) m = removeQuota ord k m"
| "mapper_step ord (RequireNamespace n) m = snd (requireNamespace n m)"
| "mapper_step ord (CompleteNamespace n) m = completeNamespace n m"
| "mapper_step ord (RemoveNamespace k) m = removeNamespace ord k m"
| "mapper_step ord (SetMapping q n remove) m = snd (setMapping q n remove m)"

definition listened :: "mapper \<Rightarrow> bool" where
  "listened m \<longleftrightarrow> mapper_inv m \<and> fold after_change (notified m) {} = mapped m \<and> real_changes (notified m) {}"

lemma listened_pair:
  assumes "listened m" "mapper_inv (map_pair q n m)" "mapper_inv (unmap_pair q n m)"
  shows "listened (map_pair q n m)" "listened (unmap_pair q n m)"
proof -
  have "q \<in> set_at (namespaceToQuota m) n \<longleftrightarrow> (q, n) \<in> mapped m" "n \<in> set_at (quotaToNamespaces m) q \<longleftrightarrow> (q, n) \<in> mapped m"
    using assms(1) by (auto simp: listened_def mapper_inv_def mapped_def)
  then show "listened (map_pair q n m)" "listened (unmap_pair q n m)"
    using assms unfolding listened_def mapped_ops
    by (auto simp: map_pair_def unmap_pair_def Let_def real_changes_append)
qed

lemma mapped_slices:
  assumes "mapper_inv m"
  shows "finite {n. (q, n) \<in> mapped m}" "finite {q. (q, n) \<in> mapped m}"
proof -
  have "{n. (q, n) \<in> mapped m} = snd ` {p \<in> mapped m. fst p = q}" "{q. (q, n) \<in> mapped m} = fst ` {p \<in> mapped m. snd p = n}"
    by force+
  then show "finite {n. (q, n) \<in> mapped m}" "finite {q. (q, n) \<in> mapped m}"
    using mapper_invD(1) [OF assms] by simp_all
qed

text \<open>Both lookups return the pairs, in ascending order.\<close>

lemma lookups_mapped:
  assumes "mapper_inv m"
  shows "fst (GetNamespacesFor q m) = sorted_list_of_set {n. (q, n) \<in> mapped m}"
    "fst (GetClusterQuotasFor n m) = sorted_list_of_set {q. (q, n) \<in> mapped m}"
    "set (fst (GetClusterQuotasFor n m)) = {q. (q, n) \<in> mapped m}"
proof -
  have s: "set_at (quotaToNamespaces m) q = {n. (q, n) \<in> mapped m}" "set_at (namespaceToQuota m) n = {q. (q, n) \<in> mapped m}"
    using mapper_invD(2) [OF assms] by (auto simp: mapped_iff)
  show "fst (GetNamespacesFor q m) = sorted_list_of_set {n. (q, n) \<in> mapped m}"
    "fst (GetClusterQuotasFor n m) = sorted_list_of_set {q. (q, n) \<in> mapped m}"
    by (simp_all add: GetNamespacesFor_def GetClusterQuotasFor_def s [symmetric] set_at_def split: option.split)
  then show "set (fst (GetClusterQuotasFor n m)) = {q. (q, n) \<in> mapped m}"
    using mapped_slices(2) [OF assms] by simp
qed

lemma listened_remove:
  assumes "listened m" "orders ord"
  shows "listened (removeQuota ord k m)" "listened (removeNamespace ord k m)"
proof -
  have inv: "mapper_inv m" using assms(1) by (simp add: listened_def)
  have eq: "{n. k \<in> set_at (namespaceToQuota m) n} = {n. (k, n) \<in> mapped m}" "{q. k \<in> set_at (quotaToNamespaces m) q} = {q. (q, k) \<in> mapped m}"
    by (simp_all add: mapper_invD(2) [OF inv] mapped_iff)
  have o: "distinct (ord {n. (k, n) \<in> mapped m})" "set (ord {n. (k, n) \<in> mapped m}) = {n. (k, n) \<in> mapped m}"
    "distinct (ord {q. (q, k) \<in> mapped m})" "set (ord {q. (q, k) \<in> mapped m}) = {q. (q, k) \<in> mapped m}"
    using orders_D [OF assms(2)] mapped_slices [OF inv] by blast+
  have "fold after_change (map (RemovedMapping k) (ord {n. k \<in> set_at (namespaceToQuota m) n})) (mapped m) =
      mapped m - Pair k ` {n. (k, n) \<in> mapped m} \<and>
    real_changes (map (RemovedMapping k) (ord {n. k \<in> set_at (namespaceToQuota m) n})) (mapped m)"
    using removals [OF o(1), of "Pair k" "mapped m" "RemovedMapping k"] unfolding o(2) eq by (simp add: inj_def)
  then show "listened (removeQuota ord k m)"
    using assms(1) mapper_inv_remove(1) [OF inv] unfolding listened_def mapped_ops
    by (auto simp: removeQuota_def real_changes_append)
  have "fold after_change (map (\<lambda>q. RemovedMapping q k) (ord {q. k \<in> set_at (quotaToNamespaces m) q})) (mapped m) =
      mapped m - (\<lambda>q. (q, k)) ` {q. (q, k) \<in> mapped m} \<and>
    real_changes (map (\<lambda>q. RemovedMapping q k) (ord {q. k \<in> set_at (quotaToNamespaces m) q})) (mapped m)"
    using removals [OF o(3), of "\<lambda>q. (q, k)" "mapped m" "\<lambda>q. RemovedMapping q k"] unfolding o(4) eq by (simp add: inj_def)
  then show "listened (removeNamespace ord k m)"
    using assms(1) mapper_inv_remove(2) [OF inv] unfolding listened_def mapped_ops
    by (auto simp: removeNamespace_def real_changes_append)
qed

lemma listened_step: "listened m \<Longrightarrow> orders ord \<Longrightarrow> listened (mapper_step ord a m)"
proof (induction ord a m rule: mapper_step.induct)
  case (1 ord q m)
  obtain b m' where m': "requireQuota q m = (b, m')" by fastforce
  then have "notified m' = notified m" by (auto simp: requireQuota_def split: if_splits)
  then show ?case using qm.require_quota [OF m'] 1(1) m' by (simp add: listened_def)
next
  case (4 ord n m)
  obtain b m' where m': "requireNamespace n m = (b, m')" by fastforce
  then have "notified m' = notified m" by (auto simp: requireNamespace_def split: if_splits)
  then show ?case using qm.require_namespace [OF m'] 4(1) m' by (simp add: listened_def)
next
  case (7 ord q n r m)
  show ?case
  proof (cases "requiredQuotaToSelector m (cq_Name q) = Some (cq_Selector q) \<and> requiredNamespaceToLabels m (ns_Name n) = Some (GetSelectionFields n)")
    case True
    then have "mapper_inv (map_pair (cq_Name q) (ns_Name n) m)" "mapper_inv (unmap_pair (cq_Name q) (ns_Name n) m)"
      using 7 mapper_inv_pair [of m "cq_Name q" "ns_Name n"] by (auto simp: listened_def)
    then show ?thesis using listened_pair 7(1) True by (simp add: setMapping_def selectorMatches_def selectionFieldsMatch_def)
  qed (use 7(1) qm.set_refused [of m q n r] in simp)
qed (simp_all add: listened_remove, simp_all add: listened_def, simp_all add: completeQuota_def completeNamespace_def)

lemma listened_run: "orders ord \<Longrightarrow> listened m \<Longrightarrow> listened (fold (mapper_step ord) ops m)"
  by (induction ops arbitrary: m) (auto intro: listened_step)

lemma listened_New: "listened NewClusterQuotaMapper"
  by (simp add: listened_def mapper_inv_def NewClusterQuotaMapper_def mapped_def)

text \<open>C14: The listeners know the mapping. After any sequence of operations of the mapper, whatever the order in which
  Go ranges over its maps: a listener that follows the changes it was told knows exactly the pairs of the mapping,
  each notification was of a real change, and both lookups return it: a namespace is listed for a quota if and
  only if the quota is listed for the namespace, in ascending order.\<close>

theorem listeners_know_mapping:
  assumes "orders ord" and "m = fold (mapper_step ord) ops NewClusterQuotaMapper"
  shows "real_changes (notified m) {} \<and>
    set (fst (GetNamespacesFor q m)) = {n. (q, n) \<in> fold after_change (notified m) {}} \<and>
    set (fst (GetClusterQuotasFor n m)) = {q. (q, n) \<in> fold after_change (notified m) {}} \<and>
    sorted_wrt (<) (fst (GetNamespacesFor q m)) \<and> sorted_wrt (<) (fst (GetClusterQuotasFor n m))"
proof -
  have l: "mapper_inv m" "fold after_change (notified m) {} = mapped m" "real_changes (notified m) {}"
    using listened_run [OF assms(1) listened_New, of ops] unfolding assms(2) listened_def by blast+
  show ?thesis using l(2,3) lookups_mapped [OF l(1)] mapped_slices [OF l(1)] by simp
qed

text \<open>A quota that selects two namespaces, one of which is deleted again.\<close>

definition ex_selected :: "string \<Rightarrow> namespace" where
  "ex_selected name = \<lparr>ns_Name = name, ns_ResourceVersion = 1, ns_Labels = Map.empty, ns_Annotations = [''team'' \<mapsto> ''x''],
     ns_ManagedFields = [], ns_Phase = NsActive\<rparr>"

definition ex_ops :: "mapper_op list" where
  "ex_ops = [RequireQuota ex_quota, RequireNamespace (ex_selected ''a''), RequireNamespace (ex_selected ''b''),
     SetMapping ex_quota (ex_selected ''a'') False, SetMapping ex_quota (ex_selected ''b'') False, RemoveNamespace ''b'']"

lemma ex_selected_fields [simp]:
  "ns_Name (ex_selected k) = k" "GetSelectionFields (ex_selected k) = \<lparr>sf_Labels = Map.empty, sf_Annotations = [''team'' \<mapsto> ''x'']\<rparr>"
  by (simp_all add: ex_selected_def GetSelectionFields_def)

lemma orders_sorted: "orders sorted_list_of_set"
  by (simp add: orders_def)

lemma ex_ops_notified:
  "notified (fold (mapper_step sorted_list_of_set) ex_ops NewClusterQuotaMapper) =
     [AddedMapping ''q'' ''a'', AddedMapping ''q'' ''b'', RemovedMapping ''q'' ''b'']"
proof -
  have "{q. q = ''q''} = {''q''}" by simp
  then show ?thesis
    by (simp add: ex_ops_def mapper_defs NewClusterQuotaMapper_def Let_def)
qed

theorem listeners_know_mapping_witness:
  "orders sorted_list_of_set \<and>
   set (fst (GetNamespacesFor ''q'' (fold (mapper_step sorted_list_of_set) ex_ops NewClusterQuotaMapper))) = {''a''} \<and>
   set (fst (GetClusterQuotasFor ''b'' (fold (mapper_step sorted_list_of_set) ex_ops NewClusterQuotaMapper))) = {}"
  using listeners_know_mapping [OF orders_sorted refl, of ex_ops "''q''" "''b''"] orders_sorted
  by (simp add: ex_ops_notified)

end
