(* ===== verification/Quota_Mapping.thy ===== *)
theory Quota_Mapping
  imports Quota_Mapper Worker
begin

text \<open>
  The controller that keeps the mapping between cluster quotas and namespaces:
  \<open>vendor/github.com/openshift/library-go/pkg/quota/clusterquotamapping/clusterquotamapping.go\<close>, started by
  \<open>RunClusterQuotaReconciliationController\<close>. Two informers and two queues feed workers that scan the namespaces for a
  quota, or the quotas for a namespace.
\<close>

section \<open>Scanning\<close>

datatype mapping_error = BadSelector | ListFailed api_error

text \<open>How a visit of one object in a scan ends: go on, stop the scan, or visit a newer copy.\<close>

datatype 'a visit = Next | Stop | Again 'a

text \<open>The body of the loop of \<open>syncQuota\<close> for one namespace. The matcher has no errors.\<close>

definition quota_visit :: "(selection_fields \<Rightarrow> bool) \<Rightarrow> (string \<Rightarrow> api_error + namespace) \<Rightarrow> cluster_quota \<Rightarrow> namespace \<Rightarrow>
    mapper \<Rightarrow> namespace visit \<times> mapper" where
  "quota_visit matcher nsGet quota obj m =
     (case setMapping quota obj (\<not> matcher (GetSelectionFields obj)) m of ((success, quotaMatches, _), m') \<Rightarrow>
        (if success then Next
         else if \<not> quotaMatches then Stop
         else (case nsGet (ns_Name obj) of Inl _ \<Rightarrow> Next | Inr newer \<Rightarrow> Again newer), m'))"

text \<open>The body of the loop of \<open>syncNamespace\<close> for one quota.\<close>

definition namespace_visit :: "(string \<Rightarrow> string list \<Rightarrow> bool) \<Rightarrow> (string \<Rightarrow> api_error + cluster_quota) \<Rightarrow> namespace \<Rightarrow> cluster_quota \<Rightarrow>
    mapper \<Rightarrow> cluster_quota visit \<times> mapper" where
  "namespace_visit valid quotaGet namespace quota m =
     (case GetObjectMatcher valid (cq_Selector quota) of
        None \<Rightarrow> (Next, m)
      | Some matcher \<Rightarrow>
          (case setMapping quota namespace (\<not> matcher (GetSelectionFields namespace)) m of ((success, _, namespaceMatches), m') \<Rightarrow>
             (if success then Next
              else if \<not> namespaceMatches then Stop
              else (case quotaGet (cq_Name quota) of Inl _ \<Rightarrow> Next | Inr newer \<Rightarrow> Again newer), m')))"

text \<open>What is left to visit, \<open>None\<close> when the scan stops.\<close>

fun after_visit :: "'a visit \<Rightarrow> 'a list \<Rightarrow> 'a list option" where
  "after_visit Next rest = Some rest"
| "after_visit Stop rest = None"
| "after_visit (Again x) rest = Some (x # rest)"

text \<open>
  The loop over all objects, with whether it came to the end. An object whose newer copies are never the required
  one is visited for ever.
\<close>

partial_function (option) scan_loop :: "('a \<Rightarrow> mapper \<Rightarrow> 'a visit \<times> mapper) \<Rightarrow> 'a list \<Rightarrow> mapper \<Rightarrow> (bool \<times> mapper) option" where
  "scan_loop visit todo m =
     (case todo of
        [] \<Rightarrow> Some (True, m)
      | x # rest \<Rightarrow>
          (case visit x m of (r, m') \<Rightarrow>
             case after_visit r rest of
               None \<Rightarrow> Some (False, m')
             | Some todo' \<Rightarrow> scan_loop visit todo' m'))"

declare scan_loop.simps [code]

definition syncQuota :: "(string \<Rightarrow> string list \<Rightarrow> bool) \<Rightarrow> api_error + namespace list \<Rightarrow> (string \<Rightarrow> api_error + namespace) \<Rightarrow>
    cluster_quota \<Rightarrow> mapper \<Rightarrow> (mapping_error option \<times> mapper) option" where
  "syncQuota valid nsList nsGet quota m =
     (case GetObjectMatcher valid (cq_Selector quota) of
        None \<Rightarrow> Some (Some BadSelector, m)
      | Some matcherFunc \<Rightarrow>
          (case nsList of
             Inl err \<Rightarrow> Some (Some (ListFailed err), m)
           | Inr results \<Rightarrow>
               map_option (\<lambda>(_, m'). (None, completeQuota quota m')) (scan_loop (quota_visit matcherFunc nsGet quota) results m)))"

definition syncNamespace_mapping :: "(string \<Rightarrow> string list \<Rightarrow> bool) \<Rightarrow> api_error + cluster_quota list \<Rightarrow>
    (string \<Rightarrow> api_error + cluster_quota) \<Rightarrow> namespace \<Rightarrow> mapper \<Rightarrow> (mapping_error option \<times> mapper) option" where
  "syncNamespace_mapping valid quotaList quotaGet namespace m =
     (case quotaList of
        Inl err \<Rightarrow> Some (Some (ListFailed err), m)
      | Inr allQuotas \<Rightarrow>
          map_option (\<lambda>(complete, m'). (None, if complete then completeNamespace namespace m' else m'))
            (scan_loop (namespace_visit valid quotaGet namespace) allQuotas m))"

section \<open>Workers and event handlers\<close>

text \<open>The end of \<open>quotaWork\<close> and \<open>namespaceWork\<close>: a key is retried a few times and then given up.\<close>

definition finish_mapping :: "string \<Rightarrow> mapping_error option \<Rightarrow> rl_queue \<Rightarrow> rl_queue" where
  "finish_mapping key err q =
     rl_Done key (let outOfRetries = rl_failures q key > 5
       in if err \<noteq> None \<and> outOfRetries then Forget key q
          else if err \<noteq> None \<and> \<not> outOfRetries then AddRateLimited key q
          else Forget key q)"

text \<open>The lister's \<open>Get\<close>, and the sync of the object. No result while the queue blocks or the scan does not end.\<close>

definition mapping_work :: "(string \<Rightarrow> api_error + 'a) \<Rightarrow> ('a \<Rightarrow> mapper \<Rightarrow> (mapping_error option \<times> mapper) option) \<Rightarrow>
    rl_queue \<times> mapper \<Rightarrow> (bool \<times> rl_queue \<times> mapper) option" where
  "mapping_work get sync s =
     (case s of (q, m) \<Rightarrow>
      case rl_Get q of
        None \<Rightarrow> None
      | Some (None, q') \<Rightarrow> Some (True, q', m)
      | Some (Some key, q') \<Rightarrow>
          (case get key of
             Inl NotFound \<Rightarrow> Some (False, rl_Done key (Forget key q'), m)
           | Inl _ \<Rightarrow> Some (False, rl_Done key q', m)
           | Inr obj \<Rightarrow> map_option (\<lambda>(err, m'). (False, finish_mapping key err q', m')) (sync obj m)))"

definition quotaWork :: "(string \<Rightarrow> string list \<Rightarrow> bool) \<Rightarrow> (string \<Rightarrow> api_error + cluster_quota) \<Rightarrow> api_error + namespace list \<Rightarrow>
    (string \<Rightarrow> api_error + namespace) \<Rightarrow> rl_queue \<times> mapper \<Rightarrow> (bool \<times> rl_queue \<times> mapper) option" where
  "quotaWork valid quotaGet nsList nsGet = mapping_work quotaGet (syncQuota valid nsList nsGet)"

definition namespaceWork :: "(string \<Rightarrow> string list \<Rightarrow> bool) \<Rightarrow> (string \<Rightarrow> api_error + namespace) \<Rightarrow> api_error + cluster_quota list \<Rightarrow>
    (string \<Rightarrow> api_error + cluster_quota) \<Rightarrow> rl_queue \<times> mapper \<Rightarrow> (bool \<times> rl_queue \<times> mapper) option" where
  "namespaceWork valid nsGet quotaList quotaGet = mapping_work nsGet (syncNamespace_mapping valid quotaList quotaGet)"

text \<open>What an informer hands to a handler: an object, a tombstone with or without an object of the kind, or anything else.\<close>

datatype 'a handed_obj = TheObj 'a | Tomb "'a option" | NoObj

definition enqueueQuota :: "cluster_quota handed_obj \<Rightarrow> rl_queue \<times> mapper \<Rightarrow> rl_queue \<times> mapper" where
  "enqueueQuota obj s =
     (case obj of
        TheObj quota \<Rightarrow>
          (case requireQuota quota (snd s) of (changed, m') \<Rightarrow>
             (if \<not> changed then fst s else (fst s)\<lparr>rl_queue := wq_Add (cq_Name quota) (rl_queue (fst s))\<rparr>, m'))
      | _ \<Rightarrow> s)"

definition enqueueNamespace_mapping :: "namespace handed_obj \<Rightarrow> rl_queue \<times> mapper \<Rightarrow> rl_queue \<times> mapper" where
  "enqueueNamespace_mapping obj s =
     (case obj of
        TheObj ns \<Rightarrow>
          (case requireNamespace ns (snd s) of (changed, m') \<Rightarrow>
             (if \<not> changed then fst s else (fst s)\<lparr>rl_queue := wq_Add (ns_Name ns) (rl_queue (fst s))\<rparr>, m'))
      | _ \<Rightarrow> s)"

definition deleteQuota :: "(string set \<Rightarrow> string list) \<Rightarrow> cluster_quota handed_obj \<Rightarrow> mapper \<Rightarrow> mapper" where
  "deleteQuota ord obj m =
     (case obj of
        TheObj quota \<Rightarrow> removeQuota ord (cq_Name quota) m
      | Tomb (Some quota) \<Rightarrow> removeQuota ord (cq_Name quota) m
      | _ \<Rightarrow> m)"

definition deleteNamespace :: "(string set \<Rightarrow> string list) \<Rightarrow> namespace handed_obj \<Rightarrow> mapper \<Rightarrow> mapper" where
  "deleteNamespace ord obj m =
     (case obj of
        TheObj ns \<Rightarrow> removeNamespace ord (ns_Name ns) m
      | Tomb (Some ns) \<Rightarrow> removeNamespace ord (ns_Name ns) m
      | _ \<Rightarrow> m)"

section \<open>A scan ends\<close>

text \<open>
  When the newer copy of every object is the required one, no object is visited more than twice, and the loop
  returns.
\<close>

lemma scan_loop_returns:
  assumes "\<And>x m. P m \<Longrightarrow> x \<in> A \<Longrightarrow> P (snd (visit x m))"
    and "\<And>x y m. P m \<Longrightarrow> x \<in> A \<Longrightarrow> fst (visit x m) = Again y \<Longrightarrow> y \<in> A \<and> (\<forall>m'. P m' \<longrightarrow> (\<forall>z. fst (visit y m') \<noteq> Again z))"
    and "P m" "set todo \<subseteq> A"
  shows "\<exists>r. scan_loop visit todo m = Some r"
  using assms(3,4)
proof (induction todo arbitrary: m)
  case Nil
  show ?case by (subst scan_loop.simps) auto
next
  case (Cons x rest)
  have once: "\<exists>r. scan_loop visit (y # rest) m1 = Some r" if "P m1" "y \<in> A" "\<forall>z. fst (visit y m1) \<noteq> Again z" for y m1
  proof -
    obtain r m2 where v: "visit y m1 = (r, m2)" by fastforce
    moreover have "P m2" using assms(1) [OF that(1,2)] v by simp
    ultimately show ?thesis using that(3) Cons.IH [of m2] Cons.prems(2)
      by (subst scan_loop.simps) (cases r, auto)
  qed
  obtain r m1 where v: "visit x m = (r, m1)" by fastforce
  have p: "P m1" using assms(1) [of m x] Cons.prems v by simp
  show ?case
  proof (cases "\<exists>y. r = Again y")
    case True
    then obtain y where y: "r = Again y" by blast
    then have "y \<in> A" "\<forall>z. fst (visit y m1) \<noteq> Again z" using assms(2) [of m x y] Cons.prems v p by auto
    then have "\<exists>r. scan_loop visit (y # rest) m1 = Some r" using once p by blast
    then show ?thesis using v y by (subst scan_loop.simps) simp
  next
    case False
    then show ?thesis using once [of m x] Cons.prems v by simp
  qed
qed

text \<open>So \<open>syncQuota\<close> returns when the lister has what the mapper requires.\<close>

lemma setMapping_req:
  assumes "setMapping q n r m = (x, m')"
  shows "requiredQuotaToSelector m' = requiredQuotaToSelector m" "requiredNamespaceToLabels m' = requiredNamespaceToLabels m"
  using qm.set_req [of q n r m] assms by simp_all

lemma visit_req:
  "requiredNamespaceToLabels (snd (quota_visit matcher get q n m)) = requiredNamespaceToLabels m"
  "requiredQuotaToSelector (snd (quota_visit matcher get q n m)) = requiredQuotaToSelector m"
  "requiredNamespaceToLabels (snd (namespace_visit valid get' n q m)) = requiredNamespaceToLabels m"
  "requiredQuotaToSelector (snd (namespace_visit valid get' n q m)) = requiredQuotaToSelector m"
  by (simp_all add: quota_visit_def namespace_visit_def setMapping_req split: prod.split option.split)

lemma syncQuota_returns:
  assumes "\<And>k n. nsGet k = Inr n \<Longrightarrow> ns_Name n = k \<and> requiredNamespaceToLabels m k = Some (GetSelectionFields n)"
  shows "\<exists>r. syncQuota valid nsList nsGet quota m = Some r"
proof -
  have "\<exists>r. scan_loop (quota_visit matcher nsGet quota) nss m = Some r" for matcher nss
  proof (rule scan_loop_returns [where A = UNIV and P = "\<lambda>m'. requiredNamespaceToLabels m' = requiredNamespaceToLabels m"])
    fix x y m1
    assume "fst (quota_visit matcher nsGet quota x m1) = Again y"
    then have "nsGet (ns_Name x) = Inr y" by (auto simp: quota_visit_def split: prod.splits if_splits sum.splits)
    then have y: "requiredNamespaceToLabels m (ns_Name y) = Some (GetSelectionFields y)" using assms [of "ns_Name x" y] by simp
    have "fst (quota_visit matcher nsGet quota y m2) \<noteq> Again z" if "requiredNamespaceToLabels m2 = requiredNamespaceToLabels m" for m2 z
      using y that by (auto simp: quota_visit_def setMapping_def selectionFieldsMatch_def Let_def split: prod.splits if_splits)
    then show "y \<in> UNIV \<and> (\<forall>m'. requiredNamespaceToLabels m' = requiredNamespaceToLabels m \<longrightarrow>
        (\<forall>z. fst (quota_visit matcher nsGet quota y m') \<noteq> Again z))" by blast
  qed (simp_all add: visit_req)
  then show ?thesis by (auto simp: syncQuota_def split: option.split sum.split)
qed

lemma syncNamespace_returns:
  assumes "\<And>k q. quotaGet k = Inr q \<Longrightarrow> cq_Name q = k \<and> requiredQuotaToSelector m k = Some (cq_Selector q)"
  shows "\<exists>r. syncNamespace_mapping valid quotaList quotaGet namespace m = Some r"
proof -
  have "\<exists>r. scan_loop (namespace_visit valid quotaGet namespace) quotas m = Some r" for quotas
  proof (rule scan_loop_returns [where A = UNIV and P = "\<lambda>m'. requiredQuotaToSelector m' = requiredQuotaToSelector m"])
    fix x y m1
    assume "fst (namespace_visit valid quotaGet namespace x m1) = Again y"
    then have "quotaGet (cq_Name x) = Inr y"
      by (auto simp: namespace_visit_def split: prod.splits if_splits sum.splits option.splits)
    then have y: "requiredQuotaToSelector m (cq_Name y) = Some (cq_Selector y)" using assms [of "cq_Name x" y] by simp
    have "fst (namespace_visit valid quotaGet namespace y m2) \<noteq> Again z" if "requiredQuotaToSelector m2 = requiredQuotaToSelector m" for m2 z
      using y that by (auto simp: namespace_visit_def setMapping_def selectorMatches_def Let_def split: prod.splits if_splits option.splits)
    then show "y \<in> UNIV \<and> (\<forall>m'. requiredQuotaToSelector m' = requiredQuotaToSelector m \<longrightarrow>
        (\<forall>z. fst (namespace_visit valid quotaGet namespace y m') \<noteq> Again z))" by blast
  qed (simp_all add: visit_req)
  then show ?thesis by (auto simp: syncNamespace_mapping_def split: sum.split)
qed

text \<open>
  A scan that is given up because the quota has changed or is gone is recorded as completed all the same: until the
  next scan, the lookups return the outdated selector, also for a deleted quota.
\<close>

lemma stopped_scan_completes:
  assumes "GetObjectMatcher valid (cq_Selector quota) = Some matcher" "requiredQuotaToSelector m (cq_Name quota) \<noteq> Some (cq_Selector quota)"
    and "nss \<noteq> []"
  shows "syncQuota valid (Inr nss) nsGet quota m = Some (None, completeQuota quota m)"
proof -
  obtain x rest where x: "nss = x # rest" using assms(3) by (cases nss) auto
  have "quota_visit matcher nsGet quota x m = (Stop, m)"
    using qm.set_refused [of m quota x "\<not> matcher (GetSelectionFields x)"] assms(2) by (simp add: quota_visit_def)
  then show ?thesis using assms(1) x by (simp add: syncQuota_def scan_loop.simps)
qed

end
