(* ===== verification/Quota_Mapping_Run.thy ===== *)
theory Quota_Mapping_Run
  imports Quota_Mapping
begin

text \<open>
  The mapping controller as a whole: the event handlers of both informers, both queues, and workers that interleave
  between any two objects they visit; and what scans are still ahead for a pair of a quota and a namespace.
\<close>

section \<open>The controller at work\<close>

text \<open>
  Where a worker on a key is: it has the key, has read the object, is scanning with the objects left to visit, or
  is done up to the queue.
\<close>

datatype ('k, 'o) scan_phase = Resting | Taken | ReadObj 'k | Scanning 'k "'o list" | Ending "mapping_error option"

record mapping_state =
  ms_quotas :: "string \<rightharpoonup> cluster_quota"
  ms_namespaces :: "string \<rightharpoonup> namespace"
  ms_mapper :: mapper
  ms_quotaQueue :: rl_queue
  ms_nsQueue :: rl_queue
  ms_quotaWork :: "string \<Rightarrow> (cluster_quota, namespace) scan_phase"
  ms_nsWork :: "string \<Rightarrow> (namespace, cluster_quota) scan_phase"

definition lister_get :: "(string \<rightharpoonup> 'a) \<Rightarrow> string \<Rightarrow> api_error + 'a" where
  "lister_get store k = (case store k of None \<Rightarrow> Inl NotFound | Some x \<Rightarrow> Inr x)"

text \<open>The informers' caches change together with the handlers they call; a lister lists in any order.\<close>

inductive mapping_step :: "(string \<Rightarrow> string list \<Rightarrow> bool) \<Rightarrow> (string set \<Rightarrow> string list) \<Rightarrow> mapping_state \<Rightarrow> mapping_state \<Rightarrow> bool"
  for valid ord where
  quota_set: "enqueueQuota (TheObj quota) (ms_quotaQueue s, ms_mapper s) = (q', m') \<Longrightarrow>
    mapping_step valid ord s (s\<lparr>ms_quotas := (ms_quotas s)(cq_Name quota \<mapsto> quota), ms_quotaQueue := q', ms_mapper := m'\<rparr>)"
| quota_deleted: "obj \<in> {TheObj quota, Tomb (Some quota)} \<Longrightarrow>
    mapping_step valid ord s
      (s\<lparr>ms_quotas := (ms_quotas s)(cq_Name quota := None), ms_mapper := deleteQuota ord obj (ms_mapper s)\<rparr>)"
| ns_set: "enqueueNamespace_mapping (TheObj ns) (ms_nsQueue s, ms_mapper s) = (q', m') \<Longrightarrow>
    mapping_step valid ord s (s\<lparr>ms_namespaces := (ms_namespaces s)(ns_Name ns \<mapsto> ns), ms_nsQueue := q', ms_mapper := m'\<rparr>)"
| ns_deleted: "nobj \<in> {TheObj ns, Tomb (Some ns)} \<Longrightarrow>
    mapping_step valid ord s
      (s\<lparr>ms_namespaces := (ms_namespaces s)(ns_Name ns := None), ms_mapper := deleteNamespace ord nobj (ms_mapper s)\<rparr>)"
| quota_got: "rl_Get (ms_quotaQueue s) = Some (Some k, q') \<Longrightarrow>
    mapping_step valid ord s (s\<lparr>ms_quotaQueue := q', ms_quotaWork := (ms_quotaWork s)(k := Taken)\<rparr>)"
| quota_read: "ms_quotaWork s k = Taken \<Longrightarrow> ms_quotas s k = Some quota \<Longrightarrow>
    mapping_step valid ord s (s\<lparr>ms_quotaWork := (ms_quotaWork s)(k := ReadObj quota)\<rparr>)"
| quota_gone: "ms_quotaWork s k = Taken \<Longrightarrow> ms_quotas s k = None \<Longrightarrow>
    mapping_step valid ord s
      (s\<lparr>ms_quotaQueue := rl_Done k (Forget k (ms_quotaQueue s)), ms_quotaWork := (ms_quotaWork s)(k := Resting)\<rparr>)"
| quota_bad: "ms_quotaWork s k = ReadObj quota \<Longrightarrow> GetObjectMatcher valid (cq_Selector quota) = None \<Longrightarrow>
    mapping_step valid ord s (s\<lparr>ms_quotaWork := (ms_quotaWork s)(k := Ending (Some BadSelector))\<rparr>)"
| quota_listed: "ms_quotaWork s k = ReadObj quota \<Longrightarrow> GetObjectMatcher valid (cq_Selector quota) = Some matcher \<Longrightarrow>
    set nss = ran (ms_namespaces s) \<Longrightarrow>
    mapping_step valid ord s (s\<lparr>ms_quotaWork := (ms_quotaWork s)(k := Scanning quota nss)\<rparr>)"
| quota_visits: "ms_quotaWork s k = Scanning quota (ns # nss) \<Longrightarrow> GetObjectMatcher valid (cq_Selector quota) = Some matcher \<Longrightarrow>
    quota_visit matcher (lister_get (ms_namespaces s)) quota ns (ms_mapper s) = (r, m') \<Longrightarrow>
    mapping_step valid ord s (s\<lparr>ms_mapper := m', ms_quotaWork := (ms_quotaWork s)
      (k := Scanning quota (case after_visit r nss of None \<Rightarrow> [] | Some todo \<Rightarrow> todo))\<rparr>)"
| quota_completes: "ms_quotaWork s k = Scanning quota [] \<Longrightarrow>
    mapping_step valid ord s
      (s\<lparr>ms_mapper := completeQuota quota (ms_mapper s), ms_quotaWork := (ms_quotaWork s)(k := Ending None)\<rparr>)"
| quota_ends: "ms_quotaWork s k = Ending err \<Longrightarrow>
    mapping_step valid ord s
      (s\<lparr>ms_quotaQueue := finish_mapping k err (ms_quotaQueue s), ms_quotaWork := (ms_quotaWork s)(k := Resting)\<rparr>)"
| quota_fires: "rl_waiting (ms_quotaQueue s) = xs @ k # ys \<Longrightarrow>
    mapping_step valid ord s
      (s\<lparr>ms_quotaQueue := (ms_quotaQueue s)\<lparr>rl_waiting := xs @ ys, rl_queue := wq_Add k (rl_queue (ms_quotaQueue s))\<rparr>\<rparr>)"
| ns_got: "rl_Get (ms_nsQueue s) = Some (Some k, q') \<Longrightarrow>
    mapping_step valid ord s (s\<lparr>ms_nsQueue := q', ms_nsWork := (ms_nsWork s)(k := Taken)\<rparr>)"
| ns_read: "ms_nsWork s k = Taken \<Longrightarrow> ms_namespaces s k = Some ns \<Longrightarrow>
    mapping_step valid ord s (s\<lparr>ms_nsWork := (ms_nsWork s)(k := ReadObj ns)\<rparr>)"
| ns_gone: "ms_nsWork s k = Taken \<Longrightarrow> ms_namespaces s k = None \<Longrightarrow>
    mapping_step valid ord s
      (s\<lparr>ms_nsQueue := rl_Done k (Forget k (ms_nsQueue s)), ms_nsWork := (ms_nsWork s)(k := Resting)\<rparr>)"
| ns_listed: "ms_nsWork s k = ReadObj ns \<Longrightarrow> set quotas = ran (ms_quotas s) \<Longrightarrow>
    mapping_step valid ord s (s\<lparr>ms_nsWork := (ms_nsWork s)(k := Scanning ns quotas)\<rparr>)"
| ns_visits: "ms_nsWork s k = Scanning ns (quota # quotas) \<Longrightarrow>
    namespace_visit valid (lister_get (ms_quotas s)) ns quota (ms_mapper s) = (nr, m') \<Longrightarrow>
    mapping_step valid ord s (s\<lparr>ms_mapper := m', ms_nsWork := (ms_nsWork s)
      (k := (case after_visit nr quotas of None \<Rightarrow> Ending None | Some todo \<Rightarrow> Scanning ns todo))\<rparr>)"
| ns_completes: "ms_nsWork s k = Scanning ns [] \<Longrightarrow>
    mapping_step valid ord s
      (s\<lparr>ms_mapper := completeNamespace ns (ms_mapper s), ms_nsWork := (ms_nsWork s)(k := Ending None)\<rparr>)"
| ns_ends: "ms_nsWork s k = Ending err \<Longrightarrow>
    mapping_step valid ord s
      (s\<lparr>ms_nsQueue := finish_mapping k err (ms_nsQueue s), ms_nsWork := (ms_nsWork s)(k := Resting)\<rparr>)"
| ns_fires: "rl_waiting (ms_nsQueue s) = xs @ k # ys \<Longrightarrow>
    mapping_step valid ord s
      (s\<lparr>ms_nsQueue := (ms_nsQueue s)\<lparr>rl_waiting := xs @ ys, rl_queue := wq_Add k (rl_queue (ms_nsQueue s))\<rparr>\<rparr>)"

definition mapping_start :: mapping_state where
  "mapping_start = \<lparr>ms_quotas = Map.empty, ms_namespaces = Map.empty, ms_mapper = NewClusterQuotaMapper,
     ms_quotaQueue = rl_New, ms_nsQueue = rl_New, ms_quotaWork = (\<lambda>_. Resting), ms_nsWork = (\<lambda>_. Resting)\<rparr>"

section \<open>What is still to be scanned\<close>

text \<open>A key whose present object will still be scanned, with an object among those left to visit.\<close>

definition awaits :: "string set \<Rightarrow> string \<Rightarrow> ('k, 'o) scan_phase \<Rightarrow> ('k \<Rightarrow> bool) \<Rightarrow> ('o list \<Rightarrow> bool) \<Rightarrow> bool" where
  "awaits dirty k ph current includes \<longleftrightarrow> k \<in> dirty \<or>
     (case ph of Taken \<Rightarrow> True | ReadObj x \<Rightarrow> current x | Scanning x todo \<Rightarrow> current x \<and> includes todo | _ \<Rightarrow> False)"

text \<open>A namespace's worker skips a quota whose selector is bad in the copy it has.\<close>

fun usable :: "(string \<Rightarrow> string list \<Rightarrow> bool) \<Rightarrow> string \<Rightarrow> cluster_quota list \<Rightarrow> bool" where
  "usable valid q [] \<longleftrightarrow> False"
| "usable valid q (x # todo) \<longleftrightarrow> cq_Name x = q \<and> GetObjectMatcher valid (cq_Selector x) \<noteq> None \<or> usable valid q todo"

lemma usable_iff: "usable valid q todo \<longleftrightarrow> (\<exists>x \<in> set todo. cq_Name x = q \<and> GetObjectMatcher valid (cq_Selector x) \<noteq> None)"
  by (induction todo) auto

text \<open>Every pair is right, or a scan that will set it right is ahead. Quotas with a bad selector are never mapped.\<close>

definition pairs_ok :: "(string \<Rightarrow> string list \<Rightarrow> bool) \<Rightarrow> (string \<times> string) set \<Rightarrow>
    (string \<rightharpoonup> quota_selector) \<Rightarrow> (string \<rightharpoonup> selection_fields) \<Rightarrow>
    string set \<Rightarrow> (string \<Rightarrow> (cluster_quota, namespace) scan_phase) \<Rightarrow>
    string set \<Rightarrow> (string \<Rightarrow> (namespace, cluster_quota) scan_phase) \<Rightarrow> bool" where
  "pairs_ok valid M RQ RN DQ PQ DN PN \<longleftrightarrow> (\<forall>q n sel f matcher.
     RQ q = Some sel \<and> RN n = Some f \<and> GetObjectMatcher valid sel = Some matcher \<longrightarrow>
       ((q, n) \<in> M \<longleftrightarrow> matcher f) \<or>
       awaits DQ q (PQ q) (\<lambda>x. cq_Selector x = sel) (\<lambda>todo. n \<in> ns_Name ` set todo) \<or>
       awaits DN n (PN n) (\<lambda>x. GetSelectionFields x = f) (usable valid q))"

text \<open>A worker with an outdated quota has its key waiting again; a quota that waits for no scan is completed.\<close>

definition quotas_ok :: "(string \<Rightarrow> string list \<Rightarrow> bool) \<Rightarrow> (string \<rightharpoonup> quota_selector) \<Rightarrow> (string \<rightharpoonup> quota_selector) \<Rightarrow>
    string set \<Rightarrow> (string \<Rightarrow> (cluster_quota, namespace) scan_phase) \<Rightarrow> bool" where
  "quotas_ok valid RQ CQ DQ PQ \<longleftrightarrow> (\<forall>q sel. RQ q = Some sel \<longrightarrow>
     (\<forall>x todo. (PQ q = ReadObj x \<or> PQ q = Scanning x todo) \<and> cq_Selector x \<noteq> sel \<longrightarrow> q \<in> DQ) \<and>
     (GetObjectMatcher valid sel \<noteq> None \<longrightarrow>
        CQ q = Some sel \<or> awaits DQ q (PQ q) (\<lambda>x. cq_Selector x = sel) (\<lambda>_. True)))"

subsection \<open>What the steps do to it\<close>

lemma awaits_dirty_resting: "awaits D k Resting c i \<longleftrightarrow> k \<in> D"
  by (simp add: awaits_def)

lemma pairs_okD:
  assumes "pairs_ok valid M RQ RN DQ PQ DN PN" "RQ q = Some sel" "RN n = Some f" "GetObjectMatcher valid sel = Some matcher"
  shows "((q, n) \<in> M \<longleftrightarrow> matcher f) \<or>
    awaits DQ q (PQ q) (\<lambda>x. cq_Selector x = sel) (\<lambda>todo. n \<in> ns_Name ` set todo) \<or>
    awaits DN n (PN n) (\<lambda>x. GetSelectionFields x = f) (usable valid q)"
  using assms unfolding pairs_ok_def by blast

lemma pairs_ok_require_quota:
  assumes "pairs_ok valid M RQ RN DQ PQ DN PN" "DQ \<subseteq> DQ'" "RQ k = Some sel \<or> k \<in> DQ'"
  shows "pairs_ok valid M (RQ(k \<mapsto> sel)) RN DQ' PQ DN PN"
  using assms unfolding pairs_ok_def by (auto simp: awaits_def split: if_splits) blast+

lemma pairs_ok_require_namespace:
  assumes "pairs_ok valid M RQ RN DQ PQ DN PN" "DN \<subseteq> DN'" "RN k = Some f \<or> k \<in> DN'"
  shows "pairs_ok valid M RQ (RN(k \<mapsto> f)) DQ PQ DN' PN"
  using assms unfolding pairs_ok_def by (auto simp: awaits_def split: if_splits) blast+

lemma pairs_ok_remove:
  assumes "pairs_ok valid M RQ RN DQ PQ DN PN"
  shows "pairs_ok valid {p \<in> M. fst p \<noteq> k} (RQ(k := None)) RN DQ PQ DN PN"
    "pairs_ok valid {p \<in> M. snd p \<noteq> k} RQ (RN(k := None)) DQ PQ DN PN"
  using assms unfolding pairs_ok_def by auto

text \<open>A worker moves on and its key may leave the queue: nothing it still had to do for the present selector is lost.\<close>

lemma pairs_ok_quota_phase:
  assumes "pairs_ok valid M RQ RN DQ PQ DN PN" "DQ \<subseteq> insert k DQ'"
    and "\<And>sel n f matcher. RQ k = Some sel \<Longrightarrow> RN n = Some f \<Longrightarrow> GetObjectMatcher valid sel = Some matcher \<Longrightarrow>
      ((k, n) \<in> M) \<noteq> matcher f \<Longrightarrow> awaits DQ k (PQ k) (\<lambda>x. cq_Selector x = sel) (\<lambda>todo. n \<in> ns_Name ` set todo) \<Longrightarrow>
      awaits DQ' k ph (\<lambda>x. cq_Selector x = sel) (\<lambda>todo. n \<in> ns_Name ` set todo)"
  shows "pairs_ok valid M RQ RN DQ' (PQ(k := ph)) DN PN"
  unfolding pairs_ok_def
proof (intro allI impI, elim conjE)
  fix q n sel f matcher
  assume a: "RQ q = Some sel" "RN n = Some f" "GetObjectMatcher valid sel = Some matcher"
  note b = pairs_okD [OF assms(1) a]
  show "((q, n) \<in> M \<longleftrightarrow> matcher f) \<or>
       awaits DQ' q ((PQ(k := ph)) q) (\<lambda>x. cq_Selector x = sel) (\<lambda>todo. n \<in> ns_Name ` set todo) \<or>
       awaits DN n (PN n) (\<lambda>x. GetSelectionFields x = f) (usable valid q)"
  proof (cases "q = k")
    case True
    then show ?thesis using b assms(3) a by auto
  next
    case False
    then show ?thesis using b assms(2) by (auto simp: awaits_def)
  qed
qed

lemma pairs_ok_ns_phase:
  assumes "pairs_ok valid M RQ RN DQ PQ DN PN" "DN \<subseteq> insert k DN'"
    and "\<And>f q sel matcher. RN k = Some f \<Longrightarrow> RQ q = Some sel \<Longrightarrow> GetObjectMatcher valid sel = Some matcher \<Longrightarrow>
      ((q, k) \<in> M) \<noteq> matcher f \<Longrightarrow> awaits DN k (PN k) (\<lambda>x. GetSelectionFields x = f) (usable valid q) \<Longrightarrow>
      awaits DN' k ph (\<lambda>x. GetSelectionFields x = f) (usable valid q)"
  shows "pairs_ok valid M RQ RN DQ PQ DN' (PN(k := ph))"
  unfolding pairs_ok_def
proof (intro allI impI, elim conjE)
  fix q n sel f matcher
  assume a: "RQ q = Some sel" "RN n = Some f" "GetObjectMatcher valid sel = Some matcher"
  note b = pairs_okD [OF assms(1) a]
  show "((q, n) \<in> M \<longleftrightarrow> matcher f) \<or>
       awaits DQ q (PQ q) (\<lambda>x. cq_Selector x = sel) (\<lambda>todo. n \<in> ns_Name ` set todo) \<or>
       awaits DN' n ((PN(k := ph)) n) (\<lambda>x. GetSelectionFields x = f) (usable valid q)"
  proof (cases "n = k")
    case True
    then show ?thesis using b assms(3) a by auto
  next
    case False
    then show ?thesis using b assms(2) by (auto simp: awaits_def)
  qed
qed

text \<open>A pair is set as the required selector and fields want it.\<close>

lemma pairs_ok_set:
  assumes "pairs_ok valid M RQ RN DQ PQ DN PN" "RQ q = Some sel" "RN n = Some f" "GetObjectMatcher valid sel = Some matcher"
  shows "pairs_ok valid (if \<not> matcher f then M - {(q, n)} else insert (q, n) M) RQ RN DQ PQ DN PN"
  unfolding pairs_ok_def
proof (intro allI impI, elim conjE)
  fix q' n' sel' f' matcher'
  assume a: "RQ q' = Some sel'" "RN n' = Some f'" "GetObjectMatcher valid sel' = Some matcher'"
  show "((q', n') \<in> (if \<not> matcher f then M - {(q, n)} else insert (q, n) M) \<longleftrightarrow> matcher' f') \<or>
       awaits DQ q' (PQ q') (\<lambda>x. cq_Selector x = sel') (\<lambda>todo. n' \<in> ns_Name ` set todo) \<or>
       awaits DN n' (PN n') (\<lambda>x. GetSelectionFields x = f') (usable valid q')"
  proof (cases "q' = q \<and> n' = n")
    case True
    then show ?thesis using a assms(2-4) by auto
  next
    case False
    then show ?thesis using pairs_okD [OF assms(1) a] by auto
  qed
qed

text \<open>After it has been set, the scans of the quota and of the namespace need not visit it.\<close>

lemma pairs_ok_visited_quota:
  assumes "pairs_ok valid M RQ RN DQ PQ DN PN" "PQ q = Scanning x (ns # nss)"
    and "\<And>sel f matcher. RQ q = Some sel \<Longrightarrow> RN (ns_Name ns) = Some f \<Longrightarrow> GetObjectMatcher valid sel = Some matcher \<Longrightarrow>
      (q, ns_Name ns) \<in> M \<longleftrightarrow> matcher f"
  shows "pairs_ok valid M RQ RN DQ (PQ(q := Scanning x nss)) DN PN"
  by (rule pairs_ok_quota_phase [OF assms(1)]) (use assms(2,3) in \<open>auto simp: awaits_def\<close>)

lemma pairs_ok_visited_ns:
  assumes "pairs_ok valid M RQ RN DQ PQ DN PN" "PN n = Scanning x (quota # quotas)"
    and "\<And>sel f matcher. RQ (cq_Name quota) = Some sel \<Longrightarrow> RN n = Some f \<Longrightarrow> GetObjectMatcher valid sel = Some matcher \<Longrightarrow>
      (cq_Name quota, n) \<in> M \<longleftrightarrow> matcher f"
  shows "pairs_ok valid M RQ RN DQ PQ DN (PN(n := Scanning x quotas))"
  by (rule pairs_ok_ns_phase [OF assms(1)]) (use assms(2,3) in \<open>auto simp: awaits_def\<close>)

lemma quotas_ok_require:
  assumes "quotas_ok valid RQ CQ DQ PQ" "DQ \<subseteq> DQ'" "RQ k = Some sel \<or> k \<in> DQ'"
  shows "quotas_ok valid (RQ(k \<mapsto> sel)) CQ DQ' PQ"
  using assms unfolding quotas_ok_def by (auto simp: awaits_def split: if_splits) blast+

lemma quotas_ok_remove: "quotas_ok valid RQ CQ DQ PQ \<Longrightarrow> quotas_ok valid (RQ(k := None)) (CQ(k := None)) DQ PQ"
  unfolding quotas_ok_def by auto

lemma quotas_ok_phase:
  assumes "quotas_ok valid RQ CQ DQ PQ" "DQ \<subseteq> insert k DQ'" "\<And>j. j \<noteq> k \<Longrightarrow> CQ' j = CQ j"
    and "\<And>sel x todo. RQ k = Some sel \<Longrightarrow> ph = ReadObj x \<or> ph = Scanning x todo \<Longrightarrow> cq_Selector x \<noteq> sel \<Longrightarrow> k \<in> DQ'"
    and "\<And>sel. RQ k = Some sel \<Longrightarrow> GetObjectMatcher valid sel \<noteq> None \<Longrightarrow>
      CQ' k = Some sel \<or> awaits DQ' k ph (\<lambda>x. cq_Selector x = sel) (\<lambda>_. True)"
  shows "quotas_ok valid RQ CQ' DQ' (PQ(k := ph))"
  unfolding quotas_ok_def
proof (intro allI impI)
  fix q sel
  assume a: "RQ q = Some sel"
  show "(\<forall>x todo. ((PQ(k := ph)) q = ReadObj x \<or> (PQ(k := ph)) q = Scanning x todo) \<and> cq_Selector x \<noteq> sel \<longrightarrow> q \<in> DQ') \<and>
     (GetObjectMatcher valid sel \<noteq> None \<longrightarrow>
        CQ' q = Some sel \<or> awaits DQ' q ((PQ(k := ph)) q) (\<lambda>x. cq_Selector x = sel) (\<lambda>_. True))"
  proof (cases "q = k")
    case True
    then show ?thesis using assms(4,5) a by auto
  next
    case False
    then have "(\<forall>x todo. (PQ q = ReadObj x \<or> PQ q = Scanning x todo) \<and> cq_Selector x \<noteq> sel \<longrightarrow> q \<in> DQ) \<and>
      (GetObjectMatcher valid sel \<noteq> None \<longrightarrow> CQ q = Some sel \<or> awaits DQ q (PQ q) (\<lambda>x. cq_Selector x = sel) (\<lambda>_. True))"
      using assms(1) a unfolding quotas_ok_def by blast
    then show ?thesis using False assms(2,3) by (auto simp: awaits_def)
  qed
qed

lemma quotas_okD:
  assumes "quotas_ok valid RQ CQ DQ PQ" "RQ q = Some sel"
  shows "PQ q = ReadObj x \<or> PQ q = Scanning x todo \<Longrightarrow> cq_Selector x \<noteq> sel \<Longrightarrow> q \<in> DQ"
    and "GetObjectMatcher valid sel \<noteq> None \<Longrightarrow> CQ q = Some sel \<or> awaits DQ q (PQ q) (\<lambda>x. cq_Selector x = sel) (\<lambda>_. True)"
  using assms unfolding quotas_ok_def by blast+

end
