(* ===== verification/Quota_Mapping_Settle.thy ===== *)
theory Quota_Mapping_Settle
  imports Quota_Mapping_Run
begin

text \<open>
  The invariant of the mapping controller: every pair of a quota and a namespace is right, or a scan that will set it
  right is ahead. At rest, the mapping is the one the selectors describe.
\<close>

section \<open>The invariant\<close>

abbreviation dirtyQ :: "mapping_state \<Rightarrow> string set" where
  "dirtyQ s \<equiv> q_dirty (rl_queue (ms_quotaQueue s))"

abbreviation dirtyN :: "mapping_state \<Rightarrow> string set" where
  "dirtyN s \<equiv> q_dirty (rl_queue (ms_nsQueue s))"

definition working :: "rl_queue \<Rightarrow> (string \<Rightarrow> ('k, 'o) scan_phase) \<Rightarrow> ('k \<Rightarrow> string) \<Rightarrow> bool" where
  "working q ph name \<longleftrightarrow> queue_ok q \<and> (\<forall>k. ph k \<noteq> Resting \<longrightarrow> k \<in> q_processing (rl_queue q)) \<and>
     (\<forall>k x todo. ph k = ReadObj x \<or> ph k = Scanning x todo \<longrightarrow> name x = k)"

definition base_inv :: "mapping_state \<Rightarrow> bool" where
  "base_inv s \<longleftrightarrow>
     (\<forall>k x. ms_quotas s k = Some x \<longrightarrow> cq_Name x = k) \<and> (\<forall>k x. ms_namespaces s k = Some x \<longrightarrow> ns_Name x = k) \<and>
     requiredQuotaToSelector (ms_mapper s) = (\<lambda>k. map_option cq_Selector (ms_quotas s k)) \<and>
     requiredNamespaceToLabels (ms_mapper s) = (\<lambda>k. map_option GetSelectionFields (ms_namespaces s k)) \<and>
     mapper_inv (ms_mapper s) \<and> working (ms_quotaQueue s) (ms_quotaWork s) cq_Name \<and> working (ms_nsQueue s) (ms_nsWork s) ns_Name"

definition scans_ok :: "(string \<Rightarrow> string list \<Rightarrow> bool) \<Rightarrow> mapping_state \<Rightarrow> bool" where
  "scans_ok valid s \<longleftrightarrow>
     pairs_ok valid (mapped (ms_mapper s)) (requiredQuotaToSelector (ms_mapper s)) (requiredNamespaceToLabels (ms_mapper s))
       (dirtyQ s) (ms_quotaWork s) (dirtyN s) (ms_nsWork s) \<and>
     quotas_ok valid (requiredQuotaToSelector (ms_mapper s)) (completedQuotaToSelector (ms_mapper s)) (dirtyQ s) (ms_quotaWork s)"

lemma scans_okD:
  assumes "scans_ok valid s"
  shows "pairs_ok valid (mapped (ms_mapper s)) (requiredQuotaToSelector (ms_mapper s)) (requiredNamespaceToLabels (ms_mapper s))
       (dirtyQ s) (ms_quotaWork s) (dirtyN s) (ms_nsWork s)"
    and "quotas_ok valid (requiredQuotaToSelector (ms_mapper s)) (completedQuotaToSelector (ms_mapper s)) (dirtyQ s) (ms_quotaWork s)"
  using assms by (simp_all add: scans_ok_def)

text \<open>The queue of either kind of worker.\<close>

lemma finish_mapping_queue:
  "rl_queue (finish_mapping k err q) = wq_Done k (rl_queue q)" "rl_queue (rl_Done k (Forget k q)) = wq_Done k (rl_queue q)"
  by (simp_all add: finish_mapping_def rl_Done_def Forget_def AddRateLimited_def AddAfter_def Let_def)

lemma working_got:
  assumes "working q ph name" "rl_Get q = Some (Some k, q')"
  shows "working q' (ph(k := Taken)) name" "q_dirty (rl_queue q') = q_dirty (rl_queue q) - {k}"
  using assms started_queue [of q k q'] by (auto simp: working_def)

lemma working_phase:
  assumes "working q ph name" "ph k \<noteq> Resting" "\<And>x todo. p = ReadObj x \<or> p = Scanning x todo \<Longrightarrow> name x = k"
  shows "working q (ph(k := p)) name"
  using assms by (auto simp: working_def)

lemma working_end:
  assumes "working q ph name" "ph k \<noteq> Resting" "rl_queue q' = wq_Done k (rl_queue q)"
  shows "working q' (ph(k := Resting)) name" "q_dirty (rl_queue q') = q_dirty (rl_queue q)"
proof -
  have "queue_ok q" "k \<in> q_processing (rl_queue q)" using assms(1,2) by (auto simp: working_def)
  then have "queue_ok q'" "q_processing (rl_queue q') = q_processing (rl_queue q) - {k}" "q_dirty (rl_queue q') = q_dirty (rl_queue q)"
    using assms(3) by (simp_all add: queue_ok_def wq.done_inv wq.done_dirty wq.done_processing wq.done_closed)
  then show "working q' (ph(k := Resting)) name" "q_dirty (rl_queue q') = q_dirty (rl_queue q)"
    using assms(1) by (auto simp: working_def)
qed

lemma working_add:
  assumes "working q ph name" "rl_queue q' = wq_Add k (rl_queue q)"
  shows "working q' ph name" "q_dirty (rl_queue q') = insert k (q_dirty (rl_queue q))"
  using assms by (simp_all add: working_def queue_ok_def wq.add_inv wq.add_dirty wq.add_processing wq.add_closed)

definition mapping_inv :: "(string \<Rightarrow> string list \<Rightarrow> bool) \<Rightarrow> mapping_state \<Rightarrow> bool" where
  "mapping_inv valid s \<longleftrightarrow> base_inv s \<and> scans_ok valid s"

lemma mapping_inv_start: "mapping_inv valid mapping_start"
  by (simp add: mapping_inv_def base_inv_def scans_ok_def pairs_ok_def quotas_ok_def working_def mapping_start_def rl_New_ok
      NewClusterQuotaMapper_def mapper_inv_def mapped_def)

subsection \<open>Events\<close>

lemma inv_quota_set:
  assumes "mapping_inv valid s" "enqueueQuota (TheObj quota) (ms_quotaQueue s, ms_mapper s) = (q', m')"
  shows "mapping_inv valid (s\<lparr>ms_quotas := (ms_quotas s)(cq_Name quota \<mapsto> quota), ms_quotaQueue := q', ms_mapper := m'\<rparr>)"
proof -
  let ?k = "cq_Name quota" and ?sel = "cq_Selector quota"
  obtain b where r: "requireQuota quota (ms_mapper s) = (b, m')"
    and q': "q' = (if b then (ms_quotaQueue s)\<lparr>rl_queue := wq_Add ?k (rl_queue (ms_quotaQueue s))\<rparr> else ms_quotaQueue s)"
    using assms(2) by (auto simp: enqueueQuota_def split: prod.splits)
  note m' = qm.require_quota [OF r]
  have c: "completedQuotaToSelector m' = completedQuotaToSelector (ms_mapper s)"
    using r by (auto simp: requireQuota_def split: if_splits)
  have base: "base_inv s" and scans: "scans_ok valid s" using assms(1) by (simp_all add: mapping_inv_def)
  have w: "working (ms_quotaQueue s) (ms_quotaWork s) cq_Name" using base by (simp add: base_inv_def)
  have "rl_queue q' = wq_Add ?k (rl_queue (ms_quotaQueue s)) \<or> \<not> b \<and> q' = ms_quotaQueue s" using q' by simp
  then have q: "working q' (ms_quotaWork s) cq_Name" "dirtyQ s \<subseteq> q_dirty (rl_queue q')"
    "requiredQuotaToSelector (ms_mapper s) ?k = Some ?sel \<or> ?k \<in> q_dirty (rl_queue q')"
    using working_add [OF w, of q' ?k] w m' by auto
  have "base_inv (s\<lparr>ms_quotas := (ms_quotas s)(?k \<mapsto> quota), ms_quotaQueue := q', ms_mapper := m'\<rparr>)"
    using base q(1) m' by (auto simp: base_inv_def)
  moreover have "scans_ok valid (s\<lparr>ms_quotas := (ms_quotas s)(?k \<mapsto> quota), ms_quotaQueue := q', ms_mapper := m'\<rparr>)"
    using pairs_ok_require_quota [OF scans_okD(1) [OF scans] q(2,3)] quotas_ok_require [OF scans_okD(2) [OF scans] q(2,3)] m' c by (simp add: scans_ok_def)
  ultimately show ?thesis by (simp add: mapping_inv_def)
qed

lemma inv_ns_set:
  assumes "mapping_inv valid s" "enqueueNamespace_mapping (TheObj ns) (ms_nsQueue s, ms_mapper s) = (q', m')"
  shows "mapping_inv valid (s\<lparr>ms_namespaces := (ms_namespaces s)(ns_Name ns \<mapsto> ns), ms_nsQueue := q', ms_mapper := m'\<rparr>)"
proof -
  let ?k = "ns_Name ns" and ?f = "GetSelectionFields ns"
  obtain b where r: "requireNamespace ns (ms_mapper s) = (b, m')"
    and q': "q' = (if b then (ms_nsQueue s)\<lparr>rl_queue := wq_Add ?k (rl_queue (ms_nsQueue s))\<rparr> else ms_nsQueue s)"
    using assms(2) by (auto simp: enqueueNamespace_mapping_def split: prod.splits)
  note m' = qm.require_namespace [OF r]
  have c: "completedQuotaToSelector m' = completedQuotaToSelector (ms_mapper s)"
    using r by (auto simp: requireNamespace_def split: if_splits)
  have base: "base_inv s" and scans: "scans_ok valid s" using assms(1) by (simp_all add: mapping_inv_def)
  have w: "working (ms_nsQueue s) (ms_nsWork s) ns_Name" using base by (simp add: base_inv_def)
  have "rl_queue q' = wq_Add ?k (rl_queue (ms_nsQueue s)) \<or> \<not> b \<and> q' = ms_nsQueue s" using q' by simp
  then have q: "working q' (ms_nsWork s) ns_Name" "dirtyN s \<subseteq> q_dirty (rl_queue q')"
    "requiredNamespaceToLabels (ms_mapper s) ?k = Some ?f \<or> ?k \<in> q_dirty (rl_queue q')"
    using working_add [OF w, of q' ?k] w m' by auto
  have "base_inv (s\<lparr>ms_namespaces := (ms_namespaces s)(?k \<mapsto> ns), ms_nsQueue := q', ms_mapper := m'\<rparr>)"
    using base q(1) m' by (auto simp: base_inv_def)
  moreover have "scans_ok valid (s\<lparr>ms_namespaces := (ms_namespaces s)(?k \<mapsto> ns), ms_nsQueue := q', ms_mapper := m'\<rparr>)"
    using pairs_ok_require_namespace [OF scans_okD(1) [OF scans] q(2,3)] scans_okD(2) [OF scans] m' c by (simp add: scans_ok_def)
  ultimately show ?thesis by (simp add: mapping_inv_def)
qed

lemma remove_completed:
  "completedQuotaToSelector (removeQuota ord k m) = (completedQuotaToSelector m)(k := None)"
  "completedQuotaToSelector (removeNamespace ord k m) = completedQuotaToSelector m"
  by (simp_all add: removeQuota_def removeNamespace_def)

lemma inv_deleted:
  assumes "mapping_inv valid s"
  shows "mapping_inv valid (s\<lparr>ms_quotas := (ms_quotas s)(k := None), ms_mapper := removeQuota ord k (ms_mapper s)\<rparr>)"
    "mapping_inv valid (s\<lparr>ms_namespaces := (ms_namespaces s)(k := None), ms_mapper := removeNamespace ord k (ms_mapper s)\<rparr>)"
proof -
  have base: "base_inv s" and scans: "scans_ok valid s" using assms(1) by (simp_all add: mapping_inv_def)
  have inv: "mapper_inv (ms_mapper s)" using base by (simp add: base_inv_def)
  note q = qm.remove_quota [OF inv, of ord k] and n = qm.remove_namespace [OF inv, of ord k]
  have "base_inv (s\<lparr>ms_quotas := (ms_quotas s)(k := None), ms_mapper := removeQuota ord k (ms_mapper s)\<rparr>)"
    "base_inv (s\<lparr>ms_namespaces := (ms_namespaces s)(k := None), ms_mapper := removeNamespace ord k (ms_mapper s)\<rparr>)"
    using base q n by (auto simp: base_inv_def)
  moreover have "scans_ok valid (s\<lparr>ms_quotas := (ms_quotas s)(k := None), ms_mapper := removeQuota ord k (ms_mapper s)\<rparr>)"
    "scans_ok valid (s\<lparr>ms_namespaces := (ms_namespaces s)(k := None), ms_mapper := removeNamespace ord k (ms_mapper s)\<rparr>)"
    using scans q n pairs_ok_remove [OF scans_okD(1) [OF scans], of k] quotas_ok_remove [OF scans_okD(2) [OF scans], of k]
    by (simp_all add: scans_ok_def remove_completed)
  ultimately show "mapping_inv valid (s\<lparr>ms_quotas := (ms_quotas s)(k := None), ms_mapper := removeQuota ord k (ms_mapper s)\<rparr>)"
    "mapping_inv valid (s\<lparr>ms_namespaces := (ms_namespaces s)(k := None), ms_mapper := removeNamespace ord k (ms_mapper s)\<rparr>)"
    by (simp_all add: mapping_inv_def)
qed

subsection \<open>Workers\<close>

text \<open>A worker on a quota takes, reads, lists, gives up or ends, and leaves the mapper alone.\<close>

lemma inv_quota_phase:
  assumes "mapping_inv valid s" "working q' ((ms_quotaWork s)(k := ph)) cq_Name" "dirtyQ s \<subseteq> insert k (q_dirty (rl_queue q'))"
    and "\<And>sel n f matcher. requiredQuotaToSelector (ms_mapper s) k = Some sel \<Longrightarrow> requiredNamespaceToLabels (ms_mapper s) n = Some f \<Longrightarrow>
      GetObjectMatcher valid sel = Some matcher \<Longrightarrow>
      awaits (dirtyQ s) k (ms_quotaWork s k) (\<lambda>x. cq_Selector x = sel) (\<lambda>todo. n \<in> ns_Name ` set todo) \<Longrightarrow>
      awaits (q_dirty (rl_queue q')) k ph (\<lambda>x. cq_Selector x = sel) (\<lambda>todo. n \<in> ns_Name ` set todo)"
    and "\<And>sel. requiredQuotaToSelector (ms_mapper s) k = Some sel \<Longrightarrow> GetObjectMatcher valid sel \<noteq> None \<Longrightarrow>
      awaits (dirtyQ s) k (ms_quotaWork s k) (\<lambda>x. cq_Selector x = sel) (\<lambda>_. True) \<Longrightarrow>
      awaits (q_dirty (rl_queue q')) k ph (\<lambda>x. cq_Selector x = sel) (\<lambda>_. True)"
    and "\<And>sel x todo. requiredQuotaToSelector (ms_mapper s) k = Some sel \<Longrightarrow> ph = ReadObj x \<or> ph = Scanning x todo \<Longrightarrow>
      cq_Selector x \<noteq> sel \<Longrightarrow> k \<in> q_dirty (rl_queue q')"
  shows "mapping_inv valid (s\<lparr>ms_quotaQueue := q', ms_quotaWork := (ms_quotaWork s)(k := ph)\<rparr>)"
proof -
  have base: "base_inv s" and scans: "scans_ok valid s" using assms(1) by (simp_all add: mapping_inv_def)
  note p = scans_okD(1) [OF scans] and c = scans_okD(2) [OF scans]
  have "base_inv (s\<lparr>ms_quotaQueue := q', ms_quotaWork := (ms_quotaWork s)(k := ph)\<rparr>)"
    using base assms(2) by (simp add: base_inv_def)
  moreover have "scans_ok valid (s\<lparr>ms_quotaQueue := q', ms_quotaWork := (ms_quotaWork s)(k := ph)\<rparr>)"
    using pairs_ok_quota_phase [OF p assms(3), where ph = ph] quotas_ok_phase [OF c assms(3), where ph = ph]
      quotas_okD(2) [OF c] assms(4-6) unfolding scans_ok_def by simp blast
  ultimately show ?thesis by (simp add: mapping_inv_def)
qed

lemma inv_ns_phase:
  assumes "mapping_inv valid s" "working q' ((ms_nsWork s)(k := ph)) ns_Name" "dirtyN s \<subseteq> insert k (q_dirty (rl_queue q'))"
    and "\<And>f q sel matcher. requiredNamespaceToLabels (ms_mapper s) k = Some f \<Longrightarrow> requiredQuotaToSelector (ms_mapper s) q = Some sel \<Longrightarrow>
      GetObjectMatcher valid sel = Some matcher \<Longrightarrow>
      awaits (dirtyN s) k (ms_nsWork s k) (\<lambda>x. GetSelectionFields x = f) (usable valid q) \<Longrightarrow>
      awaits (q_dirty (rl_queue q')) k ph (\<lambda>x. GetSelectionFields x = f) (usable valid q)"
  shows "mapping_inv valid (s\<lparr>ms_nsQueue := q', ms_nsWork := (ms_nsWork s)(k := ph)\<rparr>)"
proof -
  have base: "base_inv s" and scans: "scans_ok valid s" using assms(1) by (simp_all add: mapping_inv_def)
  note p = scans_okD(1) [OF scans]
  have "base_inv (s\<lparr>ms_nsQueue := q', ms_nsWork := (ms_nsWork s)(k := ph)\<rparr>)"
    using base assms(2) by (simp add: base_inv_def)
  moreover have "scans_ok valid (s\<lparr>ms_nsQueue := q', ms_nsWork := (ms_nsWork s)(k := ph)\<rparr>)"
    using pairs_ok_ns_phase [OF p assms(3), where ph = ph] assms(4) scans by (simp add: scans_ok_def)
  ultimately show ?thesis by (simp add: mapping_inv_def)
qed

lemma same_state [simp]:
  "s\<lparr>ms_quotaQueue := ms_quotaQueue s, ms_quotaWork := p\<rparr> = s\<lparr>ms_quotaWork := p\<rparr>"
  "s\<lparr>ms_nsQueue := ms_nsQueue s, ms_nsWork := p'\<rparr> = s\<lparr>ms_nsWork := p'\<rparr>"
  "s\<lparr>ms_mapper := ms_mapper s, ms_quotaWork := p\<rparr> = s\<lparr>ms_quotaWork := p\<rparr>"
  "s\<lparr>ms_mapper := ms_mapper s, ms_nsWork := p'\<rparr> = s\<lparr>ms_nsWork := p'\<rparr>"
  by simp_all

lemma setMapping_completed:
  "setMapping q n r m = (x, m') \<Longrightarrow> completedQuotaToSelector m' = completedQuotaToSelector m"
  by (auto simp: setMapping_def map_pair_def unmap_pair_def Let_def split: if_splits)

text \<open>A pair that has been set, by either kind of worker.\<close>

lemma inv_stored:
  assumes "mapping_inv valid s" "setMapping quota ns (\<not> matcher (GetSelectionFields ns)) (ms_mapper s) = (x, m')"
    and "GetObjectMatcher valid (cq_Selector quota) = Some matcher"
    and "requiredQuotaToSelector (ms_mapper s) (cq_Name quota) = Some (cq_Selector quota)"
    and "requiredNamespaceToLabels (ms_mapper s) (ns_Name ns) = Some (GetSelectionFields ns)"
  shows "mapping_inv valid (s\<lparr>ms_mapper := m'\<rparr>)"
    and "(cq_Name quota, ns_Name ns) \<in> mapped m' \<longleftrightarrow> matcher (GetSelectionFields ns)"
proof -
  have base: "base_inv s" and scans: "scans_ok valid s" using assms(1) by (simp_all add: mapping_inv_def)
  have inv: "mapper_inv (ms_mapper s)" using base by (simp add: base_inv_def)
  have d: "fst (setMapping quota ns (\<not> matcher (GetSelectionFields ns)) (ms_mapper s)) = (True, True, True)"
    by (rule qm.set_done [OF assms(4,5)])
  have m: "mapped m' = (if \<not> matcher (GetSelectionFields ns) then mapped (ms_mapper s) - {(cq_Name quota, ns_Name ns)}
      else insert (cq_Name quota, ns_Name ns) (mapped (ms_mapper s)))" "mapper_inv m'"
    using qm.set_pairs [OF inv d] qm.set_ok [OF inv, of quota ns "\<not> matcher (GetSelectionFields ns)"] assms(2) by simp_all
  then show "(cq_Name quota, ns_Name ns) \<in> mapped m' \<longleftrightarrow> matcher (GetSelectionFields ns)" by simp
  note req = setMapping_req [OF assms(2)]
  have "base_inv (s\<lparr>ms_mapper := m'\<rparr>)" using base m(2) by (simp add: base_inv_def req)
  moreover have "scans_ok valid (s\<lparr>ms_mapper := m'\<rparr>)"
    using pairs_ok_set [OF scans_okD(1) [OF scans] assms(4,5,3)] scans_okD(2) [OF scans]
    by (simp add: scans_ok_def m(1) req setMapping_completed [OF assms(2)])
  ultimately show "mapping_inv valid (s\<lparr>ms_mapper := m'\<rparr>)" by (simp add: mapping_inv_def)
qed

lemma inv_quota_visits:
  assumes "mapping_inv valid s" "ms_quotaWork s k = Scanning quota (ns # nss)"
    and "GetObjectMatcher valid (cq_Selector quota) = Some matcher"
    and "quota_visit matcher (lister_get (ms_namespaces s)) quota ns (ms_mapper s) = (r, m')"
  shows "mapping_inv valid (s\<lparr>ms_mapper := m', ms_quotaWork := (ms_quotaWork s)
      (k := Scanning quota (case after_visit r nss of None \<Rightarrow> [] | Some todo \<Rightarrow> todo))\<rparr>)"
proof -
  let ?m = "ms_mapper s"
  have base: "base_inv s" and scans: "scans_ok valid s" using assms(1) by (simp_all add: mapping_inv_def)
  have inv: "mapper_inv ?m" and w: "working (ms_quotaQueue s) (ms_quotaWork s) cq_Name" and k: "cq_Name quota = k"
    and nsreq: "requiredNamespaceToLabels ?m = (\<lambda>k. map_option GetSelectionFields (ms_namespaces s k))"
    and names: "\<And>k x. ms_namespaces s k = Some x \<Longrightarrow> ns_Name x = k"
    using base assms(2) by (auto simp: base_inv_def working_def)
  have w': "working (ms_quotaQueue s) ((ms_quotaWork s)(k := Scanning quota todo)) cq_Name" for todo
    by (rule working_phase [OF w]) (use assms(2) k in auto)
  obtain success quotaMatches namespaceMatches where
    set: "setMapping quota ns (\<not> matcher (GetSelectionFields ns)) ?m = ((success, quotaMatches, namespaceMatches), m')"
    and r: "r = (if success then Next else if \<not> quotaMatches then Stop
      else case lister_get (ms_namespaces s) (ns_Name ns) of Inl _ \<Rightarrow> Next | Inr newer \<Rightarrow> Again newer)"
    using assms(4) by (auto simp: quota_visit_def split: prod.splits)
  have stale: "\<And>sel x todo. requiredQuotaToSelector ?m k = Some sel \<Longrightarrow> cq_Selector quota \<noteq> sel \<Longrightarrow> k \<in> dirtyQ s"
    using quotas_okD(1) [OF scans_okD(2) [OF scans]] assms(2) by blast
  from set inv show ?thesis
  proof (cases rule: qm.set_mapping_cases)
    case stored
    note st = inv_stored [OF assms(1) set assms(3) stored(2,3)]
    let ?s = "s\<lparr>ms_mapper := m'\<rparr>"
    have right: "(k, ns_Name ns) \<in> mapped m' \<longleftrightarrow> matcher' f" if "requiredQuotaToSelector m' k = Some sel"
        "requiredNamespaceToLabels m' (ns_Name ns) = Some f" "GetObjectMatcher valid sel = Some matcher'" for sel f matcher'
      using that st(2) stored assms(3) k by simp
    have "scans_ok valid ?s" "base_inv ?s" using st(1) by (simp_all add: mapping_inv_def)
    note p = scans_okD [OF this(1), simplified]
    have "pairs_ok valid (mapped m') (requiredQuotaToSelector m') (requiredNamespaceToLabels m')
       (dirtyQ s) ((ms_quotaWork s)(k := Scanning quota nss)) (dirtyN s) (ms_nsWork s)"
      by (rule pairs_ok_visited_quota [OF p(1) assms(2)]) (rule right)
    moreover have "quotas_ok valid (requiredQuotaToSelector m') (completedQuotaToSelector m') (dirtyQ s) ((ms_quotaWork s)(k := Scanning quota nss))"
      by (rule quotas_ok_phase [OF p(2)]) (use stored(2,6) assms(2) k in \<open>auto simp: awaits_def\<close>)
    moreover have "r = Next" using r stored(1) by simp
    ultimately show ?thesis using \<open>base_inv ?s\<close> w' by (simp add: mapping_inv_def scans_ok_def base_inv_def)
  next
    case refused
    have "mapping_inv valid (s\<lparr>ms_quotaQueue := ms_quotaQueue s, ms_quotaWork := (ms_quotaWork s)
      (k := Scanning quota (case after_visit r nss of None \<Rightarrow> [] | Some todo \<Rightarrow> todo))\<rparr>)"
    proof (rule inv_quota_phase [OF assms(1) w'])
      fix sel n f matcher'
      assume a: "requiredQuotaToSelector ?m k = Some sel" "requiredNamespaceToLabels ?m n = Some f"
        "awaits (dirtyQ s) k (ms_quotaWork s k) (\<lambda>x. cq_Selector x = sel) (\<lambda>todo. n \<in> ns_Name ` set todo)"
      show "awaits (dirtyQ s) k (Scanning quota (case after_visit r nss of None \<Rightarrow> [] | Some todo \<Rightarrow> todo))
          (\<lambda>x. cq_Selector x = sel) (\<lambda>todo. n \<in> ns_Name ` set todo)"
      proof (cases "ms_namespaces s (ns_Name ns)")
        case None
        then show ?thesis using a assms(2) refused r k nsreq by (auto simp: awaits_def lister_get_def)
      next
        case (Some newer)
        then show ?thesis using a assms(2) refused r k nsreq names [OF Some, symmetric] by (auto simp: awaits_def lister_get_def)
      qed
    qed (use stale assms(2) in \<open>auto simp: awaits_def\<close>)
    then show ?thesis using refused(2) by simp
  qed
qed

lemma inv_ns_visits:
  assumes "mapping_inv valid s" "ms_nsWork s k = Scanning ns (quota # quotas)"
    and "namespace_visit valid (lister_get (ms_quotas s)) ns quota (ms_mapper s) = (r, m')"
  shows "mapping_inv valid (s\<lparr>ms_mapper := m', ms_nsWork := (ms_nsWork s)
      (k := (case after_visit r quotas of None \<Rightarrow> Ending None | Some todo \<Rightarrow> Scanning ns todo))\<rparr>)"
proof -
  let ?m = "ms_mapper s" and ?p = "case after_visit r quotas of None \<Rightarrow> Ending None | Some todo \<Rightarrow> Scanning ns todo"
  have base: "base_inv s" and scans: "scans_ok valid s" using assms(1) by (simp_all add: mapping_inv_def)
  have inv: "mapper_inv ?m" and w: "working (ms_nsQueue s) (ms_nsWork s) ns_Name" and k: "ns_Name ns = k"
    and qreq: "requiredQuotaToSelector ?m = (\<lambda>k. map_option cq_Selector (ms_quotas s k))"
    and names: "\<And>k x. ms_quotas s k = Some x \<Longrightarrow> cq_Name x = k"
    using base assms(2) by (auto simp: base_inv_def working_def)
  have w': "working (ms_nsQueue s) ((ms_nsWork s)(k := p)) ns_Name" if "\<And>x todo. p = ReadObj x \<or> p = Scanning x todo \<Longrightarrow> x = ns" for p
    by (rule working_phase [OF w]) (use assms(2) k that in auto)
  have wp: "working (ms_nsQueue s) ((ms_nsWork s)(k := ?p)) ns_Name" by (rule w') (auto split: option.splits)
  show ?thesis
  proof (cases "GetObjectMatcher valid (cq_Selector quota)")
    case None
    then have r: "r = Next" "m' = ?m" using assms(3) by (auto simp: namespace_visit_def)
    have "mapping_inv valid (s\<lparr>ms_nsQueue := ms_nsQueue s, ms_nsWork := (ms_nsWork s)(k := ?p)\<rparr>)"
      by (rule inv_ns_phase [OF assms(1) wp]) (use None r assms(2) in \<open>auto simp: awaits_def\<close>)
    then show ?thesis using r by simp
  next
    case (Some matcher)
    obtain success quotaMatches namespaceMatches where
      set: "setMapping quota ns (\<not> matcher (GetSelectionFields ns)) ?m = ((success, quotaMatches, namespaceMatches), m')"
      and r: "r = (if success then Next else if \<not> namespaceMatches then Stop
        else case lister_get (ms_quotas s) (cq_Name quota) of Inl _ \<Rightarrow> Next | Inr newer \<Rightarrow> Again newer)"
      using assms(3) Some by (auto simp: namespace_visit_def split: prod.splits)
    from set inv show ?thesis
    proof (cases rule: qm.set_mapping_cases)
      case stored
      note st = inv_stored [OF assms(1) set Some stored(2,3)]
      let ?s = "s\<lparr>ms_mapper := m'\<rparr>"
      have right: "(cq_Name quota, k) \<in> mapped m' \<longleftrightarrow> matcher' f" if "requiredQuotaToSelector m' (cq_Name quota) = Some sel"
          "requiredNamespaceToLabels m' k = Some f" "GetObjectMatcher valid sel = Some matcher'" for sel f matcher'
        using that st(2) stored Some k by simp
      have "scans_ok valid ?s" "base_inv ?s" using st(1) by (simp_all add: mapping_inv_def)
      note q = scans_okD [OF this(1), simplified]
      have "pairs_ok valid (mapped m') (requiredQuotaToSelector m') (requiredNamespaceToLabels m')
         (dirtyQ s) (ms_quotaWork s) (dirtyN s) ((ms_nsWork s)(k := Scanning ns quotas))"
        by (rule pairs_ok_visited_ns [OF q(1) assms(2)]) (rule right)
      moreover have "r = Next" using r stored(1) by simp
      ultimately show ?thesis using \<open>base_inv ?s\<close> wp q(2) by (simp add: mapping_inv_def scans_ok_def base_inv_def)
    next
      case refused
      have "mapping_inv valid (s\<lparr>ms_nsQueue := ms_nsQueue s, ms_nsWork := (ms_nsWork s)(k := ?p)\<rparr>)"
      proof (rule inv_ns_phase [OF assms(1) wp])
        fix f q sel matcher'
        assume a: "requiredNamespaceToLabels ?m k = Some f" "requiredQuotaToSelector ?m q = Some sel"
          "GetObjectMatcher valid sel = Some matcher'"
          "awaits (dirtyN s) k (ms_nsWork s k) (\<lambda>x. GetSelectionFields x = f) (usable valid q)"
        show "awaits (dirtyN s) k ?p (\<lambda>x. GetSelectionFields x = f) (usable valid q)"
        proof (cases "ms_quotas s (cq_Name quota)")
          case None
          then show ?thesis using a assms(2) refused r k qreq by (auto simp: awaits_def lister_get_def)
        next
          case (Some newer)
          then show ?thesis using a assms(2) refused r k qreq names [OF Some, symmetric] by (auto simp: awaits_def lister_get_def)
        qed
      qed auto
      then show ?thesis using refused(2) by simp
    qed
  qed
qed

text \<open>The end of a scan of a quota. A scan that was given up has its key waiting.\<close>

lemma inv_quota_completes:
  assumes "mapping_inv valid s" "ms_quotaWork s k = Scanning quota []"
  shows "mapping_inv valid (s\<lparr>ms_mapper := completeQuota quota (ms_mapper s), ms_quotaWork := (ms_quotaWork s)(k := Ending None)\<rparr>)"
proof -
  have base: "base_inv s" and scans: "scans_ok valid s" using assms(1) by (simp_all add: mapping_inv_def)
  note p = scans_okD(1) [OF scans] and c = scans_okD(2) [OF scans]
  have w: "working (ms_quotaQueue s) (ms_quotaWork s) cq_Name" and k: "cq_Name quota = k"
    using base assms(2) by (auto simp: base_inv_def working_def)
  have "working (ms_quotaQueue s) ((ms_quotaWork s)(k := Ending None)) cq_Name"
    by (rule working_phase [OF w]) (use assms(2) in auto)
  then have "base_inv (s\<lparr>ms_mapper := completeQuota quota (ms_mapper s), ms_quotaWork := (ms_quotaWork s)(k := Ending None)\<rparr>)"
    using base by (simp add: base_inv_def, simp add: completeQuota_def)
  moreover have "pairs_ok valid (mapped (ms_mapper s)) (requiredQuotaToSelector (ms_mapper s)) (requiredNamespaceToLabels (ms_mapper s))
      (dirtyQ s) ((ms_quotaWork s)(k := Ending None)) (dirtyN s) (ms_nsWork s)"
    by (rule pairs_ok_quota_phase [OF p]) (use assms(2) in \<open>auto simp: awaits_def\<close>)
  moreover have "quotas_ok valid (requiredQuotaToSelector (ms_mapper s)) ((completedQuotaToSelector (ms_mapper s))(k \<mapsto> cq_Selector quota))
      (dirtyQ s) ((ms_quotaWork s)(k := Ending None))"
    by (rule quotas_ok_phase [OF c]) (use quotas_okD(1) [OF c, of k _ quota "[]"] assms(2) in \<open>auto simp: awaits_def\<close>)
  ultimately show ?thesis using k by (simp add: mapping_inv_def scans_ok_def, simp add: completeQuota_def)
qed

lemma inv_ns_completes:
  assumes "mapping_inv valid s" "ms_nsWork s k = Scanning ns []"
  shows "mapping_inv valid (s\<lparr>ms_mapper := completeNamespace ns (ms_mapper s), ms_nsWork := (ms_nsWork s)(k := Ending None)\<rparr>)"
proof -
  have base: "base_inv s" and scans: "scans_ok valid s" using assms(1) by (simp_all add: mapping_inv_def)
  have w: "working (ms_nsQueue s) (ms_nsWork s) ns_Name" using base by (simp add: base_inv_def)
  have "working (ms_nsQueue s) ((ms_nsWork s)(k := Ending None)) ns_Name"
    by (rule working_phase [OF w]) (use assms(2) in auto)
  then have "base_inv (s\<lparr>ms_mapper := completeNamespace ns (ms_mapper s), ms_nsWork := (ms_nsWork s)(k := Ending None)\<rparr>)"
    using base by (simp add: base_inv_def, simp add: completeNamespace_def)
  moreover have "pairs_ok valid (mapped (ms_mapper s)) (requiredQuotaToSelector (ms_mapper s)) (requiredNamespaceToLabels (ms_mapper s))
      (dirtyQ s) (ms_quotaWork s) (dirtyN s) ((ms_nsWork s)(k := Ending None))"
    by (rule pairs_ok_ns_phase [OF scans_okD(1) [OF scans]]) (use assms(2) in \<open>auto simp: awaits_def\<close>)
  ultimately show ?thesis using scans_okD(2) [OF scans] by (simp add: mapping_inv_def scans_ok_def, simp add: completeNamespace_def)
qed

text \<open>The steps of a worker that leave the mapper alone.\<close>

lemma inv_quota_moves:
  assumes "mapping_inv valid s" "ms_quotaWork s k \<noteq> Resting"
  shows "ms_quotaWork s k = Taken \<Longrightarrow> ms_quotas s k = Some quota \<Longrightarrow>
      mapping_inv valid (s\<lparr>ms_quotaWork := (ms_quotaWork s)(k := ReadObj quota)\<rparr>)"
    and "ms_quotaWork s k = ReadObj quota \<Longrightarrow> GetObjectMatcher valid (cq_Selector quota) = None \<Longrightarrow>
      mapping_inv valid (s\<lparr>ms_quotaWork := (ms_quotaWork s)(k := Ending (Some BadSelector))\<rparr>)"
    and "ms_quotaWork s k = ReadObj quota \<Longrightarrow> set nss = ran (ms_namespaces s) \<Longrightarrow>
      mapping_inv valid (s\<lparr>ms_quotaWork := (ms_quotaWork s)(k := Scanning quota nss)\<rparr>)"
    and "ms_quotaWork s k = Ending err \<or> ms_quotaWork s k = Taken \<and> ms_quotas s k = None \<Longrightarrow> rl_queue q' = wq_Done k (rl_queue (ms_quotaQueue s)) \<Longrightarrow>
      mapping_inv valid (s\<lparr>ms_quotaQueue := q', ms_quotaWork := (ms_quotaWork s)(k := Resting)\<rparr>)"
proof -
  have base: "base_inv s" and scans: "scans_ok valid s" using assms(1) by (simp_all add: mapping_inv_def)
  have w: "working (ms_quotaQueue s) (ms_quotaWork s) cq_Name"
    and req: "requiredQuotaToSelector (ms_mapper s) = (\<lambda>k. map_option cq_Selector (ms_quotas s k))"
      "requiredNamespaceToLabels (ms_mapper s) = (\<lambda>k. map_option GetSelectionFields (ms_namespaces s k))"
    and names: "\<And>k x. ms_quotas s k = Some x \<Longrightarrow> cq_Name x = k" "\<And>k x. ms_namespaces s k = Some x \<Longrightarrow> ns_Name x = k"
    using base by (auto simp: base_inv_def)
  note moved = working_phase [OF w assms(2)] and ended = working_end [OF w assms(2)]
  note stale = quotas_okD(1) [OF scans_okD(2) [OF scans]]
  show "mapping_inv valid (s\<lparr>ms_quotaWork := (ms_quotaWork s)(k := ReadObj quota)\<rparr>)"
    if a: "ms_quotaWork s k = Taken" "ms_quotas s k = Some quota"
  proof -
    have "working (ms_quotaQueue s) ((ms_quotaWork s)(k := ReadObj quota)) cq_Name" by (rule moved) (use names(1) a in auto)
    from inv_quota_phase [OF assms(1) this] show ?thesis using a req by (simp add: awaits_def subset_insertI)
  qed
  show "mapping_inv valid (s\<lparr>ms_quotaWork := (ms_quotaWork s)(k := Ending (Some BadSelector))\<rparr>)"
    if a: "ms_quotaWork s k = ReadObj quota" "GetObjectMatcher valid (cq_Selector quota) = None"
  proof -
    have "working (ms_quotaQueue s) ((ms_quotaWork s)(k := Ending (Some BadSelector))) cq_Name" by (rule moved) simp
    then have "mapping_inv valid (s\<lparr>ms_quotaQueue := ms_quotaQueue s, ms_quotaWork := (ms_quotaWork s)(k := Ending (Some BadSelector))\<rparr>)"
      by (rule inv_quota_phase [OF assms(1)]) (use a in \<open>auto simp: awaits_def\<close>)
    then show ?thesis by simp
  qed
  show "mapping_inv valid (s\<lparr>ms_quotaWork := (ms_quotaWork s)(k := Scanning quota nss)\<rparr>)"
    if a: "ms_quotaWork s k = ReadObj quota" "set nss = ran (ms_namespaces s)"
  proof -
    have "cq_Name quota = k" using w a by (auto simp: working_def)
    then have wk: "working (ms_quotaQueue s) ((ms_quotaWork s)(k := Scanning quota nss)) cq_Name" by (intro moved) auto
    have all: "n \<in> ns_Name ` set nss" if b: "requiredNamespaceToLabels (ms_mapper s) n = Some f" for n f
    proof -
      obtain x where x: "ms_namespaces s n = Some x" using b req(2) by auto
      then show ?thesis using a(2) ranI [of "ms_namespaces s", OF x] names(2) [OF x] by (intro image_eqI [of _ _ x]) simp_all
    qed
    have st: "k \<in> dirtyQ s" if "requiredQuotaToSelector (ms_mapper s) k = Some sel" "cq_Selector quota \<noteq> sel" for sel
      using stale [OF that(1), of quota "[]"] a(1) that(2) by simp
    have "mapping_inv valid (s\<lparr>ms_quotaQueue := ms_quotaQueue s, ms_quotaWork := (ms_quotaWork s)(k := Scanning quota nss)\<rparr>)"
    proof (rule inv_quota_phase [OF assms(1) wk])
      fix sel x todo
      assume "requiredQuotaToSelector (ms_mapper s) k = Some sel" "Scanning quota nss = ReadObj x \<or> Scanning quota nss = Scanning x todo"
        "cq_Selector x \<noteq> sel"
      then show "k \<in> dirtyQ s" using st by simp
    next
      fix sel n f
      assume "requiredNamespaceToLabels (ms_mapper s) n = Some f"
        "awaits (dirtyQ s) k (ms_quotaWork s k) (\<lambda>x. cq_Selector x = sel) (\<lambda>todo. n \<in> ns_Name ` set todo)"
      then show "awaits (dirtyQ s) k (Scanning quota nss) (\<lambda>x. cq_Selector x = sel) (\<lambda>todo. n \<in> ns_Name ` set todo)"
        using all [of n f] a(1) by (simp add: awaits_def)
    qed (use a(1) in \<open>simp_all add: awaits_def subset_insertI\<close>)
    then show ?thesis by simp
  qed
  show "mapping_inv valid (s\<lparr>ms_quotaQueue := q', ms_quotaWork := (ms_quotaWork s)(k := Resting)\<rparr>)"
    if a: "ms_quotaWork s k = Ending err \<or> ms_quotaWork s k = Taken \<and> ms_quotas s k = None" "rl_queue q' = wq_Done k (rl_queue (ms_quotaQueue s))"
  proof -
    have "k \<in> dirtyQ s" if "requiredQuotaToSelector (ms_mapper s) k = Some sel" "awaits (dirtyQ s) k (ms_quotaWork s k) c i" for sel c i
      using a(1) that req(1) by (auto simp: awaits_def)
    then show ?thesis
      by (intro inv_quota_phase [OF assms(1) ended(1) [OF a(2)]]) (simp_all add: ended(2) [OF a(2)] awaits_dirty_resting subset_insertI)
  qed
qed

lemma inv_ns_moves:
  assumes "mapping_inv valid s" "ms_nsWork s k \<noteq> Resting"
  shows "ms_nsWork s k = Taken \<Longrightarrow> ms_namespaces s k = Some ns \<Longrightarrow>
      mapping_inv valid (s\<lparr>ms_nsWork := (ms_nsWork s)(k := ReadObj ns)\<rparr>)"
    and "ms_nsWork s k = ReadObj ns \<Longrightarrow> set quotas = ran (ms_quotas s) \<Longrightarrow>
      mapping_inv valid (s\<lparr>ms_nsWork := (ms_nsWork s)(k := Scanning ns quotas)\<rparr>)"
    and "ms_nsWork s k = Ending err \<or> ms_nsWork s k = Taken \<and> ms_namespaces s k = None \<Longrightarrow> rl_queue q' = wq_Done k (rl_queue (ms_nsQueue s)) \<Longrightarrow>
      mapping_inv valid (s\<lparr>ms_nsQueue := q', ms_nsWork := (ms_nsWork s)(k := Resting)\<rparr>)"
proof -
  have base: "base_inv s" using assms(1) by (simp add: mapping_inv_def)
  have w: "working (ms_nsQueue s) (ms_nsWork s) ns_Name"
    and req: "requiredQuotaToSelector (ms_mapper s) = (\<lambda>k. map_option cq_Selector (ms_quotas s k))"
      "requiredNamespaceToLabels (ms_mapper s) = (\<lambda>k. map_option GetSelectionFields (ms_namespaces s k))"
    and names: "\<And>k x. ms_quotas s k = Some x \<Longrightarrow> cq_Name x = k" "\<And>k x. ms_namespaces s k = Some x \<Longrightarrow> ns_Name x = k"
    using base by (auto simp: base_inv_def)
  note moved = working_phase [OF w assms(2)] and ended = working_end [OF w assms(2)]
  show "mapping_inv valid (s\<lparr>ms_nsWork := (ms_nsWork s)(k := ReadObj ns)\<rparr>)"
    if a: "ms_nsWork s k = Taken" "ms_namespaces s k = Some ns"
  proof -
    have "working (ms_nsQueue s) ((ms_nsWork s)(k := ReadObj ns)) ns_Name" by (rule moved) (use names(2) a in auto)
    from inv_ns_phase [OF assms(1) this] show ?thesis using a req by (simp add: awaits_def subset_insertI)
  qed
  show "mapping_inv valid (s\<lparr>ms_nsWork := (ms_nsWork s)(k := Scanning ns quotas)\<rparr>)"
    if a: "ms_nsWork s k = ReadObj ns" "set quotas = ran (ms_quotas s)"
  proof -
    have "ns_Name ns = k" using w a by (auto simp: working_def)
    then have wk: "working (ms_nsQueue s) ((ms_nsWork s)(k := Scanning ns quotas)) ns_Name" by (intro moved) auto
    have all: "usable valid q quotas" if b: "requiredQuotaToSelector (ms_mapper s) q = Some sel" "GetObjectMatcher valid sel = Some matcher" for q sel matcher
    proof -
      obtain x where x: "ms_quotas s q = Some x" "cq_Selector x = sel" using b(1) req(1) by auto
      then have "x \<in> set quotas" using a(2) ranI [of "ms_quotas s", OF x(1)] by simp
      then show ?thesis using names(1) [OF x(1)] x(2) b(2) unfolding usable_iff by (intro bexI [of _ x]) simp_all
    qed
    have "mapping_inv valid (s\<lparr>ms_nsQueue := ms_nsQueue s, ms_nsWork := (ms_nsWork s)(k := Scanning ns quotas)\<rparr>)"
      by (rule inv_ns_phase [OF assms(1) wk]) (use a(1) all in \<open>simp_all add: awaits_def subset_insertI\<close>)
    then show ?thesis by simp
  qed
  show "mapping_inv valid (s\<lparr>ms_nsQueue := q', ms_nsWork := (ms_nsWork s)(k := Resting)\<rparr>)"
    if a: "ms_nsWork s k = Ending err \<or> ms_nsWork s k = Taken \<and> ms_namespaces s k = None" "rl_queue q' = wq_Done k (rl_queue (ms_nsQueue s))"
  proof -
    have "k \<in> dirtyN s" if "requiredNamespaceToLabels (ms_mapper s) k = Some f" "awaits (dirtyN s) k (ms_nsWork s k) c i" for f c i
      using a(1) that req(2) by (auto simp: awaits_def)
    then show ?thesis
      by (intro inv_ns_phase [OF assms(1) ended(1) [OF a(2)]]) (simp_all add: ended(2) [OF a(2)] awaits_dirty_resting subset_insertI)
  qed
qed

text \<open>A key is taken from a queue, or added when its delay is over.\<close>

lemma inv_got:
  assumes "mapping_inv valid s"
  shows "rl_Get (ms_quotaQueue s) = Some (Some k, q') \<Longrightarrow>
      mapping_inv valid (s\<lparr>ms_quotaQueue := q', ms_quotaWork := (ms_quotaWork s)(k := Taken)\<rparr>)"
    and "rl_Get (ms_nsQueue s) = Some (Some k, q') \<Longrightarrow>
      mapping_inv valid (s\<lparr>ms_nsQueue := q', ms_nsWork := (ms_nsWork s)(k := Taken)\<rparr>)"
proof -
  have w: "working (ms_quotaQueue s) (ms_quotaWork s) cq_Name" "working (ms_nsQueue s) (ms_nsWork s) ns_Name"
    using assms by (auto simp: mapping_inv_def base_inv_def)
  show "mapping_inv valid (s\<lparr>ms_quotaQueue := q', ms_quotaWork := (ms_quotaWork s)(k := Taken)\<rparr>)"
    if g: "rl_Get (ms_quotaQueue s) = Some (Some k, q')"
    by (rule inv_quota_phase [OF assms working_got(1) [OF w(1) g]]) (auto simp: working_got(2) [OF w(1) g] awaits_def)
  show "mapping_inv valid (s\<lparr>ms_nsQueue := q', ms_nsWork := (ms_nsWork s)(k := Taken)\<rparr>)"
    if g: "rl_Get (ms_nsQueue s) = Some (Some k, q')"
    by (rule inv_ns_phase [OF assms working_got(1) [OF w(2) g]]) (auto simp: working_got(2) [OF w(2) g] awaits_def)
qed

lemma inv_mapping_fires:
  assumes "mapping_inv valid s"
  shows "rl_queue q' = wq_Add k (rl_queue (ms_quotaQueue s)) \<Longrightarrow> mapping_inv valid (s\<lparr>ms_quotaQueue := q'\<rparr>)"
    and "rl_queue q' = wq_Add k (rl_queue (ms_nsQueue s)) \<Longrightarrow> mapping_inv valid (s\<lparr>ms_nsQueue := q'\<rparr>)"
proof -
  have w: "working (ms_quotaQueue s) (ms_quotaWork s) cq_Name" "working (ms_nsQueue s) (ms_nsWork s) ns_Name"
    using assms by (auto simp: mapping_inv_def base_inv_def)
  have same: "s\<lparr>ms_quotaQueue := q', ms_quotaWork := ms_quotaWork s\<rparr> = s\<lparr>ms_quotaQueue := q'\<rparr>"
    "s\<lparr>ms_nsQueue := q', ms_nsWork := ms_nsWork s\<rparr> = s\<lparr>ms_nsQueue := q'\<rparr>" by simp_all
  show "mapping_inv valid (s\<lparr>ms_quotaQueue := q'\<rparr>)" if g: "rl_queue q' = wq_Add k (rl_queue (ms_quotaQueue s))"
    using inv_quota_phase [OF assms, of q' k "ms_quotaWork s k"] working_add [OF w(1) g]
    by (simp add: awaits_def same subset_insertI)
  show "mapping_inv valid (s\<lparr>ms_nsQueue := q'\<rparr>)" if g: "rl_queue q' = wq_Add k (rl_queue (ms_nsQueue s))"
    using inv_ns_phase [OF assms, of q' k "ms_nsWork s k"] working_add [OF w(2) g]
    by (simp add: awaits_def same subset_insertI)
qed

lemma mapping_inv_step:
  assumes "mapping_step valid ord s s'" "mapping_inv valid s"
  shows "mapping_inv valid s'"
  using assms
proof (induction rule: mapping_step.induct)
  case (quota_deleted obj quota s)
  then show ?case using inv_deleted(1) [of valid s ord "cq_Name quota"] by (auto simp: deleteQuota_def)
next
  case (ns_deleted nobj ns s)
  then show ?case using inv_deleted(2) [of valid s ord "ns_Name ns"] by (auto simp: deleteNamespace_def)
next
  case (quota_gone s k)
  then show ?case using inv_quota_moves(4) [of valid s k] by (simp add: finish_mapping_queue)
next
  case (quota_ends s k err)
  then show ?case using inv_quota_moves(4) [of valid s k] by (simp add: finish_mapping_queue)
next
  case (ns_gone s k)
  then show ?case using inv_ns_moves(3) [of valid s k] by (simp add: finish_mapping_queue)
next
  case (ns_ends s k err)
  then show ?case using inv_ns_moves(3) [of valid s k] by (simp add: finish_mapping_queue)
qed (simp_all add: inv_quota_set inv_ns_set inv_got inv_quota_moves inv_ns_moves inv_quota_visits inv_ns_visits
    inv_quota_completes inv_ns_completes inv_mapping_fires)

lemma mapping_inv_reachable:
  assumes "(mapping_step valid ord)\<^sup>*\<^sup>* mapping_start s"
  shows "mapping_inv valid s"
  using assms by (induction rule: rtranclp_induct) (auto intro: mapping_inv_start mapping_inv_step)

section \<open>At rest\<close>

lemma at_rest_idle:
  assumes "working q ph name" "at_rest q"
  shows "q_dirty (rl_queue q) = {}" "ph k = Resting"
  using assms wq.get_blocks [of "rl_queue q"] by (auto simp: working_def queue_ok_def at_rest_def rl_Get_def)

text \<open>Nothing is awaited, so every pair is right and every quota with a good selector is completed.\<close>

lemma settled:
  assumes "mapping_inv valid s" "at_rest (ms_quotaQueue s)" "at_rest (ms_nsQueue s)"
    and "ms_quotas s q = Some quota" "GetObjectMatcher valid (cq_Selector quota) = Some matcher"
  shows "(q, n) \<in> mapped (ms_mapper s) \<longleftrightarrow> (\<exists>ns. ms_namespaces s n = Some ns \<and> matcher (GetSelectionFields ns))"
    and "completedQuotaToSelector (ms_mapper s) q = Some (cq_Selector quota)"
proof -
  have base: "base_inv s" and scans: "scans_ok valid s" using assms(1) by (simp_all add: mapping_inv_def)
  have req: "requiredQuotaToSelector (ms_mapper s) q = Some (cq_Selector quota)"
    "requiredNamespaceToLabels (ms_mapper s) n = map_option GetSelectionFields (ms_namespaces s n)"
    and inv: "mapper_inv (ms_mapper s)"
    using base assms(4) by (auto simp: base_inv_def)
  have idle: "dirtyQ s = {}" "\<And>k. ms_quotaWork s k = Resting" "dirtyN s = {}" "\<And>k. ms_nsWork s k = Resting"
    using base assms(2,3) at_rest_idle by (auto simp: base_inv_def)
  show "completedQuotaToSelector (ms_mapper s) q = Some (cq_Selector quota)"
    using quotas_okD(2) [OF scans_okD(2) [OF scans] req(1)] assms(5) by (simp add: idle awaits_dirty_resting)
  show "(q, n) \<in> mapped (ms_mapper s) \<longleftrightarrow> (\<exists>ns. ms_namespaces s n = Some ns \<and> matcher (GetSelectionFields ns))"
  proof (cases "ms_namespaces s n")
    case None
    then show ?thesis using mapper_invD(4) [OF inv, of q n] req(2) by auto
  next
    case (Some ns)
    then show ?thesis
      using pairs_okD [OF scans_okD(1) [OF scans] req(1) _ assms(5), of n] req(2) by (simp add: idle awaits_dirty_resting)
  qed
qed

text \<open>What the lookups return then.\<close>

lemma settled_lookups:
  assumes "mapping_inv valid s" "at_rest (ms_quotaQueue s)" "at_rest (ms_nsQueue s)"
    and "ms_quotas s q = Some quota" "GetObjectMatcher valid (cq_Selector quota) = Some matcher"
  shows "GetNamespacesFor q (ms_mapper s) =
      (sorted_list_of_set {n. \<exists>ns. ms_namespaces s n = Some ns \<and> matcher (GetSelectionFields ns)}, cq_Selector quota)"
    and "{n. q \<in> set (fst (GetClusterQuotasFor n (ms_mapper s)))} = {n. \<exists>ns. ms_namespaces s n = Some ns \<and> matcher (GetSelectionFields ns)}"
    and "finite {n. \<exists>ns. ms_namespaces s n = Some ns \<and> matcher (GetSelectionFields ns)}"
proof -
  have m: "mapper_inv (ms_mapper s)" using assms(1) by (simp add: mapping_inv_def base_inv_def)
  note completed = settled(2) [OF assms]
  have eq: "{n. (q, n) \<in> mapped (ms_mapper s)} = {n. \<exists>ns. ms_namespaces s n = Some ns \<and> matcher (GetSelectionFields ns)}"
    using settled(1) [OF assms] by simp
  show "GetNamespacesFor q (ms_mapper s) =
      (sorted_list_of_set {n. \<exists>ns. ms_namespaces s n = Some ns \<and> matcher (GetSelectionFields ns)}, cq_Selector quota)"
    "{n. q \<in> set (fst (GetClusterQuotasFor n (ms_mapper s)))} = {n. \<exists>ns. ms_namespaces s n = Some ns \<and> matcher (GetSelectionFields ns)}"
    using lookups_mapped [OF m] completed eq by (simp_all add: GetNamespacesFor_def)
  show "finite {n. \<exists>ns. ms_namespaces s n = Some ns \<and> matcher (GetSelectionFields ns)}"
    using mapped_slices(1) [OF m, of q] eq by simp
qed


section \<open>A run\<close>

text \<open>
  One quota and one namespace it selects. The quota's worker maps the pair, then the namespace's worker scans the
  quotas.
\<close>

definition ex_keys :: "string list \<Rightarrow> string set \<Rightarrow> rl_queue" where
  "ex_keys ks busy = \<lparr>rl_queue = \<lparr>q_queue = ks, q_dirty = set ks, q_processing = busy, q_shuttingDown = False\<rparr>,
     rl_waiting = [], rl_failures = (\<lambda>_. 0)\<rparr>"

definition ex_mapper :: "(mapper_op list) \<Rightarrow> mapper" where
  "ex_mapper ops = fold (mapper_step sorted_list_of_set) ops NewClusterQuotaMapper"

definition ex_state :: "mapper_op list \<Rightarrow> rl_queue \<Rightarrow> (cluster_quota, namespace) scan_phase \<Rightarrow>
    rl_queue \<Rightarrow> (namespace, cluster_quota) scan_phase \<Rightarrow> mapping_state" where
  "ex_state ops qq qp nq np = \<lparr>ms_quotas = [''q'' \<mapsto> ex_quota], ms_namespaces = [''a'' \<mapsto> ex_selected ''a''], ms_mapper = ex_mapper ops,
     ms_quotaQueue = qq, ms_nsQueue = nq, ms_quotaWork = (\<lambda>_. Resting)(''q'' := qp), ms_nsWork = (\<lambda>_. Resting)(''a'' := np)\<rparr>"

lemma ex_keys_steps:
  "rl_Get (ex_keys [k] {}) = Some (Some k, ex_keys [] {k})"
  "finish_mapping k None (ex_keys [] {k}) = ex_keys [] {}"
  "at_rest (ex_keys [] {})"
  by (auto simp: ex_keys_def rl_Get_def wq_Get_def finish_mapping_def rl_Done_def wq_Done_def Forget_def at_rest_def Let_def fun_eq_iff)

abbreviation ex_known :: "mapper_op list" where
  "ex_known \<equiv> [RequireQuota ex_quota, RequireNamespace (ex_selected ''a'')]"

abbreviation ex_stored :: "mapper_op list" where
  "ex_stored \<equiv> ex_known @ [SetMapping ex_quota (ex_selected ''a'') False]"

lemma ex_matcher:
  "GetObjectMatcher valid (cq_Selector ex_quota) = Some (\<lambda>obj. [''team'' \<mapsto> ''x''] \<subseteq>\<^sub>m sf_Annotations obj)"
  by (simp add: GetObjectMatcher_def ex_selector_def)

abbreviation ex_settled :: "mapper_op list" where
  "ex_settled \<equiv> ex_stored @ [CompleteQuota ex_quota, SetMapping ex_quota (ex_selected ''a'') False]"

text \<open>Both visits find the pair they are to store still required.\<close>

lemma ex_visits:
  "quota_visit (\<lambda>obj. [''team'' \<mapsto> ''x''] \<subseteq>\<^sub>m sf_Annotations obj) get ex_quota (ex_selected ''a'') (ex_mapper ex_known) = (Next, ex_mapper ex_stored)"
  "namespace_visit valid get' (ex_selected ''a'') ex_quota (ex_mapper (ex_stored @ [CompleteQuota ex_quota])) =
     (Next, ex_mapper ex_settled)"
  by (simp_all add: quota_visit_def namespace_visit_def ex_matcher [simplified] ex_mapper_def mapper_defs NewClusterQuotaMapper_def Let_def)

lemma ex_mapping_begin:
  "(mapping_step valid ord)\<^sup>*\<^sup>* mapping_start (ex_state ex_known (ex_keys [''q''] {}) Resting (ex_keys [''a''] {}) Resting)"
proof -
  let ?s = "mapping_start\<lparr>ms_quotas := [''q'' \<mapsto> ex_quota], ms_quotaQueue := ex_keys [''q''] {}, ms_mapper := ex_mapper [RequireQuota ex_quota]\<rparr>"
  have 1: "mapping_step valid ord mapping_start ?s"
    using mapping_step.quota_set [of ex_quota mapping_start "ex_keys [''q''] {}" "ex_mapper [RequireQuota ex_quota]"]
    by (simp add: mapping_start_def enqueueQuota_def ex_keys_def ex_mapper_def mapper_defs NewClusterQuotaMapper_def rl_New_def wq_New_def wq_Add_def)
  have 2: "mapping_step valid ord ?s (ex_state ex_known (ex_keys [''q''] {}) Resting (ex_keys [''a''] {}) Resting)"
    using mapping_step.ns_set [of "ex_selected ''a''" ?s "ex_keys [''a''] {}" "ex_mapper ex_known"]
    by (simp add: mapping_start_def ex_state_def enqueueNamespace_mapping_def ex_keys_def ex_mapper_def mapper_defs NewClusterQuotaMapper_def
        rl_New_def wq_New_def wq_Add_def fun_upd_idem)
  show ?thesis by (rule rtranclp.rtrancl_into_rtrancl [of "mapping_step valid ord", OF r_into_rtranclp [of "mapping_step valid ord", OF 1] 2])
qed

lemma ex_quota_worker:
  "(mapping_step valid ord)\<^sup>*\<^sup>* (ex_state ex_known (ex_keys [''q''] {}) Resting nq Resting)
     (ex_state (ex_stored @ [CompleteQuota ex_quota]) (ex_keys [] {}) Resting nq Resting)"
proof -
  let ?s = "\<lambda>ops qq p. ex_state ops qq p nq Resting" and ?busy = "ex_keys [] {''q''}" and ?ns = "ex_selected ''a''"
  have 1: "mapping_step valid ord (?s ex_known (ex_keys [''q''] {}) Resting) (?s ex_known ?busy Taken)"
    using mapping_step.quota_got [of "?s ex_known (ex_keys [''q''] {}) Resting" "''q''" ?busy] by (simp add: ex_state_def ex_keys_steps)
  have 2: "mapping_step valid ord (?s ex_known ?busy Taken) (?s ex_known ?busy (ReadObj ex_quota))"
    using mapping_step.quota_read [of "?s ex_known ?busy Taken" "''q''" ex_quota] by (simp add: ex_state_def)
  have 3: "mapping_step valid ord (?s ex_known ?busy (ReadObj ex_quota)) (?s ex_known ?busy (Scanning ex_quota [?ns]))"
    using mapping_step.quota_listed [OF _ ex_matcher, of "?s ex_known ?busy (ReadObj ex_quota)" "''q''" "[?ns]"] by (simp add: ex_state_def)
  have 4: "mapping_step valid ord (?s ex_known ?busy (Scanning ex_quota [?ns])) (?s ex_stored ?busy (Scanning ex_quota []))"
    using mapping_step.quota_visits [OF _ ex_matcher, of "?s ex_known ?busy (Scanning ex_quota [?ns])" "''q''" ?ns "[]" Next "ex_mapper ex_stored"]
    by (simp add: ex_state_def ex_visits [simplified])
  have 5: "mapping_step valid ord (?s ex_stored ?busy (Scanning ex_quota [])) (?s (ex_stored @ [CompleteQuota ex_quota]) ?busy (Ending None))"
    using mapping_step.quota_completes [of "?s ex_stored ?busy (Scanning ex_quota [])" "''q''" ex_quota] by (simp add: ex_state_def ex_mapper_def)
  have 6: "mapping_step valid ord (?s (ex_stored @ [CompleteQuota ex_quota]) ?busy (Ending None)) (?s (ex_stored @ [CompleteQuota ex_quota]) (ex_keys [] {}) Resting)"
    using mapping_step.quota_ends [of "?s (ex_stored @ [CompleteQuota ex_quota]) ?busy (Ending None)" "''q''" None] by (simp add: ex_state_def ex_keys_steps)
  note step = converse_rtranclp_into_rtranclp [of "mapping_step valid ord"]
  show ?thesis
    by (rule step [OF 1], rule step [OF 2], rule step [OF 3], rule step [OF 4], rule step [OF 5], rule step [OF 6], rule rtranclp.rtrancl_refl)
qed

lemma ex_ns_worker:
  "(mapping_step valid ord)\<^sup>*\<^sup>* (ex_state (ex_stored @ [CompleteQuota ex_quota]) qq Resting (ex_keys [''a''] {}) Resting)
     (ex_state (ex_settled @ [CompleteNamespace (ex_selected ''a'')]) qq Resting (ex_keys [] {}) Resting)"
proof -
  let ?s = "\<lambda>ops nq p. ex_state ops qq Resting nq p" and ?busy = "ex_keys [] {''a''}" and ?ns = "ex_selected ''a''"
    and ?k = "ex_stored @ [CompleteQuota ex_quota]" and ?e = "ex_settled @ [CompleteNamespace (ex_selected ''a'')]"
  have 1: "mapping_step valid ord (?s ?k (ex_keys [''a''] {}) Resting) (?s ?k ?busy Taken)"
    using mapping_step.ns_got [of "?s ?k (ex_keys [''a''] {}) Resting" "''a''" ?busy] by (simp add: ex_state_def ex_keys_steps)
  have 2: "mapping_step valid ord (?s ?k ?busy Taken) (?s ?k ?busy (ReadObj ?ns))"
    using mapping_step.ns_read [of "?s ?k ?busy Taken" "''a''" ?ns] by (simp add: ex_state_def)
  have 3: "mapping_step valid ord (?s ?k ?busy (ReadObj ?ns)) (?s ?k ?busy (Scanning ?ns [ex_quota]))"
    using mapping_step.ns_listed [of "?s ?k ?busy (ReadObj ?ns)" "''a''" ?ns "[ex_quota]"] by (simp add: ex_state_def)
  have 4: "mapping_step valid ord (?s ?k ?busy (Scanning ?ns [ex_quota])) (?s ex_settled ?busy (Scanning ?ns []))"
    using mapping_step.ns_visits [of "?s ?k ?busy (Scanning ?ns [ex_quota])" "''a''" ?ns ex_quota "[]" valid Next "ex_mapper ex_settled"]
    by (simp add: ex_state_def ex_visits [simplified])
  have 5: "mapping_step valid ord (?s ex_settled ?busy (Scanning ?ns [])) (?s ?e ?busy (Ending None))"
    using mapping_step.ns_completes [of "?s ex_settled ?busy (Scanning ?ns [])" "''a''" ?ns] by (simp add: ex_state_def ex_mapper_def)
  have 6: "mapping_step valid ord (?s ?e ?busy (Ending None)) (?s ?e (ex_keys [] {}) Resting)"
    using mapping_step.ns_ends [of "?s ?e ?busy (Ending None)" "''a''" None] by (simp add: ex_state_def ex_keys_steps)
  note step = converse_rtranclp_into_rtranclp [of "mapping_step valid ord"]
  show ?thesis
    by (rule step [OF 1], rule step [OF 2], rule step [OF 3], rule step [OF 4], rule step [OF 5], rule step [OF 6], rule rtranclp.rtrancl_refl)
qed

definition ex_rest :: mapping_state where
  "ex_rest = ex_state (ex_settled @ [CompleteNamespace (ex_selected ''a'')]) (ex_keys [] {}) Resting (ex_keys [] {}) Resting"

lemma ex_mapping_run: "(mapping_step valid ord)\<^sup>*\<^sup>* mapping_start ex_rest"
  unfolding ex_rest_def by (rule rtranclp_trans [OF rtranclp_trans [OF ex_mapping_begin ex_quota_worker] ex_ns_worker])


end
