(* ===== verification/Quota_Mapping_Work.thy ===== *)
theory Quota_Mapping_Work
  imports Quota_Mapping_Settle
begin

text \<open>
  The workers of the mapping controller are runs of the interleaved steps: a call of \<open>quotaWork\<close> or \<open>namespaceWork\<close>
  that nothing interrupts goes through the steps of one key, from the queue and back.
\<close>

section \<open>A scan\<close>

lemma scan_loop_induct [consumes 1, case_names finished stopped visited]:
  assumes "scan_loop visit todo m = Some r"
    and "\<And>m. P [] m (True, m)"
    and "\<And>x rest m v m'. visit x m = (v, m') \<Longrightarrow> after_visit v rest = None \<Longrightarrow> P (x # rest) m (False, m')"
    and "\<And>x rest m v m' todo' r. visit x m = (v, m') \<Longrightarrow> after_visit v rest = Some todo' \<Longrightarrow> P todo' m' r \<Longrightarrow> P (x # rest) m r"
  shows "P todo m r"
proof -
  have "visit' = visit \<longrightarrow> P todo m r" if loop: "scan_loop visit' todo m = Some r" for visit' todo m r
  proof (rule scan_loop.raw_induct [where P = "\<lambda>visit' todo m r. visit' = visit \<longrightarrow> P todo m r", OF _ loop])
    fix loop visit' todo m r
    assume IH: "\<And>visit' todo m r. loop visit' todo m = Some r \<Longrightarrow> visit' = visit \<longrightarrow> P todo m r"
      and r: "(case todo of [] \<Rightarrow> Some (True, m) | x # rest \<Rightarrow> (case visit' x m of (v, m') \<Rightarrow>
        case after_visit v rest of None \<Rightarrow> Some (False, m') | Some todo' \<Rightarrow> loop visit' todo' m')) = Some r"
    show "visit' = visit \<longrightarrow> P todo m r"
    proof
      assume v: "visit' = visit"
      show "P todo m r"
      proof (cases todo)
        case Nil
        then show ?thesis using r assms(2) by auto
      next
        case (Cons x rest)
        obtain u m' where u: "visit x m = (u, m')" by fastforce
        show ?thesis
        proof (cases "after_visit u rest")
          case None
          then show ?thesis using r Cons u v assms(3) by auto
        next
          case (Some todo')
          then have "loop visit todo' m' = Some r" using r Cons u v by simp
          then have "P todo' m' r" using IH by blast
          then show ?thesis using assms(4) [OF u Some] Cons by blast
        qed
      qed
    qed
  qed
  then show ?thesis using assms(1) by blast
qed

lemma scan_quota_steps:
  assumes "scan_loop (quota_visit matcher (lister_get (ms_namespaces s)) quota) todo m = Some r"
    and "GetObjectMatcher valid (cq_Selector quota) = Some matcher"
  shows "(mapping_step valid ord)\<^sup>*\<^sup>* (s\<lparr>ms_mapper := m, ms_quotaWork := (ms_quotaWork s)(k := Scanning quota todo)\<rparr>)
    (s\<lparr>ms_mapper := snd r, ms_quotaWork := (ms_quotaWork s)(k := Scanning quota [])\<rparr>)"
proof -
  let ?s = "\<lambda>m todo. s\<lparr>ms_mapper := m, ms_quotaWork := (ms_quotaWork s)(k := Scanning quota todo)\<rparr>"
  have step: "mapping_step valid ord (?s m (x # rest)) (?s m' (case after_visit v rest of None \<Rightarrow> [] | Some todo \<Rightarrow> todo))"
    if "quota_visit matcher (lister_get (ms_namespaces s)) quota x m = (v, m')" for x rest m v m'
    using mapping_step.quota_visits [of "?s m (x # rest)" k quota x rest valid matcher v m'] assms(2) that by simp
  from assms(1) show ?thesis
  proof (induction rule: scan_loop_induct)
    case (stopped x rest m v m')
    then show ?case using r_into_rtranclp [of "mapping_step valid ord", OF step [of x m v m' rest]] by (simp add: fun_upd_def)
  next
    case (visited x rest m v m' todo' r)
    show ?case
      by (rule converse_rtranclp_into_rtranclp [of "mapping_step valid ord", OF _ visited(3)]) (use step [of x m v m' rest] visited(1,2) in \<open>simp add: fun_upd_def\<close>)
  qed simp
qed

lemma scan_ns_steps:
  assumes "scan_loop (namespace_visit valid (lister_get (ms_quotas s)) ns) todo m = Some r"
  shows "(mapping_step valid ord)\<^sup>*\<^sup>* (s\<lparr>ms_mapper := m, ms_nsWork := (ms_nsWork s)(k := Scanning ns todo)\<rparr>)
    (s\<lparr>ms_mapper := snd r, ms_nsWork := (ms_nsWork s)(k := if fst r then Scanning ns [] else Ending None)\<rparr>)"
proof -
  let ?s = "\<lambda>m p. s\<lparr>ms_mapper := m, ms_nsWork := (ms_nsWork s)(k := p)\<rparr>"
  have step: "mapping_step valid ord (?s m (Scanning ns (x # rest))) (?s m' (case after_visit v rest of None \<Rightarrow> Ending None | Some todo \<Rightarrow> Scanning ns todo))"
    if "namespace_visit valid (lister_get (ms_quotas s)) ns x m = (v, m')" for x rest m v m'
    using mapping_step.ns_visits [of "?s m (Scanning ns (x # rest))" k ns x rest valid v m'] that by simp
  from assms(1) show ?thesis
  proof (induction rule: scan_loop_induct)
    case (stopped x rest m v m')
    then show ?case using r_into_rtranclp [of "mapping_step valid ord", OF step [of x m v m' rest]] by (simp add: fun_upd_def)
  next
    case (visited x rest m v m' todo' r)
    show ?case
      by (rule converse_rtranclp_into_rtranclp [of "mapping_step valid ord", OF _ visited(3)]) (use step [of x m v m' rest] visited(1,2) in \<open>simp add: fun_upd_def\<close>)
  qed simp
qed

section \<open>A call of a worker\<close>

text \<open>The key a worker gets has no worker.\<close>

lemma got_resting:
  assumes "working q ph name" "rl_Get q = Some (Some k, q')"
  shows "ph k = Resting"
  using assms(1) started_queue(3) [OF _ assms(2)] unfolding working_def by blast

lemma quota_call_steps:
  assumes "ms_quotaWork s k = Taken" "ms_quotas s k = Some quota" "set nss = ran (ms_namespaces s)"
    and "syncQuota valid (Inr nss) (lister_get (ms_namespaces s)) quota (ms_mapper s) = Some (err, m')"
  shows "(mapping_step valid ord)\<^sup>*\<^sup>* s (s\<lparr>ms_mapper := m', ms_quotaQueue := finish_mapping k err (ms_quotaQueue s),
    ms_quotaWork := (ms_quotaWork s)(k := Resting)\<rparr>)"
proof -
  let ?s = "\<lambda>m p. s\<lparr>ms_mapper := m, ms_quotaWork := (ms_quotaWork s)(k := p)\<rparr>" and ?m = "ms_mapper s"
  let ?R = "mapping_step valid ord"
  have 1: "?R s (?s ?m (ReadObj quota))"
    using mapping_step.quota_read [of s k quota valid ord] assms(1,2) by simp
  have ends: "?R (?s m' (Ending err)) (s\<lparr>ms_mapper := m', ms_quotaQueue := finish_mapping k err (ms_quotaQueue s),
      ms_quotaWork := (ms_quotaWork s)(k := Resting)\<rparr>)"
    using mapping_step.quota_ends [of "?s m' (Ending err)" k err valid ord] by simp
  have 2: "?R\<^sup>*\<^sup>* (?s ?m (ReadObj quota)) (?s m' (Ending err))"
  proof (cases "GetObjectMatcher valid (cq_Selector quota)")
    case None
    then have "err = Some BadSelector" "m' = ?m" using assms(4) by (auto simp: syncQuota_def)
    then show ?thesis using mapping_step.quota_bad [of "?s ?m (ReadObj quota)" k quota valid ord] None by (simp add: r_into_rtranclp [of ?R])
  next
    case (Some matcher)
    then obtain r where r: "scan_loop (quota_visit matcher (lister_get (ms_namespaces s)) quota) nss ?m = Some r"
      and e: "err = None" "m' = completeQuota quota (snd r)"
      using assms(4) by (auto simp: syncQuota_def split: prod.splits)
    have a: "?R (?s ?m (ReadObj quota)) (?s ?m (Scanning quota nss))"
      using mapping_step.quota_listed [of "?s ?m (ReadObj quota)" k quota valid matcher nss ord] Some assms(3) by simp
    have b: "?R\<^sup>*\<^sup>* (?s ?m (Scanning quota nss)) (?s (snd r) (Scanning quota []))"
      by (rule scan_quota_steps [OF r Some])
    have c: "?R (?s (snd r) (Scanning quota [])) (?s m' (Ending err))"
      using mapping_step.quota_completes [of "?s (snd r) (Scanning quota [])" k quota valid ord] e by simp
    show ?thesis
      by (rule converse_rtranclp_into_rtranclp [of ?R, OF a]) (rule rtranclp.rtrancl_into_rtrancl [of ?R, OF b c])
  qed
  show ?thesis
    by (rule converse_rtranclp_into_rtranclp [of ?R, OF 1]) (rule rtranclp.rtrancl_into_rtrancl [of ?R, OF 2 ends])
qed

lemma ns_call_steps:
  assumes "ms_nsWork s k = Taken" "ms_namespaces s k = Some ns" "set quotas = ran (ms_quotas s)"
    and "syncNamespace_mapping valid (Inr quotas) (lister_get (ms_quotas s)) ns (ms_mapper s) = Some (err, m')"
  shows "(mapping_step valid ord)\<^sup>*\<^sup>* s (s\<lparr>ms_mapper := m', ms_nsQueue := finish_mapping k err (ms_nsQueue s),
    ms_nsWork := (ms_nsWork s)(k := Resting)\<rparr>)"
proof -
  let ?s = "\<lambda>m p. s\<lparr>ms_mapper := m, ms_nsWork := (ms_nsWork s)(k := p)\<rparr>" and ?m = "ms_mapper s"
  let ?R = "mapping_step valid ord"
  obtain r where r: "scan_loop (namespace_visit valid (lister_get (ms_quotas s)) ns) quotas ?m = Some r"
    and e: "err = None" "m' = (if fst r then completeNamespace ns (snd r) else snd r)"
    using assms(4) by (auto simp: syncNamespace_mapping_def split: prod.splits)
  have 1: "?R s (?s ?m (ReadObj ns))"
    using mapping_step.ns_read [of s k ns valid ord] assms(1,2) by simp
  have 2: "?R (?s ?m (ReadObj ns)) (?s ?m (Scanning ns quotas))"
    using mapping_step.ns_listed [of "?s ?m (ReadObj ns)" k ns quotas valid ord] assms(3) by simp
  have 3: "?R\<^sup>*\<^sup>* (?s ?m (Scanning ns quotas)) (?s (snd r) (if fst r then Scanning ns [] else Ending None))"
    by (rule scan_ns_steps [OF r])
  have 4: "?R\<^sup>*\<^sup>* (?s (snd r) (if fst r then Scanning ns [] else Ending None)) (?s m' (Ending err))"
    using mapping_step.ns_completes [of "?s (snd r) (Scanning ns [])" k ns valid ord] e by (simp add: r_into_rtranclp [of ?R])
  have 5: "?R (?s m' (Ending err)) (s\<lparr>ms_mapper := m', ms_nsQueue := finish_mapping k err (ms_nsQueue s),
      ms_nsWork := (ms_nsWork s)(k := Resting)\<rparr>)"
    using mapping_step.ns_ends [of "?s m' (Ending err)" k err valid ord] by simp
  show ?thesis
    by (rule converse_rtranclp_into_rtranclp [of ?R, OF 1], rule converse_rtranclp_into_rtranclp [of ?R, OF 2])
      (rule rtranclp.rtrancl_into_rtrancl [of ?R, OF rtranclp_trans [of ?R, OF 3 4] 5])
qed

text \<open>
  A call of either worker on a queue that has a key: it returns when the sync does, and gives the key back.
\<close>

lemma mapping_work_cases:
  assumes "queue_ok q" "rl_Get q \<noteq> None" "\<And>obj. \<exists>r. sync obj m = Some r"
  obtains (gone) k q1 where "rl_Get q = Some (Some k, q1)" "store k = None"
      "mapping_work (lister_get store) sync (q, m) = Some (False, rl_Done k (Forget k q1), m)"
  | (synced) k q1 obj err m' where "rl_Get q = Some (Some k, q1)" "store k = Some obj" "sync obj m = Some (err, m')"
      "mapping_work (lister_get store) sync (q, m) = Some (False, finish_mapping k err q1, m')"
proof -
  obtain k q1 where g: "rl_Get q = Some (Some k, q1)"
    using assms(1,2) by (auto simp: queue_ok_def rl_Get_def wq_Get_def split: list.splits if_splits)
  show thesis
  proof (cases "store k")
    case None
    then show thesis using gone [OF g] g by (simp add: mapping_work_def lister_get_def)
  next
    case (Some obj)
    obtain err m' where r: "sync obj m = Some (err, m')" using assms(3) [of obj] by auto
    then show thesis using synced [OF g Some r] g Some by (simp add: mapping_work_def lister_get_def)
  qed
qed


lemma namespaceWork_steps:
  assumes "(mapping_step valid ord)\<^sup>*\<^sup>* mapping_start s" and "set quotas = ran (ms_quotas s)" and "rl_Get (ms_nsQueue s) \<noteq> None"
  shows "\<exists>q' m'. namespaceWork valid (lister_get (ms_namespaces s)) (Inr quotas) (lister_get (ms_quotas s)) (ms_nsQueue s, ms_mapper s) =
      Some (False, q', m') \<and>
    (mapping_step valid ord)\<^sup>*\<^sup>* s (s\<lparr>ms_mapper := m', ms_nsQueue := q'\<rparr>)"
proof -
  let ?R = "mapping_step valid ord" and ?sync = "syncNamespace_mapping valid (Inr quotas) (lister_get (ms_quotas s))"
  have base: "base_inv s" using mapping_inv_reachable [OF assms(1)] by (simp add: mapping_inv_def)
  then have w: "working (ms_nsQueue s) (ms_nsWork s) ns_Name" and q: "queue_ok (ms_nsQueue s)" by (simp_all add: base_inv_def working_def)
  have returns: "\<exists>r. ?sync ns (ms_mapper s) = Some r" for ns
    by (rule syncNamespace_returns) (use base in \<open>auto simp: base_inv_def lister_get_def split: option.splits\<close>)
  from q assms(3) returns show ?thesis
  proof (cases rule: mapping_work_cases [where store = "ms_namespaces s" and sync = ?sync and m = "ms_mapper s"])
    case (gone k q1)
    let ?s = "s\<lparr>ms_nsQueue := q1, ms_nsWork := (ms_nsWork s)(k := Taken)\<rparr>"
    have 1: "?R s ?s" by (rule mapping_step.ns_got [OF gone(1)])
    have 2: "?R ?s (s\<lparr>ms_mapper := ms_mapper s, ms_nsQueue := rl_Done k (Forget k q1)\<rparr>)"
      using mapping_step.ns_gone [of ?s k valid ord] gone got_resting [OF w gone(1)] by (simp add: fun_upd_idem)
    show ?thesis unfolding namespaceWork_def
      using gone(3) rtranclp.rtrancl_into_rtrancl [of ?R, OF r_into_rtranclp [of ?R, OF 1] 2] by blast
  next
    case (synced k q1 ns err m')
    let ?s = "s\<lparr>ms_nsQueue := q1, ms_nsWork := (ms_nsWork s)(k := Taken)\<rparr>"
    have 1: "?R s ?s" by (rule mapping_step.ns_got [OF synced(1)])
    have 2: "?R\<^sup>*\<^sup>* ?s (s\<lparr>ms_mapper := m', ms_nsQueue := finish_mapping k err q1\<rparr>)"
      using ns_call_steps [of ?s k ns quotas valid err m' ord] synced assms(2) got_resting [OF w synced(1)] by (simp add: fun_upd_idem)
    show ?thesis unfolding namespaceWork_def using synced(4) converse_rtranclp_into_rtranclp [of ?R, OF 1 2] by blast
  qed
qed

definition ex_begun :: mapping_state where
  "ex_begun = ex_state ex_known (ex_keys [''q''] {}) Resting (ex_keys [''a''] {}) Resting"


end
