(* ===== verification/Image_Evaluators.thy ===== *)
theory Image_Evaluators
  imports Go_Std Generic_Informers Resource_Lists "HOL-Library.Multiset"
begin

text \<open>
  The quota evaluators for images, \<open>src/pkg/quota/quotaimageexternal\<close>, with the generic object count
  evaluator of the vendored apiserver that \<open>NewReplenishmentEvaluators\<close> adds for image streams.
  Image streams are read through \<open>streams\<close>, a lister by namespace and name.
\<close>

section \<open>Objects\<close>

record image_stream_tag =
  ist_Namespace :: string
  ist_Name :: string

record image_stream_import =
  isi_Namespace :: string
  isi_Name :: string
  isi_Import :: bool
  isi_Images :: nat
  isi_Repository :: bool

datatype runtime_object = ImageStreamTag image_stream_tag | ImageStreamImport image_stream_import | OtherObject

datatype operation = Create | Update | Delete | Connect

definition ResourceImageStreams :: string where
  "ResourceImageStreams = ''openshift.io/imagestreams''"

text \<open>\<open>resource.NewQuantity(n)\<close>, in billionths.\<close>

definition NewQuantity :: "int \<Rightarrow> int" where
  "NewQuantity n = n * 1000000000"

definition ParseImageStreamTagName :: "string \<Rightarrow> string + (string \<times> string)" where
  "ParseImageStreamTagName istag =
     (if CHR ''@'' \<in> set istag then Inl ''is an image stream image''
      else case Split CHR '':'' istag of
             [name, tag] \<Rightarrow> if name = [] \<or> tag = [] then Inl ''must have a name and a tag'' else Inr (name, tag)
           | _ \<Rightarrow> Inl ''expected exactly one : delimiter'')"

text \<open>
  What the two evaluators of virtual resources share: the stream is charged unless the lister returns it
  (any error but \<open>NotFound\<close> is reported, and comes without a stream).
\<close>

definition stream_charge :: "(string \<Rightarrow> string \<Rightarrow> api_error + unit) \<Rightarrow> string \<Rightarrow> string \<Rightarrow> resource_list" where
  "stream_charge streams ns name =
     [ResourceImageStreams \<mapsto> (case streams ns name of Inr _ \<Rightarrow> NewQuantity 0 | Inl _ \<Rightarrow> NewQuantity 1)]"

section \<open>Image stream tags\<close>

definition imageStreamTagResources :: "string list" where
  "imageStreamTagResources = [ResourceImageStreams]"

definition ist_Constraints :: "runtime_object \<Rightarrow> bool" where
  "ist_Constraints object = (case object of ImageStreamTag _ \<Rightarrow> True | _ \<Rightarrow> False)"

definition ist_Handles :: "operation \<Rightarrow> bool" where
  "ist_Handles operation \<longleftrightarrow> operation = Create \<or> operation = Update"

definition ist_MatchingResources :: "string list \<Rightarrow> string list" where
  "ist_MatchingResources input = Intersection input imageStreamTagResources"

definition ist_Usage :: "(string \<Rightarrow> string \<Rightarrow> api_error + unit) \<Rightarrow> runtime_object \<Rightarrow> string + resource_list" where
  "ist_Usage streams item =
     (case item of
        ImageStreamTag ist \<Rightarrow>
          (case ParseImageStreamTagName (ist_Name ist) of
             Inl err \<Rightarrow> Inl err
           | Inr (isName, _) \<Rightarrow> Inr (stream_charge streams (ist_Namespace ist) isName))
      | _ \<Rightarrow> Inr Map.empty)"

definition NewImageStreamTagEvaluator :: "'w evaluator" where
  "NewImageStreamTagEvaluator =
     \<lparr>ev_GroupResource = (''image.openshift.io'', ''imagestreamtags''),
      ev_MatchingResources = ist_MatchingResources,
      ev_UsageStats = (\<lambda>w options. Inr Map.empty)\<rparr>"

section \<open>Image stream imports\<close>

definition imageStreamImportResources :: "string list" where
  "imageStreamImportResources = [ResourceImageStreams]"

definition isi_Constraints :: "runtime_object \<Rightarrow> bool" where
  "isi_Constraints object = (case object of ImageStreamImport _ \<Rightarrow> True | _ \<Rightarrow> False)"

definition isi_Handles :: "operation \<Rightarrow> bool" where
  "isi_Handles operation \<longleftrightarrow> operation = Create"

definition isi_MatchingResources :: "string list \<Rightarrow> string list" where
  "isi_MatchingResources input = Intersection input imageStreamImportResources"

definition isi_Usage :: "(string \<Rightarrow> string \<Rightarrow> api_error + unit) \<Rightarrow> runtime_object \<Rightarrow> string + resource_list" where
  "isi_Usage streams item =
     (case item of
        ImageStreamImport isi \<Rightarrow>
          if \<not> isi_Import isi \<or> (isi_Images isi = 0 \<and> \<not> isi_Repository isi)
          then Inr [ResourceImageStreams \<mapsto> NewQuantity 0]
          else Inr (stream_charge streams (isi_Namespace isi) (isi_Name isi))
      | _ \<Rightarrow> Inl ''item is not an ImageStreamImport'')"

definition NewImageStreamImportEvaluator :: "'w evaluator" where
  "NewImageStreamImportEvaluator =
     \<lparr>ev_GroupResource = (''image.openshift.io'', ''imagestreamimports''),
      ev_MatchingResources = isi_MatchingResources,
      ev_UsageStats = (\<lambda>w options. Inr Map.empty)\<rparr>"

text \<open>
  \<open>Matches\<close> of both: the quota tracks a resource of the evaluator. The scope function of the evaluators
  accepts every scope, so scopes do not matter.
\<close>

definition image_Matches :: "(string set \<Rightarrow> string list) \<Rightarrow> (string list \<Rightarrow> string list) \<Rightarrow> resource_list \<Rightarrow> bool" where
  "image_Matches ord matching statusHard \<longleftrightarrow> matching (ResourceNames ord statusHard) \<noteq> []"

text \<open>Neither evaluator knows scopes.\<close>

definition image_MatchingScopes :: "runtime_object \<Rightarrow> scope_selector \<Rightarrow> string + (string \<times> string \<times> string list) list" where
  "image_MatchingScopes item scopes = Inr []"

definition image_UncoveredQuotaScopes :: "scope_selector \<Rightarrow> scope_selector \<Rightarrow> string + (string \<times> string \<times> string list) list" where
  "image_UncoveredQuotaScopes limitedScopes matchedQuotaScopes = Inr []"

text \<open>The import evaluator has the same three methods of its own.\<close>

definition isi_Matches :: "(string set \<Rightarrow> string list) \<Rightarrow> resource_list \<Rightarrow> bool" where
  "isi_Matches ord statusHard \<longleftrightarrow> isi_MatchingResources (ResourceNames ord statusHard) \<noteq> []"

definition isi_MatchingScopes :: "runtime_object \<Rightarrow> scope_selector \<Rightarrow> string + (string \<times> string \<times> string list) list" where
  "isi_MatchingScopes item scopes = Inr []"

definition isi_UncoveredQuotaScopes :: "scope_selector \<Rightarrow> scope_selector \<Rightarrow> string + (string \<times> string \<times> string list) list" where
  "isi_UncoveredQuotaScopes limitedScopes matchedQuotaScopes = Inr []"

text \<open>Both match exactly the quotas with a limit on image streams.\<close>

lemma image_Matches_iff:
  assumes "set (ord (dom hard)) = dom hard"
  shows "image_Matches ord ist_MatchingResources hard \<longleftrightarrow> ResourceImageStreams \<in> dom hard"
    and "isi_Matches ord hard \<longleftrightarrow> ResourceImageStreams \<in> dom hard"
proof -
  have "Intersection (ord (dom hard)) [ResourceImageStreams] \<noteq> [] \<longleftrightarrow> ResourceImageStreams \<in> dom hard"
    unfolding set_empty [symmetric] set_Intersection assms by auto
  then show "image_Matches ord ist_MatchingResources hard \<longleftrightarrow> ResourceImageStreams \<in> dom hard"
    "isi_Matches ord hard \<longleftrightarrow> ResourceImageStreams \<in> dom hard"
    by (simp_all add: image_Matches_def isi_Matches_def ist_MatchingResources_def isi_MatchingResources_def
        imageStreamTagResources_def imageStreamImportResources_def ResourceNames_def)
qed

section \<open>Counting objects\<close>

definition ObjectCountQuotaResourceNameFor :: "string \<times> string \<Rightarrow> string" where
  "ObjectCountQuotaResourceNameFor gr =
     (case gr of (grp, res) \<Rightarrow> if grp = [] then ''count/'' @ res else ''count/'' @ res @ ''.'' @ grp)"

text \<open>
  \<open>CalculateUsageStats\<close> with \<open>MatchesNoScopeFunc\<close>, which matches no scope: an object counts only for a
  request without scopes.
\<close>

definition count_usage :: "string list \<Rightarrow> usage_options \<Rightarrow> nat \<Rightarrow> resource_list" where
  "count_usage resourceNames options items =
     fold (\<lambda>_ used.
       if uo_Scopes options = [] \<and> (case uo_ScopeSelector options of None \<Rightarrow> True | Some es \<Rightarrow> es = [])
       then rl_Add used (\<lambda>r. if r \<in> set resourceNames then Some (NewQuantity 1) else None) else used)
       [0..<items] (\<lambda>r. if r \<in> set (uo_Resources options) then Some 0 else None)"

definition NewObjectCountEvaluator :: "string \<times> string \<Rightarrow> ('w \<Rightarrow> string \<Rightarrow> string + nat) \<Rightarrow> string \<Rightarrow> 'w evaluator" where
  "NewObjectCountEvaluator groupResource listFuncByNamespace alias =
     (let resourceNames = ObjectCountQuotaResourceNameFor groupResource # (if alias = [] then [] else [alias])
      in \<lparr>ev_GroupResource = groupResource,
          ev_MatchingResources = (\<lambda>input. Intersection input resourceNames),
          ev_UsageStats = (\<lambda>w options.
            case listFuncByNamespace w (uo_Namespace options) of
              Inl err \<Rightarrow> Inl err
            | Inr items \<Rightarrow> Inr (count_usage resourceNames options items))\<rparr>)"

section \<open>The registry\<close>

definition legacyObjectCountAliases :: "(gvr \<times> string) list" where
  "legacyObjectCountAliases =
     [(\<lparr>gv_Group = ''image.openshift.io'', gv_Version = ''v1'', gv_Resource = ''imagestreams''\<rparr>, ResourceImageStreams)]"

text \<open>\<open>listed\<close> is the number of objects of a resource the listers of \<open>f\<close> have in a namespace.\<close>

definition NewReplenishmentEvaluators :: "('w \<Rightarrow> gvr \<Rightarrow> string \<Rightarrow> string + nat) \<Rightarrow> 'w evaluator list" where
  "NewReplenishmentEvaluators listed =
     [NewImageStreamTagEvaluator, NewImageStreamImportEvaluator] @
     map (\<lambda>(gvr, alias). NewObjectCountEvaluator (gv_Group gvr, gv_Resource gvr) (\<lambda>w. listed w gvr) alias)
       legacyObjectCountAliases"

section \<open>Usage of image streams\<close>

definition evaluator_used :: "'w \<Rightarrow> string \<Rightarrow> string list \<Rightarrow> scope_selector \<Rightarrow> string list \<Rightarrow> 'w evaluator \<Rightarrow> string + resource_list" where
  "evaluator_used w ns scopes ss ms ev =
     (let inter = ev_MatchingResources ev ms
      in if inter = [] then Inr Map.empty
         else ev_UsageStats ev w \<lparr>uo_Namespace = ns, uo_Scopes = scopes, uo_Resources = inter, uo_ScopeSelector = ss\<rparr>)"

lemma usage_loop_all_ok:
  assumes "\<And>ev. ev \<in> set evs \<Longrightarrow> evaluator_used w ns scopes ss ms ev = Inr (used ev)"
  shows "\<exists>u'. usage_loop w ns scopes ss evs (ms, es, u) = (ms, es, u') \<and>
    (\<forall>r. amount u' r = amount u r + (\<Sum>ev \<leftarrow> evs. amount (used ev) r))"
  using assms
proof (induction evs arbitrary: u)
  case (Cons ev evs)
  let ?inter = "ev_MatchingResources ev ms"
  have ok: "evaluator_used w ns scopes ss ms ev = Inr (used ev)" using Cons.prems by simp
  have rest: "evaluator_used w ns scopes ss ms ev' = Inr (used ev')" if "ev' \<in> set evs" for ev' using Cons.prems that by simp
  show ?case
  proof (cases "?inter = []")
    case True
    then have "used ev = Map.empty" using ok by (simp add: evaluator_used_def)
    then show ?thesis using True Cons.IH [OF rest, of u] by simp
  next
    case False
    then show ?thesis
      using ok Cons.IH [OF rest, of "rl_Add u (used ev)"] by (auto simp: evaluator_used_def Let_def)
  qed
qed auto

lemma count_usage_amount:
  "r \<in> set names \<Longrightarrow> uo_Scopes opts = [] \<Longrightarrow> uo_ScopeSelector opts = None \<Longrightarrow>
   amount (count_usage names opts n) r = NewQuantity (int n)"
proof -
  assume r: "r \<in> set names" and o1: "uo_Scopes opts = []" "uo_ScopeSelector opts = None"
  have one: "amount (\<lambda>r. if r \<in> set names then Some (NewQuantity 1) else None) r = NewQuantity 1"
    by (simp add: r amount_def)
  have "amount (fold (\<lambda>_ used. rl_Add used (\<lambda>r. if r \<in> set names then Some (NewQuantity 1) else None)) (xs :: nat list) u) r =
      amount u r + NewQuantity (int (length xs))" for xs u
    by (induction xs arbitrary: u) (simp_all add: one NewQuantity_def algebra_simps)
  then show "amount (count_usage names opts n) r = NewQuantity (int n)"
    by (simp add: count_usage_def o1) (simp add: amount_def)
qed

lemma tag_import_used:
  "evaluator_used w ns scopes ss ms NewImageStreamTagEvaluator = Inr Map.empty"
  "evaluator_used w ns scopes ss ms NewImageStreamImportEvaluator = Inr Map.empty"
  by (simp_all add: evaluator_used_def NewImageStreamTagEvaluator_def NewImageStreamImportEvaluator_def Let_def)

abbreviation streams_gvr :: gvr where
  "streams_gvr \<equiv> \<lparr>gv_Group = ''image.openshift.io'', gv_Version = ''v1'', gv_Resource = ''imagestreams''\<rparr>"

text \<open>C35: The usage of image streams is their number. For a quota without scopes that limits
  \<open>openshift.io/imagestreams\<close>, with the replenishment evaluators in any order the registry may list them,
  the calculation succeeds and finds exactly as many image streams as the namespace has: the virtual
  resources (tags and imports) match the limit too, but add nothing.\<close>

theorem imagestream_usage_is_count:
  assumes "mset evs = mset (NewReplenishmentEvaluators listed)" and "listed w streams_gvr ns = Inr n"
    and "finite (dom hard)" and "ResourceImageStreams \<in> dom hard"
    and "\<forall>A. finite A \<longrightarrow> set (ord A) = A"
    and "CalculateUsage ord w ns [] hard evs None = (usage, errors)"
  shows "errors = [] \<and> amount usage ResourceImageStreams = NewQuantity (int n)"
proof -
  let ?counter = "NewObjectCountEvaluator (''image.openshift.io'', ''imagestreams'') (\<lambda>w. listed w streams_gvr) ResourceImageStreams"
  let ?hard = "ResourceNames ord hard"
  let ?ms = "Intersection ?hard (concat (map (\<lambda>ev. ev_MatchingResources ev ?hard) evs))"
  have evs: "mset evs = mset [NewImageStreamTagEvaluator, NewImageStreamImportEvaluator, ?counter]"
    using assms(1) by (simp add: NewReplenishmentEvaluators_def legacyObjectCountAliases_def)
  then have set_evs: "set evs = {NewImageStreamTagEvaluator, NewImageStreamImportEvaluator, ?counter}"
    by (metis mset_eq_setD list.simps(15) empty_set)
  have hard: "set ?hard = dom hard" using assms(3,5) by (simp add: ResourceNames_def)
  have "ResourceImageStreams \<in> set (ist_MatchingResources ?hard)"
    using hard assms(4) by (simp add: ist_MatchingResources_def imageStreamTagResources_def)
  then have tracked: "ResourceImageStreams \<in> set ?ms"
    using hard assms(4) set_evs by (auto simp: NewImageStreamTagEvaluator_def)
  then have "Intersection ?ms [ObjectCountQuotaResourceNameFor (''image.openshift.io'', ''imagestreams''), ResourceImageStreams] \<noteq> []"
    by (metis IntI empty_iff empty_set list.set_intros(1,2) set_Intersection)
  then obtain cu where cu: "evaluator_used w ns [] None ?ms ?counter = Inr cu" "amount cu ResourceImageStreams = NewQuantity (int n)"
    using assms(2) count_usage_amount [of ResourceImageStreams]
    by (simp add: evaluator_used_def NewObjectCountEvaluator_def Let_def ResourceImageStreams_def)
  define used where "used ev = (if ev = ?counter then cu else Map.empty)" for ev
  have "evaluator_used w ns [] None ?ms ev = Inr (used ev)" if "ev \<in> set evs" for ev
    using that cu tag_import_used unfolding set_evs used_def by auto
  from usage_loop_all_ok [OF this, where es = "[]" and u = Map.empty] obtain u' where
    run: "usage_loop w ns [] None evs (?ms, [], Map.empty) = (?ms, [], u')"
    and sum: "\<And>r. amount u' r = (\<Sum>ev \<leftarrow> evs. amount (used ev) r)" by auto
  have "(\<Sum>ev \<leftarrow> evs. amount (used ev) r) =
      (\<Sum>ev \<leftarrow> [NewImageStreamTagEvaluator, NewImageStreamImportEvaluator, ?counter]. amount (used ev) r)" for r
    by (simp only: sum_mset_sum_list [symmetric] mset_map evs)
  moreover have "NewImageStreamTagEvaluator \<noteq> ?counter" "NewImageStreamImportEvaluator \<noteq> ?counter"
    by (simp_all add: NewImageStreamTagEvaluator_def NewImageStreamImportEvaluator_def NewObjectCountEvaluator_def Let_def)
  then have "used NewImageStreamTagEvaluator = Map.empty" "used NewImageStreamImportEvaluator = Map.empty" "used ?counter = cu"
    by (simp_all only: used_def if_False if_True refl)
  ultimately have "amount u' ResourceImageStreams = NewQuantity (int n)"
    by (simp only: sum list.map sum_list.Cons sum_list.Nil cu(2) amount_simps add_0 add_0_right)
  then show ?thesis
    using assms(6) run tracked by (auto simp: CalculateUsage_def Let_def amount_Mask)
qed

theorem imagestream_usage_is_count_witness:
  "case CalculateUsage sorted_list_of_set () ''a'' [] [ResourceImageStreams \<mapsto> NewQuantity 5]
     (NewReplenishmentEvaluators (\<lambda>_ _ _. Inr 2)) None of
   (usage, errors) \<Rightarrow> errors = [] \<and> amount usage ResourceImageStreams = NewQuantity 2"
proof -
  let ?evs = "NewReplenishmentEvaluators (\<lambda>_ _ _. Inr 2) :: unit evaluator list"
  obtain usage errors where
    run: "CalculateUsage sorted_list_of_set () ''a'' [] [ResourceImageStreams \<mapsto> NewQuantity 5] ?evs None = (usage, errors)"
    by (cases "CalculateUsage sorted_list_of_set () ''a'' [] [ResourceImageStreams \<mapsto> NewQuantity 5] ?evs None")
  show ?thesis
    using imagestream_usage_is_count [OF refl _ _ _ _ run, where n = 2] run by simp
qed

section \<open>Charges of tags and imports\<close>

lemma ParseImageStreamTagName_pair:
  assumes "name \<noteq> []" and "tag \<noteq> []" and "CHR '':'' \<notin> set (name @ tag)" and "CHR ''@'' \<notin> set (name @ tag)"
  shows "ParseImageStreamTagName (name @ CHR '':'' # tag) = Inr (name, tag)"
proof -
  have "Split CHR '':'' (name @ CHR '':'' # tag) = [name, tag]"
    using assms(3) by (simp add: go_std)
  then show ?thesis using assms by (auto simp: ParseImageStreamTagName_def)
qed

text \<open>A tag costs one image stream exactly when its stream cannot be read.\<close>

lemma ist_Usage_charge:
  assumes "name \<noteq> []" and "tag \<noteq> []" and "CHR '':'' \<notin> set (name @ tag)" and "CHR ''@'' \<notin> set (name @ tag)"
  shows "\<exists>used. ist_Usage streams (ImageStreamTag \<lparr>ist_Namespace = ns, ist_Name = name @ CHR '':'' # tag\<rparr>) = Inr used \<and>
    amount used ResourceImageStreams = (case streams ns name of Inr _ \<Rightarrow> 0 | Inl _ \<Rightarrow> NewQuantity 1)"
  by (simp add: ist_Usage_def ParseImageStreamTagName_pair [OF assms] stream_charge_def amount_def NewQuantity_def split: sum.splits)

end
