(* ===== verification/Quota_Start.thy ===== *)
theory Quota_Start
  imports Complex_Main Image_Evaluators Quota_Run
begin

text \<open>
  How the two quota controllers are put together, \<open>RunResourceQuotaManager\<close> and
  \<open>RunClusterQuotaReconciliationController\<close> of \<open>src/pkg/cmd/controller/quota.go\<close>, over the evaluator registry
  of the vendored apiserver. The quota configuration of Kubernetes (its evaluators and ignored resources) and
  the construction of the vendored resource quota controller are parameters.
\<close>

section \<open>The registry of evaluators\<close>

type_synonym 'w registry = "string \<times> string \<rightharpoonup> 'w evaluator"

definition registry_Add :: "'w evaluator \<Rightarrow> 'w registry \<Rightarrow> 'w registry" where
  "registry_Add e r = r(ev_GroupResource e \<mapsto> e)"

definition NewRegistry :: "'w evaluator list \<Rightarrow> 'w registry" where
  "NewRegistry evaluators = fold registry_Add evaluators Map.empty"

definition registry_has :: "'w registry \<Rightarrow> string \<times> string \<Rightarrow> bool" where
  "registry_has r gr \<longleftrightarrow> r gr \<noteq> None"

section \<open>Starting the controllers\<close>

record 'w quota_configuration =
  qc_Evaluators :: "'w evaluator list"
  qc_IgnoredResources :: "(string \<times> string) set"

text \<open>
  \<open>calculateResyncPeriod\<close>: \<open>r\<close> is what \<open>rand.Float64\<close> returns, a number of at least 0 and below 1. The rounding of
  the floating point product is not modelled; the conversion to a duration truncates.
\<close>

definition calculateResyncPeriod :: "int \<Rightarrow> rat \<Rightarrow> int" where
  "calculateResyncPeriod period r = \<lfloor>of_int period * (r + 1)\<rfloor>"

lemma calculateResyncPeriod_bounds:
  assumes "0 \<le> r" "r < 1" "0 < period"
  shows "period \<le> calculateResyncPeriod period r \<and> calculateResyncPeriod period r < 2 * period"
proof -
  have "0 \<le> of_int period * r" using assms by simp
  then have "of_int period \<le> of_int period * (r + 1)" by (simp add: algebra_simps)
  moreover have "of_int period * r < of_int period * 1" using assms by (intro mult_strict_left_mono) simp_all
  then have "of_int period * (r + 1) < of_int (2 * period)" by (simp add: algebra_simps)
  ultimately show ?thesis by (simp add: calculateResyncPeriod_def le_floor_iff floor_less_iff)
qed

text \<open>
  \<open>NewController\<close> of the vendored resource quota controller gets the registry, the ignored resources and
  what its discovery function returns at the start. The workers and the registry are part of the result.
\<close>

definition RunResourceQuotaManager :: "int \<Rightarrow> 'e + 'w quota_configuration \<Rightarrow> ('w \<Rightarrow> gvr \<Rightarrow> string \<Rightarrow> string + nat) \<Rightarrow>
    api_resource_list list \<times> discovery_error option \<Rightarrow>
    ('w registry \<Rightarrow> (string \<times> string) set \<Rightarrow> api_resource_list list \<times> discovery_error option \<Rightarrow> 'e + 'c) \<Rightarrow>
    bool \<times> ('e + ('c \<times> 'w registry \<times> int))" where
  "RunResourceQuotaManager concurrentResourceQuotaSyncs quotaConfiguration listed discovered newController =
     (case quotaConfiguration of
        Inl err \<Rightarrow> (True, Inl err)
      | Inr qc \<Rightarrow>
          let resourceQuotaRegistry = NewRegistry (NewReplenishmentEvaluators listed)
          in case newController resourceQuotaRegistry (qc_IgnoredResources qc)
                   (resourceQuotaDiscoveryWrapper (registry_has resourceQuotaRegistry) discovered) of
               Inl err \<Rightarrow> (True, Inl err)
             | Inr ctrl \<Rightarrow> (True, Inr (ctrl, resourceQuotaRegistry, concurrentResourceQuotaSyncs)))"

definition RunClusterQuotaReconciliationController :: "'e + 'w quota_configuration \<Rightarrow>
    ('w \<Rightarrow> gvr \<Rightarrow> string \<Rightarrow> string + nat) \<Rightarrow> (gvr \<Rightarrow> bool) \<Rightarrow> gvr set \<times> discovery_error option \<Rightarrow>
    (discovery_error \<Rightarrow> 'e) \<Rightarrow> bool \<times> ('e + (quota_queue \<times> quota_monitor \<times> 'w registry))" where
  "RunClusterQuotaReconciliationController quotaConfiguration listed can_start discovered wrap =
     (case quotaConfiguration of
        Inl err \<Rightarrow> (True, Inl err)
      | Inr qc \<Rightarrow>
          let resourceQuotaRegistry = fold registry_Add (NewReplenishmentEvaluators listed) (NewRegistry (qc_Evaluators qc))
          in case NewClusterQuotaReconcilationController can_start (qc_IgnoredResources qc) discovered of
               Inl err \<Rightarrow> (True, Inl (wrap err))
             | Inr (wq, monitor) \<Rightarrow> (True, Inr (wq, qm_Run monitor, resourceQuotaRegistry)))"

section \<open>What is evaluated and monitored\<close>

lemma dom_registry: "dom (fold registry_Add evs r) = dom r \<union> ev_GroupResource ` set evs"
  by (induction evs arbitrary: r) (simp_all add: registry_Add_def)

lemma replenishment_resources:
  "ev_GroupResource ` set (NewReplenishmentEvaluators listed) =
     {(''image.openshift.io'', ''imagestreamtags''), (''image.openshift.io'', ''imagestreamimports''),
      (''image.openshift.io'', ''imagestreams'')}"
  by (simp add: NewReplenishmentEvaluators_def legacyObjectCountAliases_def NewImageStreamTagEvaluator_def
      NewImageStreamImportEvaluator_def NewObjectCountEvaluator_def Let_def)

lemma NewRegistry_has: "registry_has (NewRegistry evs) gr \<longleftrightarrow> gr \<in> ev_GroupResource ` set evs"
  using dom_registry [of evs Map.empty] unfolding registry_has_def NewRegistry_def by (metis domIff dom_empty sup_bot_left)

text \<open>
  The registry of the resource quota manager knows the three image resources only, so its discovery never
  reports a list without one of them.
\<close>

lemma manager_discovers_images:
  assumes "resourceQuotaDiscoveryWrapper (registry_has (NewRegistry (NewReplenishmentEvaluators listed))) discovered = (out, err)"
    and "l \<in> set out"
  shows "\<exists>v. ParseGroupVersion (arl_GroupVersion l) = Inr (''image.openshift.io'', v) \<and>
    (\<exists>name \<in> set (arl_APIResources l). name \<in> {''imagestreamtags'', ''imagestreamimports'', ''imagestreams''})"
proof -
  let ?has = "registry_has (NewRegistry (NewReplenishmentEvaluators listed))"
  obtain ls e where d: "discovered = (ls, e)" by (cases discovered)
  then obtain "interesting_loop ?has [] ls = Inr out"
    using assms by (auto simp: resourceQuotaDiscoveryWrapper_def split: sum.splits if_splits)
  note out = interesting_loop_set [OF this]
  obtain g v name where p: "ParseGroupVersion (arl_GroupVersion l) = Inr (g, v)"
    "name \<in> set (arl_APIResources l)" "?has (g, name)"
    using assms(2) unfolding out list.set Un_iff mem_Collect_eq by blast
  have "(g, name) \<in> ev_GroupResource ` set (NewReplenishmentEvaluators listed)"
    using p(3) by (simp only: NewRegistry_has)
  then have "g = ''image.openshift.io'' \<and> name \<in> {''imagestreamtags'', ''imagestreamimports'', ''imagestreams''}"
    unfolding replenishment_resources by blast
  then show ?thesis using p(1,2) by blast
qed

text \<open>
  The registry of the cluster quota controller has the evaluators of Kubernetes and those for images, which
  win where both have one; its monitors of the resources found at the start run at once.
\<close>

lemma cluster_quota_started:
  assumes "RunClusterQuotaReconciliationController (Inr qc) listed can_start (resources, err) wrap = (b, Inr (q, qm, reg))"
  shows "dom reg = ev_GroupResource ` (set (qc_Evaluators qc) \<union> set (NewReplenishmentEvaluators listed)) \<and>
    (\<forall>e \<in> set (NewReplenishmentEvaluators listed). reg (ev_GroupResource e) = Some e) \<and>
    qm_started qm = qm_monitors qm \<and>
    qm_monitors qm = {r \<in> resources. (gv_Group r, gv_Resource r) \<notin> qc_IgnoredResources qc \<and> can_start r}"
proof -
  let ?img = "NewReplenishmentEvaluators listed"
  obtain m where n: "NewClusterQuotaReconcilationController can_start (qc_IgnoredResources qc) (resources, err) = Inr (q, m)"
    "qm = qm_Run m" "reg = fold registry_Add ?img (NewRegistry (qc_Evaluators qc))"
    using assms by (auto simp: RunClusterQuotaReconciliationController_def Let_def split: sum.splits)
  have m: "m = snd (SyncMonitors can_start \<lparr>qm_monitors = {}, qm_started = {}, qm_ignored = qc_IgnoredResources qc, qm_running = False\<rparr> resources)"
    using n(1) by (auto simp: NewClusterQuotaReconcilationController_def Let_def split: option.splits discovery_error.splits)
  have "dom reg = ev_GroupResource ` (set (qc_Evaluators qc) \<union> set ?img)"
    unfolding n(3) NewRegistry_def by (simp add: dom_registry image_Un)
  moreover have "reg (ev_GroupResource e) = Some e" if "e \<in> set ?img" for e
    using that unfolding n(3) by (auto simp: NewReplenishmentEvaluators_def legacyObjectCountAliases_def registry_Add_def
        NewImageStreamTagEvaluator_def NewImageStreamImportEvaluator_def NewObjectCountEvaluator_def Let_def)
  moreover have "qm_started qm = qm_monitors qm" by (simp add: n(2) qm_Run_def StartMonitors_def)
  moreover have "qm_monitors qm = {r \<in> resources. (gv_Group r, gv_Resource r) \<notin> qc_IgnoredResources qc \<and> can_start r}"
    unfolding n(2) m by (simp add: qm_Run_def StartMonitors_def SyncMonitors_def ignored_def Let_def)
  ultimately show ?thesis by blast
qed

end
