(* ===== verification/Expansion.thy ===== *)
theory Expansion
  imports Prelude
begin

text \<open>
  Expansion of variable references, \<open>src/pkg/build/controller/common/internal/expansion/expand.go\<close>.
  A Go string is a sequence of bytes, here a list of characters with codes below 256. \<open>Expand\<close> runs over
  the input with a cursor and a checkpoint, the end of what has been copied; the loop is modelled with
  both indices, and compared with a recursive reading of the expansion syntax.
\<close>

definition operator :: char where "operator = CHR ''$''"
definition referenceOpener :: char where "referenceOpener = CHR ''(''"
definition referenceCloser :: char where "referenceCloser = CHR '')''"

definition syntaxWrap :: "string \<Rightarrow> string" where
  "syntaxWrap input = [operator] @ [referenceOpener] @ input @ [referenceCloser]"

fun MappingFuncFor :: "(string \<rightharpoonup> string) list \<Rightarrow> string \<Rightarrow> string" where
  "MappingFuncFor [] input = syntaxWrap input"
| "MappingFuncFor (vars # context) input =
     (case vars input of Some val \<Rightarrow> val | None \<Rightarrow> MappingFuncFor context input)"

text \<open>\<open>string(b)\<close> of a byte: the UTF-8 encoding of the code point \<open>b\<close>, two bytes from 128 on.\<close>

definition string_of_byte :: "char \<Rightarrow> string" where
  "string_of_byte b =
     (let n = of_char b :: nat
      in if n < 128 then [b] else [char_of (192 + n div 64), char_of (128 + n mod 64)])"

text \<open>The index of the first \<open>referenceCloser\<close> from position \<open>i\<close> on.\<close>

fun find_closer :: "nat \<Rightarrow> string \<Rightarrow> nat option" where
  "find_closer i [] = None"
| "find_closer i (c # s) = (if c = referenceCloser then Some i else find_closer (i + 1) s)"

text \<open>The string read, whether it is a variable name, and the bytes consumed; \<open>input[0]\<close> of an empty
  input panics (\<open>None\<close>).\<close>

definition tryReadVariableName :: "string \<Rightarrow> (string \<times> bool \<times> nat) option" where
  "tryReadVariableName input =
     (case input of
        [] \<Rightarrow> None
      | c # rest \<Rightarrow>
          if c = operator then Some ([c], False, 1)
          else if c = referenceOpener then
            (case find_closer 1 rest of
               Some i \<Rightarrow> Some (take (i - 1) (drop 1 input), True, i + 1)
             | None \<Rightarrow> Some ([operator, referenceOpener], False, 1))
          else Some ([operator] @ string_of_byte c, False, 1))"

text \<open>The slice \<open>s[a:b]\<close>, which panics unless \<open>a \<le> b \<le> len(s)\<close>.\<close>

definition slice :: "string \<Rightarrow> nat \<Rightarrow> nat \<Rightarrow> string option" where
  "slice s a b = (if a \<le> b \<and> b \<le> length s then Some (take (b - a) (drop a s)) else None)"

function Expand_loop :: "string \<Rightarrow> (string \<Rightarrow> string) \<Rightarrow> nat \<Rightarrow> nat \<Rightarrow> string \<Rightarrow> string option" where
  "Expand_loop input mapping cursor checkpoint buf =
     (if cursor < length input then
        if input ! cursor = operator \<and> cursor + 1 < length input then
          (case (slice input checkpoint cursor, slice input (cursor + 1) (length input)) of
             (Some copied, Some after) \<Rightarrow>
               (case tryReadVariableName after of
                  None \<Rightarrow> None
                | Some (read, isVar, advance) \<Rightarrow>
                    Expand_loop input mapping (cursor + advance + 1) (cursor + advance + 1)
                      (buf @ copied @ (if isVar then mapping read else read)))
           | _ \<Rightarrow> None)
        else Expand_loop input mapping (cursor + 1) checkpoint buf
      else map_option (\<lambda>rest. buf @ rest) (slice input checkpoint (length input)))"
  by pat_completeness auto
termination
  by (relation "measure (\<lambda>(input, _, cursor, _, _). length input - cursor)") auto

declare Expand_loop.simps [simp del]

text \<open>The result, \<open>None\<close> for a panic.\<close>

definition Expand :: "string \<Rightarrow> (string \<Rightarrow> string) \<Rightarrow> string option" where
  "Expand input mapping = Expand_loop input mapping 0 0 []"

section \<open>The expansion syntax\<close>

text \<open>Splitting at the first closing parenthesis.\<close>

fun until_closer :: "string \<Rightarrow> (string \<times> string) option" where
  "until_closer [] = None"
| "until_closer (c # s) =
     (if c = referenceCloser then Some ([], s)
      else map_option (\<lambda>(name, rest). (c # name, rest)) (until_closer s))"

lemma until_closer_length: "until_closer s = Some (name, rest) \<Longrightarrow> length rest < length s"
  by (induction s arbitrary: name) (auto split: if_splits)

text \<open>
  \<open>$$\<close> is an escaped operator, \<open>$(name)\<close> a reference, an operator before anything else stands for itself,
  and so does a trailing one.
\<close>

function expand_spec :: "(string \<Rightarrow> string) \<Rightarrow> string \<Rightarrow> string" where
  "expand_spec m [] = []"
| "expand_spec m [c] = [c]"
| "expand_spec m (c # d # s) =
     (if c \<noteq> CHR ''$'' then c # expand_spec m (d # s)
      else if d = CHR ''$'' then CHR ''$'' # expand_spec m s
      else if d = CHR ''('' then
        (case until_closer s of
           Some (name, rest) \<Rightarrow> m name @ expand_spec m rest
         | None \<Rightarrow> CHR ''$'' # CHR ''('' # expand_spec m s)
      else CHR ''$'' # string_of_byte d @ expand_spec m s)"
  by pat_completeness auto
termination
  by (relation "measure (\<lambda>(m, s). length s)") (auto dest: until_closer_length)

section \<open>Correctness\<close>

lemma find_closer_until:
  "find_closer i s = (case until_closer s of Some (name, _) \<Rightarrow> Some (i + length name) | None \<Rightarrow> None)"
  by (induction s arbitrary: i) (auto split: option.splits)

lemma until_closer_parts: "until_closer s = Some (name, rest) \<Longrightarrow> s = name @ referenceCloser # rest"
  by (induction s arbitrary: name) (auto split: if_splits)

lemma expand_spec_copy: "operator \<notin> set s \<Longrightarrow> expand_spec m (s @ t) = s @ expand_spec m t"
proof (induction s)
  case (Cons c s)
  then have "c \<noteq> CHR ''$''" by (auto simp: operator_def)
  then show ?case using Cons by (cases "s @ t") auto
qed simp

text \<open>One turn of the loop at an operator that has a successor.\<close>

lemma tryRead_spec:
  "\<exists>read isVar advance. tryReadVariableName (d # s) = Some (read, isVar, advance) \<and> advance \<le> length (d # s) \<and>
     expand_spec m (operator # d # s) = (if isVar then m read else read) @ expand_spec m (drop advance (d # s))"
proof (cases "until_closer s")
  case (Some p)
  obtain name rest where p: "p = (name, rest)" by (cases p)
  then have "s = name @ referenceCloser # rest" using Some until_closer_parts by simp
  then show ?thesis
    using Some p by (auto simp: tryReadVariableName_def find_closer_until operator_def referenceOpener_def)
qed (auto simp: tryReadVariableName_def find_closer_until operator_def referenceOpener_def)

text \<open>The step at an operator, and the end of an input whose last character is one.\<close>

lemma Expand_loop_operator:
  assumes "cursor + 1 < length input" "input ! cursor = operator" "checkpoint \<le> cursor"
    and "drop (cursor + 1) input = s" and "tryReadVariableName s = Some (read, isVar, advance)"
  shows "slice input checkpoint cursor = Some (take (cursor - checkpoint) (drop checkpoint input))"
    and "slice input (cursor + 1) (length input) = Some s"
    and "Expand_loop input m cursor checkpoint buf =
      Expand_loop input m (cursor + advance + 1) (cursor + advance + 1)
        (buf @ take (cursor - checkpoint) (drop checkpoint input) @ (if isVar then m read else read))"
proof -
  show sl: "slice input checkpoint cursor = Some (take (cursor - checkpoint) (drop checkpoint input))"
    "slice input (cursor + 1) (length input) = Some s"
    using assms(1,3,4) by (auto simp: slice_def)
  show "Expand_loop input m cursor checkpoint buf =
      Expand_loop input m (cursor + advance + 1) (cursor + advance + 1)
        (buf @ take (cursor - checkpoint) (drop checkpoint input) @ (if isVar then m read else read))"
    using assms(1,2,5) by (subst Expand_loop.simps) (simp add: sl [unfolded Suc_eq_plus1 [symmetric]])
qed

lemma Expand_loop_final_operator:
  assumes "cursor + 1 = length input" "input ! cursor = operator" "checkpoint \<le> cursor"
    and "operator \<notin> set (take (cursor - checkpoint) (drop checkpoint input))"
  shows "Expand_loop input m (cursor + 1) checkpoint buf = Some (buf @ expand_spec m (drop checkpoint input))"
proof -
  have "drop cursor input = [operator]" using assms(1,2) by (metis Cons_nth_drop_Suc Suc_eq_plus1 drop_all lessI order_refl)
  then have "drop checkpoint input = take (cursor - checkpoint) (drop checkpoint input) @ [operator]"
    using assms(3) by (metis append_take_drop_id drop_drop le_add_diff_inverse2)
  then have "expand_spec m (drop checkpoint input) = drop checkpoint input"
    using expand_spec_copy [OF assms(4), of m "[operator]"] by simp
  moreover have "Expand_loop input m (cursor + 1) checkpoint buf = Some (buf @ drop checkpoint input)"
    using assms(1,3) by (subst Expand_loop.simps) (simp add: slice_def)
  ultimately show ?thesis by simp
qed

lemma Expand_loop_spec:
  "cursor \<le> length input \<Longrightarrow> checkpoint \<le> cursor \<Longrightarrow>
   operator \<notin> set (take (cursor - checkpoint) (drop checkpoint input)) \<Longrightarrow>
   Expand_loop input m cursor checkpoint buf = Some (buf @ expand_spec m (drop checkpoint input))"
proof (induction input m cursor checkpoint buf rule: Expand_loop.induct)
  case (1 input m cursor checkpoint buf)
  let ?copied = "take (cursor - checkpoint) (drop checkpoint input)"
  have split: "drop checkpoint input = ?copied @ drop cursor input"
    using "1.prems"(2) by (metis append_take_drop_id drop_drop le_add_diff_inverse2)
  consider (op) "cursor + 1 < length input" "input ! cursor = operator"
    | (char) "cursor < length input" "input ! cursor \<noteq> operator \<or> cursor + 1 = length input"
    | (finish) "cursor = length input"
    using "1.prems"(1) by linarith
  then show ?case
  proof cases
    case op
    obtain d s where ds: "drop (cursor + 1) input = d # s" using op(1) by (metis Cons_nth_drop_Suc)
    then have cur: "drop cursor input = operator # d # s" using op by (metis Cons_nth_drop_Suc Suc_eq_plus1 add_lessD1)
    obtain read isVar advance where rd: "tryReadVariableName (d # s) = Some (read, isVar, advance)"
      "advance \<le> length (d # s)"
      "expand_spec m (operator # d # s) = (if isVar then m read else read) @ expand_spec m (drop advance (d # s))"
      using tryRead_spec by blast
    let ?next = "cursor + advance + 1"
    have len: "?next \<le> length input" using rd(2) ds op(1) by (metis add.assoc add.commute le_diff_conv2 length_drop less_imp_le_nat)
    have rest: "drop ?next input = drop advance (d # s)" by (metis ds drop_drop add.assoc add.commute)
    note step = Expand_loop_operator [OF op "1.prems"(2) ds rd(1)]
    have "Expand_loop input m cursor checkpoint buf =
        Expand_loop input m ?next ?next (buf @ ?copied @ (if isVar then m read else read))" by (rule step(3))
    also have "\<dots> = Some ((buf @ ?copied @ (if isVar then m read else read)) @ expand_spec m (drop ?next input))"
      using len by (intro "1.IH"(1) [OF _ _ refl]) (use op rd(1) step(1,2) in auto)
    finally show ?thesis
      using split cur rd(3) rest expand_spec_copy [OF "1.prems"(3)] by (metis append.assoc)
  next
    case char
    have step: "Expand_loop input m cursor checkpoint buf = Expand_loop input m (cursor + 1) checkpoint buf"
      using char by (subst Expand_loop.simps) auto
    show ?thesis
    proof (cases "input ! cursor = operator")
      case False
      have "take (cursor + 1 - checkpoint) (drop checkpoint input) = ?copied @ [input ! cursor]"
        using char(1) "1.prems"(2) by (simp add: Suc_diff_le take_Suc_conv_app_nth)
      then show ?thesis using step char False "1.prems" by (subst step) (intro "1.IH"(2), auto)
    next
      case True
      then have "cursor + 1 = length input" using char by simp
      from Expand_loop_final_operator [OF this True "1.prems"(2,3)] show ?thesis by (simp only: step)
    qed
  next
    case finish
    then show ?thesis
      using "1.prems" expand_spec_copy [OF "1.prems"(3), of m "[]"] by (subst Expand_loop.simps) (simp add: slice_def)
  qed
qed


definition escape :: "string \<Rightarrow> string" where
  "escape s = concat (map (\<lambda>c. if c = operator then [operator, operator] else [c]) s)"

lemma expand_spec_escape: "expand_spec m (escape s) = s"
proof (induction s)
  case (Cons c s)
  have e: "escape (c # s) = (if c = operator then [operator, operator] else [c]) @ escape s"
    by (simp add: escape_def)
  show ?case
  proof (cases "c = operator")
    case True
    then show ?thesis using Cons unfolding e by (simp add: operator_def)
  next
    case False
    then show ?thesis using Cons expand_spec_copy [of "[c]" m "escape s"] by (simp add: e)
  qed
qed (simp add: escape_def)

text \<open>Escaping protects any string: whatever the variables are, a string whose operators are doubled
  expands to the string itself, byte for byte.\<close>

lemma Expand_escape: "Expand (escape s) mapping = Some s"
  using Expand_loop_spec [of 0 "escape s" 0 mapping "[]"] by (simp add: Expand_def expand_spec_escape)

text \<open>References that no context resolves are copied as they are, for ASCII input without an escape.\<close>

lemma expand_spec_unresolved:
  assumes "\<forall>c \<in> set s. (of_char c :: nat) < 128" and "\<nexists>u v. s = u @ ''$$'' @ v"
  shows "expand_spec (MappingFuncFor []) s = s"
  using assms
proof (induction "MappingFuncFor []" s rule: expand_spec.induct)
  case (3 c d s)
  have sub: "\<nexists>u v. t = u @ ''$$'' @ v" if "c # d # s = p @ t" for p t
    using "3.prems"(2) that by (metis append.assoc)
  have ascii: "\<forall>x \<in> set t. (of_char x :: nat) < 128" if "c # d # s = p @ t" for p t
    using "3.prems"(1) that by (metis Un_iff set_append)
  show ?case
  proof (cases "c = CHR ''$''")
    case False
    then show ?thesis using "3.hyps"(1) sub [of "[c]" "d # s"] ascii [of "[c]" "d # s"] by simp
  next
    case True
    then have d: "d \<noteq> CHR ''$''" using "3.prems"(2) by (metis append_Cons append_Nil)
    have rest: "expand_spec (MappingFuncFor []) s = s" if "d \<noteq> CHR ''('' \<or> until_closer s = None"
      using True d that sub [of "[c, d]" s] ascii [of "[c, d]" s] "3.hyps"(3,4,5) by (cases "d = CHR ''(''") auto
    show ?thesis
    proof (cases "d = CHR ''('' \<and> until_closer s \<noteq> None")
      case False
      then show ?thesis
        using True d rest "3.prems"(1) by (cases "until_closer s") (auto simp: string_of_byte_def Let_def)
    next
      case True': True
      then obtain name t where t: "until_closer s = Some (name, t)" by auto
      then have s: "s = name @ referenceCloser # t" by (rule until_closer_parts)
      have "expand_spec (MappingFuncFor []) t = t"
        using True True' d t s sub [of "c # d # name @ [referenceCloser]" t] ascii [of "c # d # name @ [referenceCloser]" t]
          "3.hyps"(4) [OF _ _ _ t refl] by auto
      then show ?thesis
        using True True' t s by (simp add: syntaxWrap_def operator_def referenceOpener_def)
    qed
  qed
qed simp_all

lemma Expand_unresolved:
  "\<forall>c \<in> set s. (of_char c :: nat) < 128 \<Longrightarrow> \<nexists>u v. s = u @ ''$$'' @ v \<Longrightarrow> Expand s (MappingFuncFor []) = Some s"
  using Expand_loop_spec [of 0 s 0 "MappingFuncFor []" "[]"] by (simp add: Expand_def expand_spec_unresolved)

text \<open>Beyond ASCII the byte after an operator is replaced by two: the last byte of \<open>$\<close> followed by 0xE9
  does not come back.\<close>

lemma Expand_non_ascii:
  "Expand [CHR ''$'', CHR 0xE9] m = Some [CHR ''$'', CHR 0xC3, CHR 0xA9]"
  by (simp add: Expand_loop_spec Expand_def) code_simp

end
