(* ===== verification/Command.thy ===== *)
theory Command
  imports Prelude
begin

text \<open>
  The command of the program: the version it reports (\<open>src/pkg/version/version.go\<close>), the \<open>start\<close> command
  (\<open>src/pkg/cmd/cluster-policy-controller/cmd.go\<close>) and the root command with its initialisation
  (\<open>src/cmd/cluster-policy-controller/main.go\<close>). The stamps that the linker puts in, the Go runtime and the
  environment are arguments; parsing of the command line is the cobra library's.
\<close>

section \<open>Version\<close>

record build_stamps =
  commitFromGit :: string
  versionFromGit :: string
  majorFromGit :: string
  minorFromGit :: string
  buildDate :: string
  gitTreeState :: string

text \<open>What they are when the linker sets none.\<close>

definition unstamped :: build_stamps where
  "unstamped = \<lparr>commitFromGit = [], versionFromGit = ''unknown'', majorFromGit = [], minorFromGit = [],
     buildDate = [], gitTreeState = []\<rparr>"

record go_runtime =
  rt_Version :: string
  rt_Compiler :: string
  rt_GOOS :: string
  rt_GOARCH :: string

record version_info =
  Major :: string
  Minor :: string
  GitCommit :: string
  GitVersion :: string
  GitTreeState :: string
  BuildDate :: string
  GoVersion :: string
  Compiler :: string
  Platform :: string

definition version_Get :: "build_stamps \<Rightarrow> go_runtime \<Rightarrow> version_info" where
  "version_Get b rt =
     \<lparr>Major = majorFromGit b, Minor = minorFromGit b, GitCommit = commitFromGit b, GitVersion = versionFromGit b,
      GitTreeState = gitTreeState b, BuildDate = buildDate b, GoVersion = rt_Version rt, Compiler = rt_Compiler rt,
      Platform = rt_GOOS rt @ ''/'' @ rt_GOARCH rt\<rparr>"

text \<open>\<open>init\<close>: the metric with its labels and value. \<open>WithLabelValues\<close> pairs the values with the label names in order.\<close>

definition build_info_labels :: "string list" where
  "build_info_labels = [''major'', ''minor'', ''gitCommit'', ''gitVersion'']"

definition openshift_build_info :: "build_stamps \<Rightarrow> string \<times> (string \<times> string) list \<times> nat" where
  "openshift_build_info b =
     (''openshift_build_info'',
      zip build_info_labels [majorFromGit b, minorFromGit b, commitFromGit b, versionFromGit b], 1)"

text \<open>The metric shows what the version command reports: no label is paired with another field.\<close>

lemma build_info_is_version:
  assumes "openshift_build_info b = (name, ls, n)" "version_Get b rt = v"
  shows "map_of ls ''major'' = Some (Major v)" "map_of ls ''minor'' = Some (Minor v)"
    "map_of ls ''gitCommit'' = Some (GitCommit v)" "map_of ls ''gitVersion'' = Some (GitVersion v)" "n = 1"
  using assms by (auto simp: openshift_build_info_def build_info_labels_def version_Get_def)

section \<open>Commands\<close>

record object_reference =
  or_Kind :: string
  or_Name :: string
  or_Namespace :: string

text \<open>A command with the version and the owner reference its controllers run with; \<open>'r\<close> is the start function.\<close>

record 'r start_command =
  sc_Use :: string
  sc_Short :: string
  sc_componentName :: string
  sc_version :: version_info
  sc_owner :: object_reference
  sc_startFunc :: 'r

definition podNameEnv :: string where "podNameEnv = ''POD_NAME''"
definition podNamespaceEnv :: string where "podNamespaceEnv = ''POD_NAMESPACE''"

text \<open>\<open>os.Getenv\<close> gives the empty string for a variable that is not set.\<close>

definition Getenv :: "(string \<rightharpoonup> string) \<Rightarrow> string \<Rightarrow> string" where
  "Getenv environ k = (case environ k of Some v \<Rightarrow> v | None \<Rightarrow> [])"

definition NewStartCommand :: "build_stamps \<Rightarrow> go_runtime \<Rightarrow> (string \<rightharpoonup> string) \<Rightarrow> 'r \<Rightarrow> string \<Rightarrow> 'r start_command" where
  "NewStartCommand b rt environ runClusterPolicyController name =
     \<lparr>sc_Use = name, sc_Short = ''Start the cluster policy controller'',
      sc_componentName = ''cluster-policy-controller'', sc_version = version_Get b rt,
      sc_owner = \<lparr>or_Kind = ''Pod'', or_Name = Getenv environ podNameEnv, or_Namespace = Getenv environ podNamespaceEnv\<rparr>,
      sc_startFunc = runClusterPolicyController\<rparr>"

text \<open>The root command: run by itself it prints its help and exits with 1.\<close>

record 'r root_command =
  rc_Use :: string
  rc_Short :: string
  rc_exitCode :: int
  rc_commands :: "'r start_command list"

definition NewClusterPolicyControllerCommand :: "build_stamps \<Rightarrow> go_runtime \<Rightarrow> (string \<rightharpoonup> string) \<Rightarrow> 'r \<Rightarrow> 'r root_command" where
  "NewClusterPolicyControllerCommand b rt environ runClusterPolicyController =
     \<lparr>rc_Use = ''cluster-policy-controller'', rc_Short = ''Command for the OpenShift Cluster Policy Controller'',
      rc_exitCode = 1, rc_commands = [NewStartCommand b rt environ runClusterPolicyController ''start'']\<rparr>"

text \<open>
  \<open>init\<close> of the main package installs API groups into the legacy scheme; the first one that fails panics
  (\<open>Inl\<close>, with the scheme as it is then).
\<close>

definition installed_groups :: "string list" where
  "installed_groups = [''apps'', ''authorization'', ''build'', ''image'', ''oauth'', ''project'', ''security'', ''template'', ''user'']"

fun install_all :: "(string \<Rightarrow> 's \<Rightarrow> 's option) \<Rightarrow> string list \<Rightarrow> 's \<Rightarrow> (string \<times> 's) + 's" where
  "install_all install [] scheme = Inr scheme"
| "install_all install (g # gs) scheme =
     (case install g scheme of
        None \<Rightarrow> Inl (g, scheme)
      | Some scheme' \<Rightarrow> install_all install gs scheme')"

definition main_init :: "(string \<Rightarrow> 's \<Rightarrow> 's option) \<Rightarrow> 's \<Rightarrow> (string \<times> 's) + 's" where
  "main_init install scheme = install_all install installed_groups scheme"

text \<open>The program gets past its initialisation exactly when every group installs, and then has them all.\<close>

lemma install_all_ok:
  "install_all install gs scheme = Inr scheme' \<longleftrightarrow>
   fold (\<lambda>g s. Option.bind s (install g)) gs (Some scheme) = Some scheme'"
proof (induction gs arbitrary: scheme)
  case (Cons g gs)
  have none: "fold (\<lambda>g s. Option.bind s (install g)) gs None = None" by (induction gs) simp_all
  show ?case by (cases "install g scheme") (simp_all add: Cons.IH none)
qed simp

end
